(* ===== verification/Sentinel_Prelude.thy ===== *)
theory Sentinel_Prelude
  imports Main "HOL-Library.Word" "HOL-Library.Tree" "HOL-Library.Sublist"
begin

text \<open>
  Shared vocabulary of the development: the lemma collections, nginx return codes, the C
  library's byte-string comparisons and searches on \<^typ>\<open>string\<close> (one \<^typ>\<open>char\<close> is one byte),
  and the generic list facts the component theories use.
\<close>

named_theorems zone_simps \<open>rewrite rules of the shared-memory zone operations\<close>
named_theorems zone_intros \<open>preservation of the zone invariant\<close>
named_theorems ring_simps \<open>rewrite rules of the shared ring buffers\<close>
named_theorems signal_simps \<open>unfolding rules of the request signals\<close>

subsection \<open>Return codes\<close>

text \<open>
  The module returns nginx codes; an HTTP status is returned as a number. Only the identity
  of a code is ever tested, so the codes are constructors.
\<close>

datatype ngx_rc =
    NGX_OK | NGX_ERROR | NGX_AGAIN | NGX_BUSY | NGX_DONE | NGX_DECLINED
  | NGX_STATUS int

definition NGX_HTTP_CLOSE :: ngx_rc where
  "NGX_HTTP_CLOSE = NGX_STATUS 444"

subsection \<open>C strings\<close>

text \<open>The test \<open>strncmp(a, b, n) == 0\<close>: it stops at a terminating zero byte. A buffer's end
  counts as its terminator.\<close>

definition NUL :: char where
  "NUL = CHR 0x00"

fun strncmp_eq :: "nat \<Rightarrow> string \<Rightarrow> string \<Rightarrow> bool" where
  "strncmp_eq 0 a b = True"
| "strncmp_eq (Suc n) [] b = (b = [] \<or> hd b = NUL)"
| "strncmp_eq (Suc n) (x # a) [] = (x = NUL)"
| "strncmp_eq (Suc n) (x # a) (y # b) = (x = y \<and> (x = NUL \<or> strncmp_eq n a b))"

text \<open>\<open>strcmp(a, b) == 0\<close>: equality up to the terminator.\<close>

definition strcmp_eq :: "string \<Rightarrow> string \<Rightarrow> bool" where
  "strcmp_eq a b \<longleftrightarrow> takeWhile (\<lambda>c. c \<noteq> NUL) a = takeWhile (\<lambda>c. c \<noteq> NUL) b"

text \<open>\<open>memcmp(a, b, n) == 0\<close>.\<close>

definition memcmp_eq :: "nat \<Rightarrow> string \<Rightarrow> string \<Rightarrow> bool" where
  "memcmp_eq n a b \<longleftrightarrow> take n a = take n b"

text \<open>\<open>memchr\<close>, as the index of the first occurrence.\<close>

fun memchr :: "char \<Rightarrow> string \<Rightarrow> nat option" where
  "memchr c [] = None"
| "memchr c (x # xs) = (if x = c then Some 0 else map_option Suc (memchr c xs))"

lemma strncmp_eq_prefix:
  "NUL \<notin> set b \<Longrightarrow> strncmp_eq (length b) a b \<longleftrightarrow> prefix b a"
proof (induction b arbitrary: a)
  case Nil
  then show ?case by simp
next
  case (Cons y b)
  then show ?case by (cases a) auto
qed

lemma strncmp_eq_append: "NUL \<notin> set b \<Longrightarrow> n = length b \<Longrightarrow> strncmp_eq n (b @ s) b"
  by (simp add: strncmp_eq_prefix)

lemma strncmp_eq_refl [simp]: "strncmp_eq n a a"
proof (induction n arbitrary: a)
  case (Suc n)
  then show ?case by (cases a) auto
qed simp

lemma strncmp_eq_same_length:
  assumes "length a = n" "length b = n" "NUL \<notin> set b"
  shows "strncmp_eq n a b \<longleftrightarrow> a = b"
  using assms strncmp_eq_prefix [of b a] by (auto simp: prefix_def)

lemma memchr_None [simp]: "memchr c s = None \<longleftrightarrow> c \<notin> set s"
  by (induction s) auto

lemma memchr_Some:
  "memchr c s = Some i \<Longrightarrow>
     i < length s \<and> s ! i = c \<and> c \<notin> set (take i s)"
proof (induction s arbitrary: i)
  case (Cons x s)
  then show ?case by (cases i) (auto split: if_splits)
qed simp

lemma memchr_append_notin:
  "c \<notin> set a \<Longrightarrow> memchr c (a @ c # b) = Some (length a)"
  by (induction a) auto

lemma memchr_less: "memchr c s = Some i \<Longrightarrow> i < length s"
  by (auto dest: memchr_Some)

subsection \<open>Numbers and alignment\<close>

text \<open>\<open>ngx_align(d, a)\<close> for a power of two is rounding up to a multiple of \<open>a\<close>.\<close>

definition align_up :: "nat \<Rightarrow> nat \<Rightarrow> nat" where
  "align_up d a = (d + (a - 1)) div a * a"

lemma align_up_dvd [simp]: "a dvd align_up d a"
  by (simp add: align_up_def)

lemma align_up_bounds:
  assumes "0 < a"
  shows "d \<le> align_up d a" and "align_up d a < d + a"
proof -
  have "(d + (a - 1)) div a * a + (d + (a - 1)) mod a = d + (a - 1)"
    by (rule div_mult_mod_eq)
  moreover have "(d + (a - 1)) mod a < a" using assms by simp
  ultimately show "d \<le> align_up d a" and "align_up d a < d + a"
    using assms unfolding align_up_def by linarith+
qed

subsection \<open>Lists\<close>

lemma filter_take_Suc:
  "i < length xs \<Longrightarrow>
     filter P (take (Suc i) xs) = filter P (take i xs) @ (if P (xs ! i) then [xs ! i] else [])"
  by (simp add: take_Suc_conv_app_nth)

lemma length_filter_take_le: "length (filter P (take i xs)) \<le> i"
  by (metis length_filter_le length_take min.bounded_iff order.trans)

lemma take_list_update_beyond: "n \<le> i \<Longrightarrow> take n (xs[i := v]) = take n xs"
  by simp

lemma distinct_remove1_set: "distinct xs \<Longrightarrow> set (remove1 x xs) = set xs - {x}"
  by simp

lemma option_case_None_Some:
  "(case x of None \<Rightarrow> a | Some y \<Rightarrow> f y) = b \<longleftrightarrow>
     (x = None \<and> a = b) \<or> (\<exists>y. x = Some y \<and> f y = b)"
  by (cases x) auto

end
