(* ===== verification/Sentinel_Types.thy ===== *)
theory Sentinel_Types
  imports Sentinel_Prelude
begin

text \<open>
  The data of \<^verbatim>\<open>src/sentinel.h\<close>: constants, enums and structs, the parts of nginx's request
  that the module reads and writes, and the record of the functions the module calls but does
  not define (nginx core, OpenSSL). Conventions:
  \<^item> \<open>ngx_str_t\<close> is \<^typ>\<open>string\<close>; a nullable pointer is an \<open>option\<close>; \<open>time_t\<close> and
    \<open>ngx_int_t\<close> are \<^typ>\<open>int\<close>; counters that wrap are \<^typ>\<open>64 word\<close>; sizes and indices are \<^typ>\<open>nat\<close>;
  \<^item> request-scope flags (\<open>inputs->*\<close>) are \<^typ>\<open>bool\<close>; configuration flags keep the value
    \<open>NGX_CONF_UNSET\<close> and are \<^typ>\<open>int\<close>;
  \<^item> logging is left out: no value the module computes depends on it.
\<close>

subsection \<open>Constants\<close>

definition NGX_SENTINEL_DIGEST_LEN :: nat where "NGX_SENTINEL_DIGEST_LEN = 32"
definition NGX_SENTINEL_MAX_WINDOW_EVENTS :: nat where "NGX_SENTINEL_MAX_WINDOW_EVENTS = 64"
definition NGX_SENTINEL_EXPIRE_BATCH :: nat where "NGX_SENTINEL_EXPIRE_BATCH = 2"
definition NGX_SENTINEL_SCORE_MAX :: int where "NGX_SENTINEL_SCORE_MAX = 100000"
definition NGX_SENTINEL_FEED_APPLY_BATCH :: nat where "NGX_SENTINEL_FEED_APPLY_BATCH = 256"
definition NGX_SENTINEL_FEED_MALFORMED_DENOM :: nat where "NGX_SENTINEL_FEED_MALFORMED_DENOM = 4"
definition NGX_SENTINEL_FEED_HEADER :: string where
  "NGX_SENTINEL_FEED_HEADER = ''# sentinel-crowdsec-feed v1''"
definition NGX_SENTINEL_REDIS_PUSH_RING :: nat where "NGX_SENTINEL_REDIS_PUSH_RING = 4096"
definition NGX_SENTINEL_CSSINK_RING :: nat where "NGX_SENTINEL_CSSINK_RING = 4096"
definition NGX_CONF_UNSET :: int where "NGX_CONF_UNSET = -1"

text \<open>nginx's own constants that the module relies on.\<close>

definition NGX_MAX_PROCESSES :: nat where "NGX_MAX_PROCESSES = 1024"
definition NGX_HTTP_VERSION_11 :: nat where "NGX_HTTP_VERSION_11 = 1001"
definition NGX_HTTP_VERSION_20 :: nat where "NGX_HTTP_VERSION_20 = 2000"

subsection \<open>Enums\<close>

datatype cs_action_tier = CS_NONE | CS_BAN | CS_CAPTCHA | CS_THROTTLE | CS_OTHER nat

datatype fcrdns_verdict = FCRDNS_PENDING | FCRDNS_VERIFIED | FCRDNS_FAILED

datatype ngx_sentinel_verdict = VERDICT_ALLOW | VERDICT_CHALLENGE | VERDICT_TARPIT | VERDICT_BLOCK

datatype ngx_sentinel_pow_state = POW_OFF | POW_VERIFIED | POW_CHALLENGE

datatype ngx_sentinel_metric =
    M_REQUESTS
  | M_VERDICT ngx_sentinel_verdict
  | M_SIG_ERRRATE | M_SIG_BLOCKED | M_SIG_SCANNER | M_SIG_BOT | M_SIG_HEADER
  | M_SIG_HONEYPOT | M_SIG_VELOCITY | M_SIG_ASN | M_SIG_COHERENCE | M_SIG_CROWDSEC
  | M_SIG_JA3 | M_SIG_JA4 | M_SIG_JA4T | M_SIG_C2IP
  | M_SHADOW

text \<open>The numeric position of a verdict (\<open>ngx_sentinel_verdict_e\<close>).\<close>

fun verdict_index :: "ngx_sentinel_verdict \<Rightarrow> nat" where
  "verdict_index VERDICT_ALLOW = 0"
| "verdict_index VERDICT_CHALLENGE = 1"
| "verdict_index VERDICT_TARPIT = 2"
| "verdict_index VERDICT_BLOCK = 3"

instantiation ngx_sentinel_verdict :: linorder
begin

definition less_eq_ngx_sentinel_verdict :: "ngx_sentinel_verdict \<Rightarrow> ngx_sentinel_verdict \<Rightarrow> bool" where
  "less_eq_ngx_sentinel_verdict v w \<longleftrightarrow> verdict_index v \<le> verdict_index w"

definition less_ngx_sentinel_verdict :: "ngx_sentinel_verdict \<Rightarrow> ngx_sentinel_verdict \<Rightarrow> bool" where
  "less_ngx_sentinel_verdict v w \<longleftrightarrow> verdict_index v < verdict_index w"

instance
proof
  fix v w :: ngx_sentinel_verdict
  assume "v \<le> w" "w \<le> v"
  then show "v = w"
    by (cases v; cases w) (auto simp: less_eq_ngx_sentinel_verdict_def)
qed (auto simp: less_eq_ngx_sentinel_verdict_def less_ngx_sentinel_verdict_def)

end

subsection \<open>Shared memory: nodes, zone contexts, zones\<close>

type_synonym slab_addr = nat

text \<open>\<open>ngx_sentinel_node_t\<close>. The trailing \<open>data[]\<close> holds the key bytes and then the ring of
  event timestamps; here they are two fields. The rbtree and queue links are the position of
  the node's address in \<open>sh_tree\<close> and \<open>sh_queue\<close> below.\<close>

record ngx_sentinel_node =
  node_hash :: "32 word"
  node_key :: string
  blocked_until :: int
  last_seen :: int
  event_head :: nat
  event_count :: nat
  node_generation :: "64 word"
  cs_action :: cs_action_tier
  redis_pulled :: bool
  node_events :: "int list"

text \<open>\<open>ngx_sentinel_shctx_t\<close>: the tree and the LRU queue (head first) hold slab addresses; the
  slab pool's live nodes are \<open>sh_mem\<close>.\<close>

record ngx_sentinel_shctx =
  sh_tree :: "slab_addr tree"
  sh_queue :: "slab_addr list"
  sh_mem :: "slab_addr \<Rightarrow> ngx_sentinel_node option"
  sh_generation :: "64 word"

record ngx_sentinel_zone =
  zone_name :: string
  zone_interval :: int
  zone_block :: int
  zone_threshold :: nat
  zone_sh :: "ngx_sentinel_shctx option"

subsection \<open>Ring entries\<close>

record ngx_sentinel_redis_push =
  push_ip :: string
  push_action :: cs_action_tier
  push_expiry :: int

text \<open>\<open>head\<close> and \<open>tail\<close> are free-running unsigned counters; the slot is the counter modulo the
  capacity.\<close>

record ngx_sentinel_ring =
  ring_head :: "64 word"
  ring_tail :: "64 word"
  ring_dropped :: "64 word"
  ring_slots :: "ngx_sentinel_redis_push list"

subsection \<open>Per-request signal inputs and context\<close>

record ngx_sentinel_inputs =
  ja4h :: string
  errrate_count :: nat
  errrate_blocked :: bool
  scanner_path :: bool
  bot_ua :: bool
  known_good_ua :: bool
  fcrdns_verified :: bool
  fcrdns_spoofed :: bool
  header_anomaly :: bool
  honeypot :: bool
  velocity_exceeded :: bool
  datacenter_asn :: bool
  ua_incoherent :: bool
  ja3_flagged :: bool
  ja4_flagged :: bool
  ja4t_flagged :: bool
  c2ip_flagged :: bool
  allowlisted :: bool
  crowdsec_hit :: bool
  crowdsec_action :: cs_action_tier

text \<open>The inputs of a fresh context (\<open>ngx_pcalloc\<close>: all bytes zero).\<close>

definition zero_inputs :: ngx_sentinel_inputs where
  "zero_inputs =
     \<lparr>ja4h = [], errrate_count = 0, errrate_blocked = False, scanner_path = False,
      bot_ua = False, known_good_ua = False, fcrdns_verified = False, fcrdns_spoofed = False,
      header_anomaly = False, honeypot = False, velocity_exceeded = False,
      datacenter_asn = False, ua_incoherent = False, ja3_flagged = False,
      ja4_flagged = False, ja4t_flagged = False, c2ip_flagged = False,
      allowlisted = False, crowdsec_hit = False, crowdsec_action = CS_NONE\<rparr>"

record ngx_sentinel_ctx =
  ctx_inputs :: ngx_sentinel_inputs
  ctx_score :: int
  ctx_verdict :: ngx_sentinel_verdict
  ctx_computed :: bool
  ctx_throttled :: bool
  ctx_shielded :: bool
  ctx_pow_state :: ngx_sentinel_pow_state

subsection \<open>Configuration\<close>

record ngx_sentinel_threshold =
  thr_challenge :: int
  thr_tarpit :: int
  thr_block :: int

record ngx_sentinel_weights =
  w_errrate :: int
  w_blocked :: int
  w_scanner :: int
  w_bot :: int
  w_header :: int
  w_honeypot :: int
  w_velocity :: int
  w_asn :: int
  w_coherence :: int
  w_ja3 :: int
  w_ja4 :: int
  w_ja4t :: int
  w_c2ip :: int
  w_crowdsec :: int

text \<open>Strings merged with \<open>ngx_conf_merge_str_value\<close> distinguish an unset value (\<open>data == NULL\<close>)
  from an empty one; a reader only sees the bytes.\<close>

definition str_of :: "string option \<Rightarrow> string" where
  "str_of s = (case s of None \<Rightarrow> [] | Some t \<Rightarrow> t)"

text \<open>A zone pointer into one of the main configuration's zone arrays: unset
  (\<open>NGX_CONF_UNSET_PTR\<close>), \<open>NULL\<close> or the address of an element.\<close>

datatype zone_ptr = ZUnset | ZNull | ZAt nat

text \<open>The zone a reader dereferences. After \<open>ngx_sentinel_merge_loc_conf\<close> no pointer is unset.\<close>

fun zone_at :: "zone_ptr \<Rightarrow> nat option" where
  "zone_at (ZAt i) = Some i"
| "zone_at ZNull = None"
| "zone_at ZUnset = None"

text \<open>A shared zone of nginx (\<open>ngx_shm_zone_t *\<close>) is identified by its name: nginx returns the
  same zone for the same name.\<close>

text \<open>A CIDR block, in the address family it was parsed for.\<close>

datatype ngx_cidr = CIDR4 "32 word" "32 word" | CIDR6 string string | CIDR_OTHER

record ngx_sentinel_main_conf =
  mcf_zones :: "ngx_sentinel_zone list"
  mcf_cs_zones :: "ngx_sentinel_zone list"
  mcf_vel_zones :: "ngx_sentinel_zone list"
  mcf_fcrdns_zones :: "ngx_sentinel_zone list"
  mcf_tarpit_conns :: "64 word list option"
  mcf_metrics :: "(ngx_sentinel_metric \<Rightarrow> 64 word) option"

record ngx_sentinel_loc_base =
  lcf_enabled :: int
  lcf_shadow :: int
  lcf_fail_open :: int
  lcf_zone :: "nat option"
  lcf_vel_zone :: zone_ptr
  lcf_vel_zone_name :: string
  lcf_threshold :: ngx_sentinel_threshold
  lcf_weights :: ngx_sentinel_weights
  lcf_decoy_paths :: "string list"
  lcf_allow_cidrs :: "ngx_cidr list"
  lcf_asn_source :: "string option"
  lcf_asn_list :: "nat list"
  lcf_ja3_source :: "string option"
  lcf_ja3_list :: "string list"
  lcf_ja4_source :: "string option"
  lcf_ja4_list :: "string list"
  lcf_ja4t_source :: "string option"
  lcf_ja4t_list :: "string list"
  lcf_c2ip_tree :: "(32 word \<times> 32 word) list option"
  lcf_c2ip_tree6 :: "(string \<times> string) list option"

record ngx_sentinel_loc_feeds = ngx_sentinel_loc_base +
  lcf_cs_zone :: zone_ptr
  lcf_cs_feed :: string
  lcf_cs_interval :: int
  lcf_cs_default_ttl :: int
  lcf_cs_stale_after :: int
  lcf_cs_max_bytes :: int
  lcf_fcrdns_zone :: zone_ptr
  lcf_fcrdns_zone_name :: string
  lcf_fcrdns_ttl :: int
  lcf_fcrdns_suffixes :: "string list"
  lcf_redis_host :: string
  lcf_redis_port :: int
  lcf_redis_password :: "string option"
  lcf_redis_prefix :: "string option"
  lcf_redis_interval :: int
  lcf_redis_ttl :: int
  lcf_redis_push_zone :: "string option"
  lcf_cs_sink_path :: string
  lcf_cs_sink_interval :: int
  lcf_cs_sink_ttl :: int
  lcf_cs_sink_scenario :: "string option"
  lcf_cs_sink_zone :: "string option"

record ngx_sentinel_loc_conf = ngx_sentinel_loc_feeds +
  lcf_tarpit_max_conns :: int
  lcf_tarpit_delay :: int
  lcf_tarpit_bytes :: int
  lcf_tarpit_max_lifetime :: int
  lcf_tarpit_maze :: int
  lcf_block_status :: int
  lcf_block_ttl :: int
  lcf_throttle_rate :: int
  lcf_shield :: int
  lcf_pow_enabled :: int
  lcf_pow_secret :: "string option"
  lcf_pow_difficulty :: int
  lcf_pow_ttl :: int

subsection \<open>The request\<close>

text \<open>The client's socket address: the IPv4 address in host byte order, the 16 bytes of an
  IPv6 address, or another family (a Unix socket).\<close>

datatype sockaddr = AF_INET "32 word" | AF_INET6 string | AF_UNIX

datatype http_method =
    HTTP_GET | HTTP_HEAD | HTTP_POST | HTTP_PUT | HTTP_DELETE | HTTP_OPTIONS | HTTP_PATCH
  | HTTP_OTHER

text \<open>One element of nginx's parsed header list; \<open>hash = 0\<close> marks a deleted header.\<close>

record ngx_table_elt =
  hdr_hash :: nat
  hdr_key :: string
  hdr_value :: string

text \<open>What the module reads of \<open>ngx_http_request_t\<close> and its connection. The header list is the
  sequence of its elements over all its parts.\<close>

record ngx_http_request =
  r_uri :: string
  r_method :: http_method
  r_http_version :: nat
  r_headers :: "ngx_table_elt list"
  r_host :: "string option"
  r_content_length :: "string option"
  r_transfer_encoding :: "string option"
  r_user_agent :: "string option"
  r_accept :: "string option"
  r_accept_language :: "string option"
  r_accept_encoding :: "string option"
  r_cookie :: "string list"
  r_args :: string
  r_addr_text :: string
  r_sockaddr :: "sockaddr option"
  r_err_status :: nat
  r_out_status :: nat

subsection \<open>Functions the module calls and does not define\<close>

text \<open>
  nginx core and OpenSSL are not part of the repository, so each function of theirs that the
  module calls is a field of this record and an argument of the model:
  \<open>sha256\<close> (OpenSSL), \<open>crc32_short\<close> / \<open>crc32_long\<close>, \<open>memn2cmp\<close> (three-way byte comparison),
  \<open>strncasecmp\<close>, \<open>atoi\<close> (\<open>None\<close> is \<open>NGX_ERROR\<close>), \<open>rb_fixup\<close> (the rebalancing of
  \<open>ngx_rbtree_insert\<close> after the module's own descent), \<open>rb_delete\<close>, \<open>slab_calloc\<close> (\<open>None\<close> is
  \<open>NULL\<close>), \<open>inet_addr\<close>, \<open>inet6_addr\<close>, \<open>inet_ntop\<close>, \<open>inet6_ntop\<close>, \<open>cidr_match\<close>,
  \<open>radix32_find\<close>, \<open>radix128_find\<close>, \<open>parse_size\<close>, \<open>ptocidr\<close> (\<open>None\<close> is
  \<open>NGX_ERROR\<close>), \<open>shared_memory_add\<close> (whether it returns a zone), \<open>complex_value\<close>, \<open>ngx_tolower\<close>,
  \<open>qsort\<close>, \<open>atotm\<close>, \<open>sprint_int\<close> (the decimal conversions of \<open>ngx_sprintf\<close>), \<open>hmac_sha256\<close>
  (OpenSSL; \<open>None\<close> is \<open>NULL\<close>), \<open>parse_cookie_lines\<close> and \<open>http_arg\<close>. \<open>node_data_offset\<close> is
  \<open>offsetof(ngx_sentinel_node_t, data)\<close>, which depends on nginx's struct layouts, and
  \<open>node_sizeof\<close>, \<open>redis_shctx_sizeof\<close> and \<open>cssink_shctx_sizeof\<close> are the \<open>sizeof\<close> of the node and of
  the two ring structs.
\<close>

record ngx_api =
  sha256 :: "string \<Rightarrow> string"
  crc32_short :: "string \<Rightarrow> 32 word"
  crc32_long :: "string \<Rightarrow> 32 word"
  memn2cmp :: "string \<Rightarrow> string \<Rightarrow> int"
  strncasecmp :: "string \<Rightarrow> string \<Rightarrow> nat \<Rightarrow> int"
  atoi :: "string \<Rightarrow> int option"
  rb_fixup :: "slab_addr tree \<Rightarrow> slab_addr tree"
  rb_delete :: "slab_addr tree \<Rightarrow> slab_addr \<Rightarrow> slab_addr tree"
  slab_calloc :: "ngx_sentinel_shctx \<Rightarrow> 64 word \<Rightarrow> slab_addr option"
  node_data_offset :: "64 word"
  node_sizeof :: "64 word"
  redis_shctx_sizeof :: int
  cssink_shctx_sizeof :: int
  inet_addr :: "string \<Rightarrow> 32 word option"
  inet6_addr :: "string \<Rightarrow> string option"
  inet_ntop :: "32 word \<Rightarrow> string"
  inet6_ntop :: "string \<Rightarrow> string"
  cidr_match :: "sockaddr \<Rightarrow> ngx_cidr list \<Rightarrow> bool"
  radix32_find :: "(32 word \<times> 32 word) list \<Rightarrow> 32 word \<Rightarrow> bool"
  radix128_find :: "(string \<times> string) list \<Rightarrow> string \<Rightarrow> bool"
  parse_size :: "string \<Rightarrow> int option"
  ptocidr :: "string \<Rightarrow> ngx_cidr option"
  pagesize :: int
  shared_memory_add :: "string \<Rightarrow> int \<Rightarrow> bool"
  complex_value :: "ngx_http_request \<Rightarrow> string \<Rightarrow> string option"
  ngx_tolower :: "char \<Rightarrow> char"
  qsort :: "(string \<Rightarrow> string \<Rightarrow> int) \<Rightarrow> string list \<Rightarrow> string list"
  atotm :: "string \<Rightarrow> int option"
  sprint_int :: "int \<Rightarrow> string"
  hmac_sha256 :: "string \<Rightarrow> string \<Rightarrow> string option"
  parse_cookie_lines :: "string list \<Rightarrow> string \<Rightarrow> string option"
  http_arg :: "string \<Rightarrow> string \<Rightarrow> string option"

end
