(* ===== verification/Sentinel_Ring.thy ===== *)
theory Sentinel_Ring
  imports Sentinel_Types
begin

text \<open>
  The shared ring that carries bans from the request path to a worker timer. \<^verbatim>\<open>sentinel_redis.c\<close>
  and \<^verbatim>\<open>sentinel_cssink.c\<close> each have one of 4096 slots with free-running 64-bit counters. The
  abstraction \<open>ring_entries\<close> is the queue of pending entries, oldest first; \<open>ring_put\<close> and
  \<open>ring_take\<close> refine a bounded FIFO (the locale \<open>bounded_fifo\<close>), also when the counters wrap.
\<close>

definition ring_zero :: "nat \<Rightarrow> ngx_sentinel_ring" where
  "ring_zero cap =
     \<lparr>ring_head = 0, ring_tail = 0, ring_dropped = 0,
      ring_slots = replicate cap \<lparr>push_ip = [], push_action = CS_NONE, push_expiry = 0\<rparr>\<rparr>"

text \<open>The locked part of the two enqueue functions: drop when full, else fill the slot at the
  head.\<close>

definition ring_put :: "nat \<Rightarrow> ngx_sentinel_redis_push \<Rightarrow> ngx_sentinel_ring \<Rightarrow> ngx_sentinel_ring" where
  "ring_put cap e r =
     (if ring_head r - ring_tail r \<ge> of_nat cap
      then r\<lparr>ring_dropped := ring_dropped r + 1\<rparr>
      else
        let slot = unat (ring_head r) mod cap
        in r\<lparr>ring_slots := (ring_slots r)[slot := e], ring_head := ring_head r + 1\<rparr>)"

text \<open>The locked part of the two drain loops.\<close>

definition ring_take :: "nat \<Rightarrow> ngx_sentinel_ring \<Rightarrow> (ngx_sentinel_redis_push \<times> ngx_sentinel_ring) option" where
  "ring_take cap r =
     (if ring_tail r = ring_head r then None
      else Some (ring_slots r ! (unat (ring_tail r) mod cap), r\<lparr>ring_tail := ring_tail r + 1\<rparr>))"

subsection \<open>The queue a ring stands for\<close>

definition ring_count :: "ngx_sentinel_ring \<Rightarrow> nat" where
  "ring_count r = unat (ring_head r - ring_tail r)"

definition ring_entries :: "nat \<Rightarrow> ngx_sentinel_ring \<Rightarrow> ngx_sentinel_redis_push list" where
  "ring_entries cap r =
     map (\<lambda>i. ring_slots r ! (unat (ring_tail r + of_nat i) mod cap)) [0..<ring_count r]"

text \<open>The capacity divides the range of the counters, so that a wrapped counter still names the
  next slot.\<close>

definition ring_cap :: "nat \<Rightarrow> bool" where
  "ring_cap cap \<longleftrightarrow> 0 < cap \<and> cap dvd 2 ^ 64 \<and> cap < 2 ^ 64"

definition ring_inv :: "nat \<Rightarrow> ngx_sentinel_ring \<Rightarrow> bool" where
  "ring_inv cap r \<longleftrightarrow> length (ring_slots r) = cap \<and> ring_count r \<le> cap"

lemma ring_caps: "ring_cap NGX_SENTINEL_REDIS_PUSH_RING" "ring_cap NGX_SENTINEL_CSSINK_RING"
  by (simp_all add: ring_cap_def NGX_SENTINEL_REDIS_PUSH_RING_def NGX_SENTINEL_CSSINK_RING_def)

lemma ring_zero_inv [simp]: "ring_inv cap (ring_zero cap)" "ring_entries cap (ring_zero cap) = []"
  by (simp_all add: ring_inv_def ring_zero_def ring_count_def ring_entries_def)

lemma length_ring_entries [simp]: "length (ring_entries cap r) = ring_count r"
  by (simp add: ring_entries_def)

lemma slot_index:
  assumes "ring_cap cap"
  shows "unat (t + of_nat i :: 64 word) mod cap = (unat t + i) mod cap"
proof -
  have "unat (t + of_nat i :: 64 word) = (unat t + i) mod 2 ^ 64"
    by (simp add: unat_word_ariths take_bit_eq_mod unsigned_of_nat mod_add_right_eq)
  then show ?thesis using assms by (simp add: ring_cap_def mod_mod_cancel)
qed

lemma slot_distinct:
  assumes "ring_cap cap" "i < n" "n < cap"
  shows "unat (t + of_nat i :: 64 word) mod cap \<noteq> unat (t + of_nat n :: 64 word) mod cap"
proof
  assume "unat (t + of_nat i :: 64 word) mod cap = unat (t + of_nat n :: 64 word) mod cap"
  then have "(unat t + n) mod cap = (unat t + i) mod cap" by (simp add: slot_index [OF assms(1)])
  then have "cap dvd (unat t + n) - (unat t + i)" using assms(2) by (metis add_le_cancel_left less_imp_le mod_eq_dvd_iff_nat)
  then have "cap dvd n - i" by simp
  then show False using assms(2,3) by (metis dvd_imp_le less_imp_diff_less not_le zero_less_diff)
qed

lemma put_full:
  assumes "ring_cap cap" "ring_inv cap r"
  shows "of_nat cap \<le> ring_head r - ring_tail r \<longleftrightarrow> ring_count r = cap"
proof -
  have "unat (of_nat cap :: 64 word) = cap"
    using assms(1) by (simp add: ring_cap_def unsigned_of_nat take_bit_eq_mod)
  then show ?thesis using assms(2) by (auto simp: word_le_nat_alt ring_count_def ring_inv_def)
qed

lemma put_refines:
  assumes cap: "ring_cap cap" and inv: "ring_inv cap r"
  shows "ring_inv cap (ring_put cap e r)"
    and "ring_entries cap (ring_put cap e r) =
      (if ring_count r < cap then ring_entries cap r @ [e] else ring_entries cap r)"
    and "ring_dropped (ring_put cap e r) = (if ring_count r < cap then ring_dropped r else ring_dropped r + 1)"
proof -
  let ?n = "ring_count r"
  have full: "of_nat cap \<le> ring_head r - ring_tail r \<longleftrightarrow> \<not> ?n < cap"
    using put_full [OF cap inv] inv by (auto simp: ring_inv_def)
  show "ring_dropped (ring_put cap e r) = (if ?n < cap then ring_dropped r else ring_dropped r + 1)"
    using full by (simp add: ring_put_def Let_def)
  have "ring_inv cap (ring_put cap e r) \<and> ring_entries cap (ring_put cap e r) =
      (if ?n < cap then ring_entries cap r @ [e] else ring_entries cap r)"
  proof (cases "?n < cap")
    case False
    then show ?thesis using full inv by (simp add: ring_put_def ring_inv_def ring_count_def ring_entries_def)
  next
    case True
    have hd: "ring_head r = ring_tail r + of_nat ?n" by (simp add: ring_count_def)
    let ?s = "unat (ring_head r) mod cap"
    have s: "?s < length (ring_slots r)" using inv cap by (simp add: ring_inv_def ring_cap_def)
    have put: "ring_put cap e r = r\<lparr>ring_slots := (ring_slots r)[?s := e], ring_head := ring_head r + 1\<rparr>"
      using True full by (simp add: ring_put_def Let_def)
    have small: "?n + 1 < 2 ^ 64" using True cap by (simp add: ring_cap_def)
    have "ring_count (ring_put cap e r) = unat (of_nat ?n + 1 :: 64 word)"
      by (simp add: put ring_count_def algebra_simps)
    also have "\<dots> = ?n + 1"
      using small by (simp add: unat_word_ariths unsigned_of_nat take_bit_eq_mod)
    finally have cnt: "ring_count (ring_put cap e r) = Suc ?n" by simp
    have old: "(ring_slots r)[?s := e] ! (unat (ring_tail r + of_nat i) mod cap) =
        ring_slots r ! (unat (ring_tail r + of_nat i) mod cap)" if "i < ?n" for i
      using slot_distinct [OF cap that True, of "ring_tail r"] by (simp add: hd [symmetric])
    have new: "(ring_slots r)[?s := e] ! (unat (ring_tail r + of_nat ?n) mod cap) = e"
      using s by (simp add: hd [symmetric])
    have "ring_entries cap (ring_put cap e r) =
        map (\<lambda>i. (ring_slots r)[?s := e] ! (unat (ring_tail r + of_nat i) mod cap)) ([0..<?n] @ [?n])"
      unfolding ring_entries_def cnt by (simp add: put)
    also have "\<dots> = ring_entries cap r @ [e]"
      unfolding map_append ring_entries_def using old new by simp
    finally show ?thesis using True cnt inv by (simp add: ring_inv_def put)
  qed
  then show "ring_inv cap (ring_put cap e r)"
    and "ring_entries cap (ring_put cap e r) =
      (if ?n < cap then ring_entries cap r @ [e] else ring_entries cap r)" by auto
qed

lemma take_None: "ring_take cap r = None \<longleftrightarrow> ring_entries cap r = []"
  by (auto simp: ring_take_def ring_entries_def ring_count_def unat_eq_0)

lemma take_count: "ring_take cap r = Some (e, r') \<Longrightarrow> ring_count r = Suc (ring_count r')"
proof -
  assume t: "ring_take cap r = Some (e, r')"
  then have ne: "ring_head r - ring_tail r \<noteq> 0" and r': "r' = r\<lparr>ring_tail := ring_tail r + 1\<rparr>"
    by (auto simp: ring_take_def split: if_splits)
  have "0 < unat (ring_head r - ring_tail r)" using ne unat_gt_0 by blast
  then show ?thesis using unat_minus_one [OF ne] unfolding r' ring_count_def by (simp add: diff_diff_eq)
qed

lemma take_refines:
  assumes inv: "ring_inv cap r" and t: "ring_take cap r = Some (e, r')"
  shows "ring_inv cap r'" "ring_entries cap r = e # ring_entries cap r'" "ring_dropped r' = ring_dropped r"
proof -
  have e: "e = ring_slots r ! (unat (ring_tail r) mod cap)"
    and r': "r' = r\<lparr>ring_tail := ring_tail r + 1\<rparr>"
    using t by (auto simp: ring_take_def split: if_splits)
  note cnt = take_count [OF t]
  show "ring_inv cap r'" using inv cnt by (simp add: ring_inv_def r')
  have "[0..<ring_count r] = 0 # map Suc [0..<ring_count r']"
    unfolding cnt by (simp add: upt_conv_Cons map_Suc_upt del: upt_Suc)
  then show "ring_entries cap r = e # ring_entries cap r'"
    unfolding ring_entries_def by (simp add: e r' comp_def algebra_simps)
  show "ring_dropped r' = ring_dropped r" by (simp add: r')
qed

subsection \<open>A bounded FIFO\<close>

text \<open>The contract of the two rings: entries leave in the order they came, and one that finds the
  queue full is dropped and counted.\<close>

locale bounded_fifo =
  fixes cap :: nat
    and invar :: "'s \<Rightarrow> bool"
    and entries :: "'s \<Rightarrow> 'e list"
    and dropped :: "'s \<Rightarrow> 64 word"
    and put :: "'e \<Rightarrow> 's \<Rightarrow> 's"
    and take_one :: "'s \<Rightarrow> ('e \<times> 's) option"
  assumes bounded: "invar s \<Longrightarrow> length (entries s) \<le> cap"
    and put_invar: "invar s \<Longrightarrow> invar (put e s)"
    and put_entries: "invar s \<Longrightarrow>
      entries (put e s) = (if length (entries s) < cap then entries s @ [e] else entries s)"
    and put_dropped: "invar s \<Longrightarrow>
      dropped (put e s) = (if length (entries s) < cap then dropped s else dropped s + 1)"
    and take_none: "take_one s = None \<longleftrightarrow> entries s = []"
    and take_some: "invar s \<Longrightarrow> take_one s = Some (e, s') \<Longrightarrow> invar s' \<and> entries s = e # entries s'"
begin

text \<open>A burst of enqueues keeps a prefix of the burst, and every other entry is counted.\<close>

lemma put_all:
  "invar s \<Longrightarrow> invar (fold put es s) \<and>
     entries (fold put es s) = entries s @ take (cap - length (entries s)) es \<and>
     dropped (fold put es s) = dropped s + of_nat (length es - (cap - length (entries s)))"
proof (induction es arbitrary: s)
  case (Cons e es)
  have b: "length (entries s) \<le> cap" by (rule bounded [OF Cons.prems])
  have IH: "invar (fold put es (put e s))"
    "entries (fold put es (put e s)) = entries (put e s) @ take (cap - length (entries (put e s))) es"
    "dropped (fold put es (put e s)) = dropped (put e s) + of_nat (length es - (cap - length (entries (put e s))))"
    using Cons.IH [OF put_invar [OF Cons.prems, of e]] by auto
  show ?case
  proof (cases "length (entries s) < cap")
    case True
    then obtain k where k: "cap - length (entries s) = Suc k" by (cases "cap - length (entries s)") auto
    have "cap - length (entries (put e s)) = k" using k True by (simp add: put_entries [OF Cons.prems])
    then show ?thesis
      using IH True k by (simp add: put_entries [OF Cons.prems] put_dropped [OF Cons.prems])
  next
    case False
    then show ?thesis
      using IH b by (simp add: put_entries [OF Cons.prems] put_dropped [OF Cons.prems])
  qed
qed simp

end

text \<open>The operations at the two capacities.\<close>

definition redis_put :: "ngx_sentinel_redis_push \<Rightarrow> ngx_sentinel_ring \<Rightarrow> ngx_sentinel_ring" where
  "redis_put = ring_put NGX_SENTINEL_REDIS_PUSH_RING"

definition redis_take :: "ngx_sentinel_ring \<Rightarrow> (ngx_sentinel_redis_push \<times> ngx_sentinel_ring) option" where
  "redis_take = ring_take NGX_SENTINEL_REDIS_PUSH_RING"

definition cssink_put :: "ngx_sentinel_redis_push \<Rightarrow> ngx_sentinel_ring \<Rightarrow> ngx_sentinel_ring" where
  "cssink_put = ring_put NGX_SENTINEL_CSSINK_RING"

definition cssink_take :: "ngx_sentinel_ring \<Rightarrow> (ngx_sentinel_redis_push \<times> ngx_sentinel_ring) option" where
  "cssink_take = ring_take NGX_SENTINEL_CSSINK_RING"

abbreviation push_entries :: "ngx_sentinel_ring \<Rightarrow> ngx_sentinel_redis_push list" where
  "push_entries \<equiv> ring_entries NGX_SENTINEL_REDIS_PUSH_RING"

abbreviation sink_entries :: "ngx_sentinel_ring \<Rightarrow> ngx_sentinel_redis_push list" where
  "sink_entries \<equiv> ring_entries NGX_SENTINEL_CSSINK_RING"

lemma ring_is_fifo:
  assumes cap: "ring_cap cap"
  shows "bounded_fifo cap (ring_inv cap) (ring_entries cap) ring_dropped (ring_put cap) (ring_take cap)"
proof
  fix r e r'
  assume inv: "ring_inv cap r"
  show "length (ring_entries cap r) \<le> cap" using inv by (simp add: ring_inv_def)
  show "ring_inv cap (ring_put cap e r)" by (rule put_refines(1) [OF cap inv])
  show "ring_entries cap (ring_put cap e r) =
      (if length (ring_entries cap r) < cap then ring_entries cap r @ [e] else ring_entries cap r)"
    using put_refines(2) [OF cap inv] by simp
  show "ring_dropped (ring_put cap e r) =
      (if length (ring_entries cap r) < cap then ring_dropped r else ring_dropped r + 1)"
    using put_refines(3) [OF cap inv] by simp
  show "ring_inv cap r' \<and> ring_entries cap r = e # ring_entries cap r'" if "ring_take cap r = Some (e, r')"
    using take_refines(1,2) [OF inv that] by blast
next
  show "ring_take cap r = None \<longleftrightarrow> ring_entries cap r = []" for r by (rule take_None)
qed

interpretation push_ring: bounded_fifo NGX_SENTINEL_REDIS_PUSH_RING
    "ring_inv NGX_SENTINEL_REDIS_PUSH_RING" push_entries ring_dropped redis_put redis_take
  unfolding redis_put_def redis_take_def by (rule ring_is_fifo [OF ring_caps(1)])

interpretation sink_ring: bounded_fifo NGX_SENTINEL_CSSINK_RING
    "ring_inv NGX_SENTINEL_CSSINK_RING" sink_entries ring_dropped cssink_put cssink_take
  unfolding cssink_put_def cssink_take_def by (rule ring_is_fifo [OF ring_caps(2)])

subsection \<open>Properties\<close>

text \<open>
  Claim C29: the push ring is a bounded queue. After any burst of bans the ring holds what was
  pending and then the first bans of the burst up to 4096 in all, in order; every further ban is
  dropped and counted, and the counters may have wrapped any number of times.
\<close>

theorem push_ring_is_a_bounded_queue:
  assumes "ring_inv NGX_SENTINEL_REDIS_PUSH_RING r"
  shows "push_entries (fold redis_put es r) =
      push_entries r @ take (NGX_SENTINEL_REDIS_PUSH_RING - length (push_entries r)) es \<and>
    ring_dropped (fold redis_put es r) =
      ring_dropped r + of_nat (length es - (NGX_SENTINEL_REDIS_PUSH_RING - length (push_entries r)))"
  using push_ring.put_all [OF assms] by blast

theorem push_ring_is_a_bounded_queue_witness:
  "push_entries (fold redis_put [\<lparr>push_ip = ''192.0.2.1'', push_action = CS_BAN, push_expiry = 9\<rparr>]
      (ring_zero NGX_SENTINEL_REDIS_PUSH_RING)) =
    [\<lparr>push_ip = ''192.0.2.1'', push_action = CS_BAN, push_expiry = 9\<rparr>]"
  using push_ring_is_a_bounded_queue [OF ring_zero_inv(1),
      of "[\<lparr>push_ip = ''192.0.2.1'', push_action = CS_BAN, push_expiry = 9\<rparr>]"]
  by (simp add: NGX_SENTINEL_REDIS_PUSH_RING_def)

end
