(* ===== verification/Sentinel_Nginx.thy ===== *)
theory Sentinel_Nginx
  imports Sentinel_Types
begin

text \<open>
  What the module relies on of the functions it does not define, as predicates on
  \<^typ>\<open>ngx_api\<close>, and a concrete implementation \<open>ngx_shim\<close> that satisfies them. The shim is what a
  unit test would link against: a decimal \<open>ngx_atoi\<close>, byte-wise comparison, a slab that
  hands out the next unused address, a tree that is not rebalanced. It shows the laws to be
  consistent and instantiates the parameter in the witnesses.
\<close>

subsection \<open>Laws\<close>

text \<open>\<open>ngx_memn2cmp\<close> is a three-way comparison of byte strings: a total order, zero exactly on
  equal strings.\<close>

definition memn2cmp_laws :: "ngx_api \<Rightarrow> bool" where
  "memn2cmp_laws ngx \<longleftrightarrow>
     (\<forall>a b. memn2cmp ngx a b = 0 \<longleftrightarrow> a = b) \<and>
     (\<forall>a b. memn2cmp ngx a b < 0 \<longleftrightarrow> 0 < memn2cmp ngx b a) \<and>
     (\<forall>a b c. memn2cmp ngx a b < 0 \<longrightarrow> memn2cmp ngx b c < 0 \<longrightarrow> memn2cmp ngx a c < 0)"

text \<open>Rebalancing keeps the nodes in order; deleting a node removes it and keeps the rest.\<close>

definition rbtree_laws :: "ngx_api \<Rightarrow> bool" where
  "rbtree_laws ngx \<longleftrightarrow>
     (\<forall>t. inorder (rb_fixup ngx t) = inorder t) \<and>
     (\<forall>t a. inorder (rb_delete ngx t a) = remove1 a (inorder t))"

text \<open>The slab allocator returns memory that is not in use.\<close>

definition slab_laws :: "ngx_api \<Rightarrow> bool" where
  "slab_laws ngx \<longleftrightarrow> (\<forall>s n a. slab_calloc ngx s n = Some a \<longrightarrow> sh_mem s a = None)"

text \<open>\<open>ngx_tolower\<close> is idempotent and only the zero byte becomes the zero byte.
  \<open>ngx_strncasecmp\<close> compares the two lowercased prefixes up to a terminator, with the sign of
  \<open>ngx_memn2cmp\<close>.\<close>

definition case_fold :: "ngx_api \<Rightarrow> nat \<Rightarrow> string \<Rightarrow> string" where
  "case_fold ngx n s = map (ngx_tolower ngx) (takeWhile (\<lambda>c. c \<noteq> NUL) (take n s))"

definition case_laws :: "ngx_api \<Rightarrow> bool" where
  "case_laws ngx \<longleftrightarrow>
     (\<forall>c. ngx_tolower ngx (ngx_tolower ngx c) = ngx_tolower ngx c) \<and>
     (\<forall>c. ngx_tolower ngx c = NUL \<longleftrightarrow> c = NUL) \<and>
     (\<forall>a b n. sgn (strncasecmp ngx a b n) = sgn (memn2cmp ngx (case_fold ngx n a) (case_fold ngx n b)))"

text \<open>\<open>ngx_memn2cmp\<close> is decided by the common prefix first: a difference there is kept whatever
  follows, and a proper prefix is smaller.\<close>

definition memn2cmp_lex :: "ngx_api \<Rightarrow> bool" where
  "memn2cmp_lex ngx \<longleftrightarrow>
     (\<forall>a b s t. length a = length b \<longrightarrow> memn2cmp ngx a b \<noteq> 0 \<longrightarrow>
        sgn (memn2cmp ngx (a @ s) (b @ t)) = sgn (memn2cmp ngx a b)) \<and>
     (\<forall>a c s. memn2cmp ngx a (a @ c # s) < 0)"

text \<open>\<open>qsort\<close> sorts: for a comparison that is a total preorder on the elements of the input its
  result is ordered and has every element as often as the input.\<close>

definition total_preorder :: "string set \<Rightarrow> (string \<Rightarrow> string \<Rightarrow> int) \<Rightarrow> bool" where
  "total_preorder A cmp \<longleftrightarrow>
     (\<forall>a \<in> A. \<forall>b \<in> A. cmp a b \<le> 0 \<or> cmp b a \<le> 0) \<and>
     (\<forall>a \<in> A. \<forall>b \<in> A. \<forall>c \<in> A. cmp a b \<le> 0 \<longrightarrow> cmp b c \<le> 0 \<longrightarrow> cmp a c \<le> 0)"

definition qsort_law :: "ngx_api \<Rightarrow> bool" where
  "qsort_law ngx \<longleftrightarrow>
     (\<forall>cmp xs. total_preorder (set xs) cmp \<longrightarrow>
        count_list (qsort ngx cmp xs) = count_list xs \<and>
        sorted_wrt (\<lambda>a b. cmp a b \<le> 0) (qsort ngx cmp xs))"

text \<open>A SHA-256 digest has 32 bytes, and so has an HMAC.\<close>

definition digest_laws :: "ngx_api \<Rightarrow> bool" where
  "digest_laws ngx \<longleftrightarrow> (\<forall>s. length (sha256 ngx s) = 32) \<and>
     (\<forall>k s m. hmac_sha256 ngx k s = Some m \<longrightarrow> length m = 32)"

text \<open>A printed non-negative number is read back by \<open>ngx_atotm\<close> while it fits in 63 bits, and
  consists of digits.\<close>

definition decimal_laws :: "ngx_api \<Rightarrow> bool" where
  "decimal_laws ngx \<longleftrightarrow>
     (\<forall>n. 0 \<le> n \<longrightarrow> n < 2 ^ 63 \<longrightarrow> atotm ngx (sprint_int ngx n) = Some n) \<and>
     (\<forall>n. 0 \<le> n \<longrightarrow> set (sprint_int ngx n) \<subseteq> set ''0123456789'')"

definition zone_laws :: "ngx_api \<Rightarrow> bool" where
  "zone_laws ngx \<longleftrightarrow> memn2cmp_laws ngx \<and> rbtree_laws ngx \<and> slab_laws ngx"

subsection \<open>A concrete implementation\<close>

definition byte_of :: "char \<Rightarrow> int" where
  "byte_of c = int (of_char c)"

fun shim_memn2cmp :: "string \<Rightarrow> string \<Rightarrow> int" where
  "shim_memn2cmp [] [] = 0"
| "shim_memn2cmp [] (y # b) = -1"
| "shim_memn2cmp (x # a) [] = 1"
| "shim_memn2cmp (x # a) (y # b) = (if x = y then shim_memn2cmp a b else byte_of x - byte_of y)"

definition shim_tolower :: "char \<Rightarrow> char" where
  "shim_tolower c = (let n = of_char c :: nat in if 65 \<le> n \<and> n \<le> 90 then char_of (n + 32) else c)"

definition shim_strncasecmp :: "string \<Rightarrow> string \<Rightarrow> nat \<Rightarrow> int" where
  "shim_strncasecmp a b n =
     (let low = (\<lambda>s. map shim_tolower (takeWhile (\<lambda>c. c \<noteq> NUL) (take n s)))
      in shim_memn2cmp (low a) (low b))"

fun shim_digits :: "string \<Rightarrow> int \<Rightarrow> int option" where
  "shim_digits [] v = Some v"
| "shim_digits (c # s) v =
     (let n = byte_of c - 48
      in if n < 0 \<or> n > 9 \<or> 10 * v + n \<ge> 2 ^ 63 then None else shim_digits s (10 * v + n))"

definition shim_atoi :: "string \<Rightarrow> int option" where
  "shim_atoi s = (if s = [] then None else shim_digits s 0)"

fun shim_spine :: "'a list \<Rightarrow> 'a tree" where
  "shim_spine [] = Leaf"
| "shim_spine (x # xs) = Node Leaf x (shim_spine xs)"

definition shim_slab_calloc :: "ngx_sentinel_shctx \<Rightarrow> 64 word \<Rightarrow> slab_addr option" where
  "shim_slab_calloc s n =
     (let a = Suc (fold max (sh_queue s) 0) in if sh_mem s a = None then Some a else None)"

definition shim_hash :: "string \<Rightarrow> 32 word" where
  "shim_hash s = fold (\<lambda>c h. 31 * h + word_of_int (byte_of c)) s 7"

fun shim_insert :: "(string \<Rightarrow> string \<Rightarrow> int) \<Rightarrow> string \<Rightarrow> string list \<Rightarrow> string list" where
  "shim_insert cmp x [] = [x]"
| "shim_insert cmp x (y # ys) = (if cmp x y \<le> 0 then x # y # ys else y # shim_insert cmp x ys)"

definition shim_digit :: "nat \<Rightarrow> char" where
  "shim_digit n = ''0123456789'' ! n"

fun shim_decimal :: "nat \<Rightarrow> string" where
  "shim_decimal n = (if n < 10 then [shim_digit n] else shim_decimal (n div 10) @ [shim_digit (n mod 10)])"

declare shim_decimal.simps [simp del]

definition shim_cookie :: "string list \<Rightarrow> string \<Rightarrow> string option" where
  "shim_cookie cs name =
     map_option (drop (Suc (length name))) (find (prefix (name @ ''='')) cs)"

definition ngx_shim :: ngx_api where
  "ngx_shim =
     \<lparr>sha256 = (\<lambda>s. take 32 (s @ replicate 32 NUL)),
      crc32_short = shim_hash,
      crc32_long = shim_hash,
      memn2cmp = shim_memn2cmp,
      strncasecmp = shim_strncasecmp,
      atoi = shim_atoi,
      rb_fixup = (\<lambda>t. t),
      rb_delete = (\<lambda>t a. shim_spine (remove1 a (inorder t))),
      slab_calloc = shim_slab_calloc,
      node_data_offset = 128,
      node_sizeof = 128,
      redis_shctx_sizeof = 589888,
      cssink_shctx_sizeof = 589888,
      inet_addr = (\<lambda>s. None),
      inet6_addr = (\<lambda>s. None),
      inet_ntop = (\<lambda>a. []),
      inet6_ntop = (\<lambda>a. a),
      cidr_match = (\<lambda>sa cs. \<exists>c \<in> set cs. case (sa, c) of
         (AF_INET a, CIDR4 b m) \<Rightarrow> and a m = b | _ \<Rightarrow> False),
      radix32_find = (\<lambda>t a. \<exists>(b, m) \<in> set t. and a m = b),
      radix128_find = (\<lambda>t a. \<exists>(b, m) \<in> set t. a = b),
      parse_size = shim_atoi,
      ptocidr = (\<lambda>s. None),
      pagesize = 4096,
      shared_memory_add = (\<lambda>nm n. True),
      complex_value = (\<lambda>r s. Some s),
      ngx_tolower = shim_tolower,
      qsort = (\<lambda>cmp xs. foldr (shim_insert cmp) xs []),
      atotm = shim_atoi,
      sprint_int = (\<lambda>n. shim_decimal (nat n)),
      hmac_sha256 = (\<lambda>k s. Some (take 32 (k @ s @ replicate 32 NUL))),
      parse_cookie_lines = shim_cookie,
      http_arg = (\<lambda>args name. shim_cookie [args] name)\<rparr>"

lemma inorder_shim_spine [simp]: "inorder (shim_spine xs) = xs"
  by (induction xs) auto

lemma byte_of_eq [simp]: "byte_of x = byte_of y \<longleftrightarrow> x = y"
  by (simp add: byte_of_def)

lemma shim_memn2cmp_0: "shim_memn2cmp a b = 0 \<longleftrightarrow> a = b"
  by (induction a b rule: shim_memn2cmp.induct) auto

lemma shim_memn2cmp_swap: "shim_memn2cmp a b = - shim_memn2cmp b a"
  by (induction a b rule: shim_memn2cmp.induct) auto

lemma shim_memn2cmp_neg: "shim_memn2cmp a b < 0 \<longleftrightarrow> 0 < shim_memn2cmp b a"
  using shim_memn2cmp_swap [of a b] by linarith

lemma shim_memn2cmp_trans:
  "shim_memn2cmp a b < 0 \<Longrightarrow> shim_memn2cmp b c < 0 \<Longrightarrow> shim_memn2cmp a c < 0"
proof (induction a b arbitrary: c rule: shim_memn2cmp.induct)
  case (2 y b)
  then show ?case by (cases c) auto
next
  case (4 x a y b)
  then show ?case by (cases c) (auto split: if_splits)
qed auto

lemma ngx_shim_laws: "zone_laws ngx_shim"
proof -
  have "memn2cmp_laws ngx_shim"
    unfolding memn2cmp_laws_def
  proof (intro conjI allI impI)
    fix a b c
    show "(memn2cmp ngx_shim a b = 0) = (a = b)" by (simp add: ngx_shim_def shim_memn2cmp_0)
    show "(memn2cmp ngx_shim a b < 0) = (0 < memn2cmp ngx_shim b a)"
      by (simp add: ngx_shim_def shim_memn2cmp_neg [of a b])
    show "memn2cmp ngx_shim a b < 0 \<Longrightarrow> memn2cmp ngx_shim b c < 0 \<Longrightarrow> memn2cmp ngx_shim a c < 0"
      using shim_memn2cmp_trans [of a b c] by (simp add: ngx_shim_def)
  qed
  moreover have "rbtree_laws ngx_shim" by (simp add: rbtree_laws_def ngx_shim_def)
  moreover have "slab_laws ngx_shim"
    by (auto simp: slab_laws_def ngx_shim_def shim_slab_calloc_def Let_def split: if_splits)
  ultimately show ?thesis by (simp add: zone_laws_def)
qed

subsection \<open>The shim satisfies the remaining laws\<close>

lemma shim_tolower_idem [simp]: "shim_tolower (shim_tolower c) = shim_tolower c"
  by (simp add: shim_tolower_def Let_def)

lemma shim_tolower_NUL: "shim_tolower c = NUL \<longleftrightarrow> c = NUL"
proof -
  have n: "of_char NUL = (0::nat)" by (simp add: NUL_def)
  have "shim_tolower c = NUL \<longleftrightarrow> of_char (shim_tolower c) = (0::nat)"
    by (metis char_of_char n)
  also have "\<dots> \<longleftrightarrow> of_char c = (0::nat)"
    by (simp add: shim_tolower_def Let_def)
  also have "\<dots> \<longleftrightarrow> c = NUL"
    by (metis char_of_char n)
  finally show ?thesis .
qed

lemma ngx_shim_case: "case_laws ngx_shim"
  by (simp add: case_laws_def ngx_shim_def shim_tolower_NUL shim_strncasecmp_def case_fold_def Let_def)

lemma shim_memn2cmp_append:
  "length a = length b \<Longrightarrow> shim_memn2cmp a b \<noteq> 0 \<Longrightarrow>
     shim_memn2cmp (a @ s) (b @ t) = shim_memn2cmp a b"
  by (induction a b rule: list_induct2) auto

lemma shim_memn2cmp_prefix: "shim_memn2cmp a (a @ c # s) < 0"
  by (induction a) auto

lemma ngx_shim_lex: "memn2cmp_lex ngx_shim"
  by (simp add: memn2cmp_lex_def ngx_shim_def shim_memn2cmp_append shim_memn2cmp_prefix)

lemma count_shim_insert: "count_list (shim_insert cmp x ys) = count_list (x # ys)"
  by (induction ys) (auto simp: fun_eq_iff)

lemma set_shim_insert: "set (shim_insert cmp x ys) = insert x (set ys)"
  by (induction ys) auto

lemma total_preorder_trans:
  "total_preorder A cmp \<Longrightarrow> a \<in> A \<Longrightarrow> b \<in> A \<Longrightarrow> c \<in> A \<Longrightarrow> cmp a b \<le> 0 \<Longrightarrow> cmp b c \<le> 0 \<Longrightarrow> cmp a c \<le> 0"
  unfolding total_preorder_def by blast

lemma total_preorder_total: "total_preorder A cmp \<Longrightarrow> a \<in> A \<Longrightarrow> b \<in> A \<Longrightarrow> cmp a b \<le> 0 \<or> cmp b a \<le> 0"
  unfolding total_preorder_def by blast

lemma total_preorder_subset: "total_preorder A cmp \<Longrightarrow> B \<subseteq> A \<Longrightarrow> total_preorder B cmp"
  unfolding total_preorder_def by blast

lemma sorted_shim_insert:
  assumes "total_preorder (insert x (set ys)) cmp" "sorted_wrt (\<lambda>a b. cmp a b \<le> 0) ys"
  shows "sorted_wrt (\<lambda>a b. cmp a b \<le> 0) (shim_insert cmp x ys)"
  using assms
proof (induction ys)
  case (Cons y ys)
  have sub: "total_preorder (insert x (set ys)) cmp"
    by (rule total_preorder_subset [OF Cons(2)]) auto
  have tr: "cmp x z \<le> 0" if "cmp x y \<le> 0" "z \<in> set ys" for z
  proof -
    have "cmp y z \<le> 0" using Cons(3) that(2) by simp
    then show ?thesis using that by (intro total_preorder_trans [OF Cons(2), of x y z]) auto
  qed
  have tot: "cmp x y \<le> 0 \<or> cmp y x \<le> 0" by (rule total_preorder_total [OF Cons(2)]) auto
  show ?case using Cons(1) [OF sub] Cons(3) tot tr by (auto simp: set_shim_insert)
qed simp

lemma set_foldr_shim_insert: "set (foldr (shim_insert cmp) xs []) = set xs"
  by (induction xs) (auto simp: set_shim_insert)

lemma foldr_shim_insert_sorts:
  "total_preorder (set xs) cmp \<Longrightarrow>
     count_list (foldr (shim_insert cmp) xs []) = count_list xs \<and>
     sorted_wrt (\<lambda>a b. cmp a b \<le> 0) (foldr (shim_insert cmp) xs [])"
proof (induction xs)
  case (Cons x xs)
  have "total_preorder (set xs) cmp" by (rule total_preorder_subset [OF Cons(2)]) auto
  note IH = Cons(1) [OF this]
  have "total_preorder (insert x (set (foldr (shim_insert cmp) xs []))) cmp"
    using Cons(2) by (simp only: set_foldr_shim_insert list.set)
  then show ?case
    using IH sorted_shim_insert by (simp add: count_shim_insert fun_eq_iff)
qed simp

lemma ngx_shim_qsort: "qsort_law ngx_shim"
  unfolding qsort_law_def using foldr_shim_insert_sorts by (simp add: ngx_shim_def)

lemma ngx_shim_digest: "digest_laws ngx_shim"
  by (auto simp: digest_laws_def ngx_shim_def)

lemma byte_of_shim_digit: "n < 10 \<Longrightarrow> byte_of (shim_digit n) = 48 + int n"
proof -
  assume "n < 10"
  then have "n \<in> {0, 1, 2, 3, 4, 5, 6, 7, 8, 9}" by auto
  then show ?thesis by (elim insertE) (auto simp: shim_digit_def byte_of_def)
qed

lemma shim_digits_snoc:
  assumes "d < 10" "0 \<le> v"
  shows "shim_digits s v = Some w \<Longrightarrow> 0 \<le> w \<Longrightarrow> 10 * w + int d < 2 ^ 63 \<Longrightarrow>
     shim_digits (s @ [shim_digit d]) v = Some (10 * w + int d)"
proof (induction s arbitrary: v)
  case Nil
  then show ?case using assms by (simp add: byte_of_shim_digit Let_def)
next
  case (Cons c s)
  then show ?case by (auto simp: Let_def split: if_splits)
qed

lemma shim_digits_decimal: "int n < 2 ^ 63 \<Longrightarrow> shim_digits (shim_decimal n) 0 = Some (int n)"
proof (induction n rule: shim_decimal.induct)
  case (1 n)
  show ?case
  proof (cases "n < 10")
    case True
    then show ?thesis by (simp add: shim_decimal.simps [of n] byte_of_shim_digit Let_def)
  next
    case False
    have "10 * int (n div 10) + int (n mod 10) = int n"
      by (metis mult_div_mod_eq of_nat_add of_nat_mult of_nat_numeral)
    then show ?thesis
      using False 1 shim_digits_snoc [of "n mod 10" 0 "shim_decimal (n div 10)" "int (n div 10)"]
      by (simp add: shim_decimal.simps [of n])
  qed
qed

lemma shim_decimal_ne [simp]: "shim_decimal n \<noteq> []"
  by (simp add: shim_decimal.simps [of n])

lemma shim_digit_in: "n < 10 \<Longrightarrow> shim_digit n \<in> set ''0123456789''"
  unfolding shim_digit_def by (rule nth_mem) simp

lemma shim_decimal_digits: "set (shim_decimal n) \<subseteq> set ''0123456789''"
proof (induction n rule: shim_decimal.induct)
  case (1 n)
  show ?case
  proof (cases "n < 10")
    case True
    then show ?thesis
      using shim_digit_in [of n] unfolding shim_decimal.simps [of n] by auto
  next
    case False
    then show ?thesis
      using 1 shim_digit_in [of "n mod 10"] unfolding shim_decimal.simps [of n] by auto
  qed
qed

lemma ngx_shim_decimal: "decimal_laws ngx_shim"
proof -
  have "shim_atoi (shim_decimal (nat n)) = Some n" if "0 \<le> n" "n < 2 ^ 63" for n
    using that shim_digits_decimal [of "nat n"] by (simp add: shim_atoi_def)
  then show ?thesis using shim_decimal_digits by (simp add: decimal_laws_def ngx_shim_def)
qed

end
