(* ===== verification/Sentinel_Conf.thy ===== *)
theory Sentinel_Conf
  imports Sentinel_Nginx
begin

text \<open>
  Configuration (\<^verbatim>\<open>src/ngx_http_sentinel_module.c\<close>): the unset location configuration, the merge
  of a child with its parent (defaults, inheritance, range validation, zone binding) and the
  directive handlers. A handler returns the updated configuration or an error
  (\<open>NGX_CONF_ERROR\<close>, or the text \<open>is duplicate\<close>). Running out of memory while the configuration
  is read is not modelled. The lemmas show what a configuration that the merge accepted satisfies.
\<close>

datatype conf_error = CONF_ERROR | CONF_DUPLICATE

definition conf_then :: "conf_error + 'a \<Rightarrow> ('a \<Rightarrow> conf_error + 'b) \<Rightarrow> conf_error + 'b" where
  "conf_then x f = (case x of Inl e \<Rightarrow> Inl e | Inr a \<Rightarrow> f a)"

lemma conf_then_Inr [simp]: "conf_then x f = Inr b \<longleftrightarrow> (\<exists>a. x = Inr a \<and> f a = Inr b)"
  by (cases x) (auto simp: conf_then_def)

text \<open>A value that must lie in a range, else the directive or the merge fails.\<close>

definition conf_check :: "bool \<Rightarrow> 'a \<Rightarrow> conf_error + 'a" where
  "conf_check ok a = (if ok then Inr a else Inl CONF_ERROR)"

lemma conf_check_Inr [simp]: "conf_check ok a = Inr b \<longleftrightarrow> ok \<and> b = a"
  by (auto simp: conf_check_def)

subsection \<open>Creation\<close>

definition ngx_sentinel_create_main_conf :: ngx_sentinel_main_conf where
  "ngx_sentinel_create_main_conf =
     \<lparr>mcf_zones = [], mcf_cs_zones = [], mcf_vel_zones = [], mcf_fcrdns_zones = [],
      mcf_tarpit_conns = None, mcf_metrics = None\<rparr>"

text \<open>\<open>NGX_CONF_UNSET_SIZE\<close> is \<open>(size_t) -1\<close>.\<close>

definition NGX_CONF_UNSET_SIZE :: int where
  "NGX_CONF_UNSET_SIZE = 2 ^ 64 - 1"

definition unset_weights :: ngx_sentinel_weights where
  "unset_weights =
     \<lparr>w_errrate = NGX_CONF_UNSET, w_blocked = NGX_CONF_UNSET, w_scanner = NGX_CONF_UNSET,
      w_bot = NGX_CONF_UNSET, w_header = NGX_CONF_UNSET, w_honeypot = NGX_CONF_UNSET,
      w_velocity = NGX_CONF_UNSET, w_asn = NGX_CONF_UNSET, w_coherence = NGX_CONF_UNSET,
      w_ja3 = NGX_CONF_UNSET, w_ja4 = NGX_CONF_UNSET, w_ja4t = NGX_CONF_UNSET,
      w_c2ip = NGX_CONF_UNSET, w_crowdsec = NGX_CONF_UNSET\<rparr>"

definition ngx_sentinel_create_loc_conf :: ngx_sentinel_loc_conf where
  "ngx_sentinel_create_loc_conf =
     \<lparr>lcf_enabled = NGX_CONF_UNSET, lcf_shadow = NGX_CONF_UNSET, lcf_fail_open = NGX_CONF_UNSET,
      lcf_zone = None, lcf_vel_zone = ZUnset, lcf_vel_zone_name = [],
      lcf_threshold = \<lparr>thr_challenge = NGX_CONF_UNSET, thr_tarpit = NGX_CONF_UNSET,
                       thr_block = NGX_CONF_UNSET\<rparr>,
      lcf_weights = unset_weights,
      lcf_decoy_paths = [], lcf_allow_cidrs = [], lcf_asn_source = None, lcf_asn_list = [],
      lcf_ja3_source = None, lcf_ja3_list = [], lcf_ja4_source = None, lcf_ja4_list = [],
      lcf_ja4t_source = None, lcf_ja4t_list = [], lcf_c2ip_tree = None, lcf_c2ip_tree6 = None,
      lcf_cs_zone = ZUnset, lcf_cs_feed = [], lcf_cs_interval = NGX_CONF_UNSET,
      lcf_cs_default_ttl = NGX_CONF_UNSET, lcf_cs_stale_after = NGX_CONF_UNSET,
      lcf_cs_max_bytes = NGX_CONF_UNSET_SIZE,
      lcf_fcrdns_zone = ZUnset, lcf_fcrdns_zone_name = [], lcf_fcrdns_ttl = NGX_CONF_UNSET,
      lcf_fcrdns_suffixes = [],
      lcf_redis_host = [], lcf_redis_port = NGX_CONF_UNSET, lcf_redis_password = None,
      lcf_redis_prefix = None, lcf_redis_interval = NGX_CONF_UNSET,
      lcf_redis_ttl = NGX_CONF_UNSET, lcf_redis_push_zone = None,
      lcf_cs_sink_path = [], lcf_cs_sink_interval = NGX_CONF_UNSET,
      lcf_cs_sink_ttl = NGX_CONF_UNSET, lcf_cs_sink_scenario = None, lcf_cs_sink_zone = None,
      lcf_tarpit_max_conns = NGX_CONF_UNSET, lcf_tarpit_delay = NGX_CONF_UNSET,
      lcf_tarpit_bytes = NGX_CONF_UNSET, lcf_tarpit_max_lifetime = NGX_CONF_UNSET,
      lcf_tarpit_maze = NGX_CONF_UNSET, lcf_block_status = NGX_CONF_UNSET,
      lcf_block_ttl = NGX_CONF_UNSET, lcf_throttle_rate = NGX_CONF_UNSET_SIZE,
      lcf_shield = NGX_CONF_UNSET, lcf_pow_enabled = NGX_CONF_UNSET, lcf_pow_secret = None,
      lcf_pow_difficulty = NGX_CONF_UNSET, lcf_pow_ttl = NGX_CONF_UNSET\<rparr>"

subsection \<open>Merging values\<close>

text \<open>nginx's merge macros.\<close>

definition merge_value :: "int \<Rightarrow> int \<Rightarrow> int \<Rightarrow> int" where
  "merge_value conf prev dflt =
     (if conf = NGX_CONF_UNSET then (if prev = NGX_CONF_UNSET then dflt else prev) else conf)"

definition merge_size_value :: "int \<Rightarrow> int \<Rightarrow> int \<Rightarrow> int" where
  "merge_size_value conf prev dflt =
     (if conf = NGX_CONF_UNSET_SIZE then (if prev = NGX_CONF_UNSET_SIZE then dflt else prev)
      else conf)"

definition merge_ptr_value :: "zone_ptr \<Rightarrow> zone_ptr \<Rightarrow> zone_ptr" where
  "merge_ptr_value conf prev =
     (if conf = ZUnset then (if prev = ZUnset then ZNull else prev) else conf)"

definition merge_str_value :: "string option \<Rightarrow> string option \<Rightarrow> string \<Rightarrow> string option" where
  "merge_str_value conf prev dflt =
     (case conf of None \<Rightarrow> (case prev of None \<Rightarrow> Some dflt | Some p \<Rightarrow> Some p) | Some c \<Rightarrow> Some c)"

text \<open>A list set locally wins; an empty one is inherited.\<close>

definition merge_list :: "'a list \<Rightarrow> 'a list \<Rightarrow> 'a list" where
  "merge_list conf prev = (if length conf = 0 \<and> length prev > 0 then prev else conf)"

definition merge_null :: "'a option \<Rightarrow> 'a option \<Rightarrow> 'a option" where
  "merge_null conf prev = (if conf = None then prev else conf)"

text \<open>The index of the first zone with this name.\<close>

fun find_zone :: "ngx_sentinel_zone list \<Rightarrow> string \<Rightarrow> nat option" where
  "find_zone [] nm = None"
| "find_zone (z # zs) nm =
     (if length (zone_name z) = length nm \<and> strncmp_eq (length nm) (zone_name z) nm then Some 0
      else map_option Suc (find_zone zs nm))"

lemma find_zone_bound: "find_zone zs nm = Some i \<Longrightarrow> i < length zs"
proof (induction zs arbitrary: i)
  case (Cons z zs)
  then show ?case by (cases i) (auto split: if_splits)
qed simp

subsection \<open>Merging locations\<close>

definition merge_weights :: "ngx_sentinel_weights \<Rightarrow> ngx_sentinel_weights \<Rightarrow> ngx_sentinel_weights" where
  "merge_weights c p =
     \<lparr>w_errrate = merge_value (w_errrate c) (w_errrate p) 1,
      w_blocked = merge_value (w_blocked c) (w_blocked p) 100,
      w_scanner = merge_value (w_scanner c) (w_scanner p) 50,
      w_bot = merge_value (w_bot c) (w_bot p) 30,
      w_header = merge_value (w_header c) (w_header p) 25,
      w_honeypot = merge_value (w_honeypot c) (w_honeypot p) 90,
      w_velocity = merge_value (w_velocity c) (w_velocity p) 30,
      w_asn = merge_value (w_asn c) (w_asn p) 35,
      w_coherence = merge_value (w_coherence c) (w_coherence p) 40,
      w_ja3 = merge_value (w_ja3 c) (w_ja3 p) 80,
      w_ja4 = merge_value (w_ja4 c) (w_ja4 p) 50,
      w_ja4t = merge_value (w_ja4t c) (w_ja4t p) 45,
      w_c2ip = merge_value (w_c2ip c) (w_c2ip p) 80,
      w_crowdsec = merge_value (w_crowdsec c) (w_crowdsec p) 100\<rparr>"

definition merge_threshold ::
  "ngx_sentinel_threshold \<Rightarrow> ngx_sentinel_threshold \<Rightarrow> ngx_sentinel_threshold" where
  "merge_threshold c p =
     \<lparr>thr_challenge = merge_value (thr_challenge c) (thr_challenge p) 30,
      thr_tarpit = merge_value (thr_tarpit c) (thr_tarpit p) 60,
      thr_block = merge_value (thr_block c) (thr_block p) 80\<rparr>"

definition merge_core :: "ngx_sentinel_loc_conf \<Rightarrow> ngx_sentinel_loc_conf \<Rightarrow> ngx_sentinel_loc_conf" where
  "merge_core prev conf =
     conf\<lparr>lcf_enabled := merge_value (lcf_enabled conf) (lcf_enabled prev) 0,
          lcf_shadow := merge_value (lcf_shadow conf) (lcf_shadow prev) 1,
          lcf_fail_open := merge_value (lcf_fail_open conf) (lcf_fail_open prev) 1,
          lcf_threshold := merge_threshold (lcf_threshold conf) (lcf_threshold prev),
          lcf_weights := merge_weights (lcf_weights conf) (lcf_weights prev)\<rparr>"

text \<open>A name, when there is one, must resolve on its own merit.\<close>

definition resolve_zone :: "ngx_sentinel_zone list \<Rightarrow> string \<Rightarrow> zone_ptr \<Rightarrow> conf_error + zone_ptr" where
  "resolve_zone zs nm z =
     (if length nm > 0 then
        (case find_zone zs nm of None \<Rightarrow> Inl CONF_ERROR | Some i \<Rightarrow> Inr (ZAt i))
      else Inr z)"

definition merge_fcrdns ::
  "ngx_sentinel_main_conf \<Rightarrow> ngx_sentinel_loc_conf \<Rightarrow> ngx_sentinel_loc_conf \<Rightarrow>
   conf_error + ngx_sentinel_loc_conf" where
  "merge_fcrdns mcf prev conf =
     (let nm = (if length (lcf_fcrdns_zone_name conf) = 0 \<and> length (lcf_fcrdns_zone_name prev) > 0
                then lcf_fcrdns_zone_name prev else lcf_fcrdns_zone_name conf);
          c = conf\<lparr>lcf_fcrdns_ttl := merge_value (lcf_fcrdns_ttl conf) (lcf_fcrdns_ttl prev) 3600,
                   lcf_fcrdns_suffixes := merge_list (lcf_fcrdns_suffixes conf) (lcf_fcrdns_suffixes prev),
                   lcf_fcrdns_zone_name := nm\<rparr>
      in conf_then (resolve_zone (mcf_fcrdns_zones mcf) nm
                      (merge_ptr_value (lcf_fcrdns_zone conf) (lcf_fcrdns_zone prev)))
           (\<lambda>z. Inr (c\<lparr>lcf_fcrdns_zone := z\<rparr>)))"

definition merge_velocity ::
  "ngx_sentinel_main_conf \<Rightarrow> ngx_sentinel_loc_conf \<Rightarrow> ngx_sentinel_loc_conf \<Rightarrow>
   conf_error + ngx_sentinel_loc_conf" where
  "merge_velocity mcf prev conf =
     (let nm = (if length (lcf_vel_zone_name conf) = 0 \<and> length (lcf_vel_zone_name prev) > 0
                then lcf_vel_zone_name prev else lcf_vel_zone_name conf);
          c = conf\<lparr>lcf_vel_zone_name := nm\<rparr>
      in conf_then (resolve_zone (mcf_vel_zones mcf) nm
                      (merge_ptr_value (lcf_vel_zone conf) (lcf_vel_zone prev)))
           (\<lambda>z. Inr (c\<lparr>lcf_vel_zone := z\<rparr>)))"

definition merge_lists :: "ngx_sentinel_loc_conf \<Rightarrow> ngx_sentinel_loc_conf \<Rightarrow> ngx_sentinel_loc_conf" where
  "merge_lists prev conf =
     conf\<lparr>lcf_decoy_paths := merge_list (lcf_decoy_paths conf) (lcf_decoy_paths prev),
          lcf_allow_cidrs := merge_list (lcf_allow_cidrs conf) (lcf_allow_cidrs prev),
          lcf_asn_source := merge_null (lcf_asn_source conf) (lcf_asn_source prev),
          lcf_asn_list := merge_list (lcf_asn_list conf) (lcf_asn_list prev),
          lcf_c2ip_tree := merge_null (lcf_c2ip_tree conf) (lcf_c2ip_tree prev),
          lcf_c2ip_tree6 := merge_null (lcf_c2ip_tree6 conf) (lcf_c2ip_tree6 prev),
          lcf_ja3_source := merge_null (lcf_ja3_source conf) (lcf_ja3_source prev),
          lcf_ja3_list := merge_list (lcf_ja3_list conf) (lcf_ja3_list prev),
          lcf_ja4_source := merge_null (lcf_ja4_source conf) (lcf_ja4_source prev),
          lcf_ja4_list := merge_list (lcf_ja4_list conf) (lcf_ja4_list prev),
          lcf_ja4t_source := merge_null (lcf_ja4t_source conf) (lcf_ja4t_source prev),
          lcf_ja4t_list := merge_list (lcf_ja4t_list conf) (lcf_ja4t_list prev)\<rparr>"

definition merge_crowdsec ::
  "int \<Rightarrow> ngx_sentinel_loc_conf \<Rightarrow> ngx_sentinel_loc_conf \<Rightarrow> conf_error + ngx_sentinel_loc_conf" where
  "merge_crowdsec ngx_pagesize prev conf =
     (let c = conf\<lparr>
            lcf_cs_feed := (if length (lcf_cs_feed conf) = 0 then lcf_cs_feed prev else lcf_cs_feed conf),
            lcf_cs_zone := merge_ptr_value (lcf_cs_zone conf) (lcf_cs_zone prev),
            lcf_cs_interval := merge_value (lcf_cs_interval conf) (lcf_cs_interval prev) 10,
            lcf_cs_default_ttl := merge_value (lcf_cs_default_ttl conf) (lcf_cs_default_ttl prev) 3600,
            lcf_cs_stale_after := merge_value (lcf_cs_stale_after conf) (lcf_cs_stale_after prev) 600,
            lcf_cs_max_bytes := merge_size_value (lcf_cs_max_bytes conf) (lcf_cs_max_bytes prev)
                                  (16 * 1024 * 1024)\<rparr>
      in conf_check
           (\<not> (w_crowdsec (lcf_weights c) < 0 \<or> w_crowdsec (lcf_weights c) > NGX_SENTINEL_SCORE_MAX)
            \<and> \<not> (lcf_cs_interval c < 1 \<or> lcf_cs_interval c > 3600)
            \<and> \<not> (lcf_cs_default_ttl c < 60 \<or> lcf_cs_default_ttl c > 86400)
            \<and> \<not> (lcf_cs_stale_after c < 30 \<or> lcf_cs_stale_after c > 86400)
            \<and> \<not> (lcf_cs_max_bytes c < ngx_pagesize \<or> lcf_cs_max_bytes c > 64 * 1024 * 1024)) c)"

definition merge_redis ::
  "ngx_sentinel_loc_conf \<Rightarrow> ngx_sentinel_loc_conf \<Rightarrow> conf_error + ngx_sentinel_loc_conf" where
  "merge_redis prev conf =
     (let unset = (length (lcf_redis_host conf) = 0);
          c = conf\<lparr>
            lcf_redis_host := (if unset then lcf_redis_host prev else lcf_redis_host conf),
            lcf_redis_push_zone :=
              (if unset then merge_null (lcf_redis_push_zone conf) (lcf_redis_push_zone prev)
               else lcf_redis_push_zone conf),
            lcf_redis_port := merge_value (lcf_redis_port conf) (lcf_redis_port prev) 6379,
            lcf_redis_password := merge_str_value (lcf_redis_password conf) (lcf_redis_password prev) [],
            lcf_redis_prefix := merge_str_value (lcf_redis_prefix conf) (lcf_redis_prefix prev) ''sentinel'',
            lcf_redis_interval := merge_value (lcf_redis_interval conf) (lcf_redis_interval prev) 10,
            lcf_redis_ttl := merge_value (lcf_redis_ttl conf) (lcf_redis_ttl prev) 3600\<rparr>
      in conf_check
           (length (lcf_redis_host c) > 0 \<longrightarrow>
              \<not> (lcf_redis_interval c < 1 \<or> lcf_redis_interval c > 3600)
              \<and> \<not> (lcf_redis_ttl c < 60 \<or> lcf_redis_ttl c > 86400)) c)"

definition merge_cs_sink ::
  "ngx_sentinel_loc_conf \<Rightarrow> ngx_sentinel_loc_conf \<Rightarrow> conf_error + ngx_sentinel_loc_conf" where
  "merge_cs_sink prev conf =
     (let unset = (length (lcf_cs_sink_path conf) = 0);
          c = conf\<lparr>
            lcf_cs_sink_path := (if unset then lcf_cs_sink_path prev else lcf_cs_sink_path conf),
            lcf_cs_sink_zone :=
              (if unset then merge_null (lcf_cs_sink_zone conf) (lcf_cs_sink_zone prev)
               else lcf_cs_sink_zone conf),
            lcf_cs_sink_interval := merge_value (lcf_cs_sink_interval conf) (lcf_cs_sink_interval prev) 10,
            lcf_cs_sink_ttl := merge_value (lcf_cs_sink_ttl conf) (lcf_cs_sink_ttl prev) 3600,
            lcf_cs_sink_scenario := merge_str_value (lcf_cs_sink_scenario conf)
                                      (lcf_cs_sink_scenario prev) ''sentinel/http-abuse''\<rparr>
      in conf_check
           (length (lcf_cs_sink_path c) > 0 \<longrightarrow>
              \<not> (lcf_cs_sink_interval c < 1 \<or> lcf_cs_sink_interval c > 3600)
              \<and> \<not> (lcf_cs_sink_ttl c < 60 \<or> lcf_cs_sink_ttl c > 86400)) c)"

definition merge_tarpit ::
  "ngx_sentinel_loc_conf \<Rightarrow> ngx_sentinel_loc_conf \<Rightarrow> conf_error + ngx_sentinel_loc_conf" where
  "merge_tarpit prev conf =
     (let c = conf\<lparr>
            lcf_tarpit_max_conns := merge_value (lcf_tarpit_max_conns conf) (lcf_tarpit_max_conns prev) 256,
            lcf_tarpit_delay := merge_value (lcf_tarpit_delay conf) (lcf_tarpit_delay prev) 5000,
            lcf_tarpit_bytes := merge_value (lcf_tarpit_bytes conf) (lcf_tarpit_bytes prev) 1024,
            lcf_tarpit_max_lifetime := merge_value (lcf_tarpit_max_lifetime conf)
                                         (lcf_tarpit_max_lifetime prev) 30000,
            lcf_tarpit_maze := merge_value (lcf_tarpit_maze conf) (lcf_tarpit_maze prev) 0\<rparr>
      in conf_check
           (\<not> (lcf_tarpit_max_conns c < 0 \<or> lcf_tarpit_max_conns c > 65536)
            \<and> \<not> (lcf_tarpit_delay c < 100 \<or> lcf_tarpit_delay c > 60000)
            \<and> \<not> (lcf_tarpit_bytes c < 1 \<or> lcf_tarpit_bytes c > 65536)
            \<and> \<not> (lcf_tarpit_max_lifetime c < 1000 \<or> lcf_tarpit_max_lifetime c > 600000)) c)"

definition merge_actions ::
  "ngx_sentinel_loc_conf \<Rightarrow> ngx_sentinel_loc_conf \<Rightarrow> conf_error + ngx_sentinel_loc_conf" where
  "merge_actions prev conf =
     (let c = conf\<lparr>
            lcf_block_status := merge_value (lcf_block_status conf) (lcf_block_status prev) 403,
            lcf_block_ttl := merge_value (lcf_block_ttl conf) (lcf_block_ttl prev) 0,
            lcf_throttle_rate := merge_size_value (lcf_throttle_rate conf) (lcf_throttle_rate prev) 0,
            lcf_shield := merge_value (lcf_shield conf) (lcf_shield prev) 0,
            lcf_pow_enabled := merge_value (lcf_pow_enabled conf) (lcf_pow_enabled prev) 0,
            lcf_pow_secret := merge_str_value (lcf_pow_secret conf) (lcf_pow_secret prev) [],
            lcf_pow_difficulty := merge_value (lcf_pow_difficulty conf) (lcf_pow_difficulty prev) 16,
            lcf_pow_ttl := merge_value (lcf_pow_ttl conf) (lcf_pow_ttl prev) 3600\<rparr>
      in conf_check
           (\<not> (lcf_block_status c \<noteq> 444 \<and> (lcf_block_status c < 400 \<or> lcf_block_status c > 599))
            \<and> \<not> lcf_block_ttl c < 0
            \<and> \<not> (lcf_pow_difficulty c < 1 \<or> lcf_pow_difficulty c > 32)
            \<and> \<not> lcf_pow_ttl c < 1) c)"

text \<open>Binding to the declared zones: the first error-rate zone, and the first CrowdSec zone when
  a feed or Redis needs one. The CrowdSec zone's LRU age-out interval becomes this location's
  \<open>stale_after\<close>, a write into the shared zone descriptor.\<close>

definition bind_cs_zone ::
  "ngx_sentinel_main_conf \<Rightarrow> ngx_sentinel_loc_conf \<Rightarrow> conf_error + zone_ptr" where
  "bind_cs_zone mcf c =
     (if lcf_cs_zone c = ZNull \<and> (length (lcf_cs_feed c) > 0 \<or> length (lcf_redis_host c) > 0)
      then (if length (mcf_cs_zones mcf) > 0 then Inr (ZAt 0) else Inl CONF_ERROR)
      else Inr (lcf_cs_zone c))"

definition bind_zone :: "ngx_sentinel_main_conf \<Rightarrow> nat option \<Rightarrow> nat option \<Rightarrow> nat option" where
  "bind_zone mcf conf prev =
     (let z = merge_null conf prev
      in if z = None then (if length (mcf_zones mcf) > 0 then Some 0 else None) else z)"

fun set_cs_interval :: "int \<Rightarrow> zone_ptr \<Rightarrow> ngx_sentinel_main_conf \<Rightarrow> ngx_sentinel_main_conf" where
  "set_cs_interval t (ZAt i) mcf =
     mcf\<lparr>mcf_cs_zones := (mcf_cs_zones mcf)[i := (mcf_cs_zones mcf ! i)\<lparr>zone_interval := t\<rparr>]\<rparr>"
| "set_cs_interval t z mcf = mcf"

definition merge_zones ::
  "ngx_sentinel_main_conf \<Rightarrow> ngx_sentinel_loc_conf \<Rightarrow> ngx_sentinel_loc_conf \<Rightarrow>
   conf_error + ngx_sentinel_main_conf \<times> ngx_sentinel_loc_conf" where
  "merge_zones mcf prev conf =
     (let c = conf\<lparr>lcf_zone := bind_zone mcf (lcf_zone conf) (lcf_zone prev)\<rparr>
      in conf_then (bind_cs_zone mcf c) (\<lambda>z.
           Inr (set_cs_interval (lcf_cs_stale_after c) z mcf, c\<lparr>lcf_cs_zone := z\<rparr>)))"

definition ngx_sentinel_merge_loc_conf ::
  "ngx_api \<Rightarrow> ngx_sentinel_main_conf \<Rightarrow> ngx_sentinel_loc_conf \<Rightarrow> ngx_sentinel_loc_conf \<Rightarrow>
   conf_error + ngx_sentinel_main_conf \<times> ngx_sentinel_loc_conf" where
  "ngx_sentinel_merge_loc_conf ngx mcf prev conf =
     conf_then (merge_fcrdns mcf prev (merge_core prev conf)) (\<lambda>c.
     conf_then (merge_velocity mcf prev c) (\<lambda>c.
     conf_then (merge_crowdsec (pagesize ngx) prev (merge_lists prev c)) (\<lambda>c.
     conf_then (merge_redis prev c) (\<lambda>c.
     conf_then (merge_cs_sink prev c) (\<lambda>c.
     conf_then (merge_tarpit prev c) (\<lambda>c.
     conf_then (merge_actions prev c) (\<lambda>c.
     merge_zones mcf prev c)))))))"

subsection \<open>Zone directives\<close>

text \<open>Every zone directive starts with \<open>name:size\<close>; the size must be at least a page.\<close>

definition parse_name_size :: "ngx_api \<Rightarrow> string \<Rightarrow> conf_error + string \<times> int" where
  "parse_name_size ngx v =
     (case memchr CHR '':'' v of
        None \<Rightarrow> Inl CONF_ERROR
      | Some colon \<Rightarrow>
          (case parse_size ngx (drop (colon + 1) v) of
             None \<Rightarrow> Inl CONF_ERROR
           | Some sz \<Rightarrow> conf_check (\<not> sz < pagesize ngx) (take colon v, sz)))"

definition new_zone :: "string \<Rightarrow> int \<Rightarrow> int \<Rightarrow> nat \<Rightarrow> ngx_sentinel_zone" where
  "new_zone nm interval block threshold =
     \<lparr>zone_name = nm, zone_interval = interval, zone_block = block,
      zone_threshold = threshold, zone_sh = None\<rparr>"

definition ngx_sentinel_set_zone ::
  "ngx_api \<Rightarrow> string \<Rightarrow> ngx_sentinel_main_conf \<Rightarrow> conf_error + ngx_sentinel_main_conf" where
  "ngx_sentinel_set_zone ngx v mcf =
     conf_then (parse_name_size ngx v) (\<lambda>(nm, sz).
       conf_check (shared_memory_add ngx nm sz)
         (mcf\<lparr>mcf_zones := mcf_zones mcf @ [new_zone nm 300 3600 NGX_SENTINEL_MAX_WINDOW_EVENTS]\<rparr>))"

text \<open>The optional parameters of \<open>sentinel_velocity_zone\<close>, in the order they are written.\<close>

definition conf_atoi :: "ngx_api \<Rightarrow> string \<Rightarrow> (int \<Rightarrow> bool) \<Rightarrow> conf_error + int" where
  "conf_atoi ngx s ok = (case atoi ngx s of None \<Rightarrow> Inl CONF_ERROR | Some v \<Rightarrow> conf_check (ok v) v)"

lemma conf_atoi_Inr [simp]: "conf_atoi ngx s ok = Inr v \<longleftrightarrow> atoi ngx s = Some v \<and> ok v"
  by (auto simp: conf_atoi_def split: option.splits)

fun set_velocity_params ::
  "ngx_api \<Rightarrow> string list \<Rightarrow> ngx_sentinel_zone \<Rightarrow> conf_error + ngx_sentinel_zone" where
  "set_velocity_params ngx [] zone = Inr zone"
| "set_velocity_params ngx (arg # args) zone =
     (if strncmp_eq 5 arg ''rate='' then
        conf_then (conf_atoi ngx (drop 5 arg) (\<lambda>v. \<not> v < 1)) (\<lambda>v.
          set_velocity_params ngx args (zone\<lparr>zone_threshold := nat v\<rparr>))
      else if strncmp_eq 7 arg ''window='' then
        conf_then (conf_atoi ngx (drop 7 arg) (\<lambda>v. \<not> v < 1)) (\<lambda>v.
          set_velocity_params ngx args (zone\<lparr>zone_interval := v\<rparr>))
      else if strncmp_eq 6 arg ''block='' then
        conf_then (conf_atoi ngx (drop 6 arg) (\<lambda>v. \<not> v < 1)) (\<lambda>v.
          set_velocity_params ngx args (zone\<lparr>zone_block := v\<rparr>))
      else Inl CONF_ERROR)"

definition ngx_sentinel_set_velocity_zone ::
  "ngx_api \<Rightarrow> string \<Rightarrow> string list \<Rightarrow> ngx_sentinel_main_conf \<Rightarrow>
   conf_error + ngx_sentinel_main_conf" where
  "ngx_sentinel_set_velocity_zone ngx v args mcf =
     conf_then (parse_name_size ngx v) (\<lambda>(nm, sz).
     conf_then (set_velocity_params ngx args (new_zone nm 10 3600 100)) (\<lambda>zone.
       conf_check (shared_memory_add ngx nm sz)
         (mcf\<lparr>mcf_vel_zones := mcf_vel_zones mcf @ [zone]\<rparr>)))"

definition ngx_sentinel_set_crowdsec_zone ::
  "ngx_api \<Rightarrow> string \<Rightarrow> ngx_sentinel_main_conf \<Rightarrow> conf_error + ngx_sentinel_main_conf" where
  "ngx_sentinel_set_crowdsec_zone ngx v mcf =
     conf_then (parse_name_size ngx v) (\<lambda>(nm, sz).
       conf_check (shared_memory_add ngx nm sz)
         (mcf\<lparr>mcf_cs_zones := mcf_cs_zones mcf @ [new_zone nm 600 0 0]\<rparr>))"

definition ngx_sentinel_set_fcrdns_zone ::
  "ngx_api \<Rightarrow> string \<Rightarrow> ngx_sentinel_main_conf \<Rightarrow> conf_error + ngx_sentinel_main_conf" where
  "ngx_sentinel_set_fcrdns_zone ngx v mcf =
     conf_then (parse_name_size ngx v) (\<lambda>(nm, sz).
       conf_check (shared_memory_add ngx nm sz)
         (mcf\<lparr>mcf_fcrdns_zones := mcf_fcrdns_zones mcf @ [new_zone nm 3600 0 0]\<rparr>))"

subsection \<open>Location directives\<close>

type_synonym loc_result = "conf_error + ngx_sentinel_loc_conf"

definition ngx_sentinel_set_fcrdns :: "string \<Rightarrow> ngx_sentinel_loc_conf \<Rightarrow> loc_result" where
  "ngx_sentinel_set_fcrdns v lcf =
     (if length (lcf_fcrdns_zone_name lcf) \<noteq> 0 then Inl CONF_DUPLICATE
      else Inr (lcf\<lparr>lcf_fcrdns_zone_name := v\<rparr>))"

definition ngx_sentinel_set_fcrdns_suffix :: "string list \<Rightarrow> ngx_sentinel_loc_conf \<Rightarrow> loc_result" where
  "ngx_sentinel_set_fcrdns_suffix args lcf =
     Inr (lcf\<lparr>lcf_fcrdns_suffixes := lcf_fcrdns_suffixes lcf @ args\<rparr>)"

definition ngx_sentinel_set_crowdsec_feed :: "string \<Rightarrow> ngx_sentinel_loc_conf \<Rightarrow> loc_result" where
  "ngx_sentinel_set_crowdsec_feed v lcf =
     conf_check (\<not> length v = 0) (lcf\<lparr>lcf_cs_feed := v\<rparr>)"

text \<open>\<open>host[:port]\<close>, split at the first colon.\<close>

definition parse_endpoint :: "ngx_api \<Rightarrow> string \<Rightarrow> conf_error + string \<times> int" where
  "parse_endpoint ngx v =
     (case memchr CHR '':'' v of
        None \<Rightarrow> Inr (v, 6379)
      | Some colon \<Rightarrow>
          (let pstr = drop (colon + 1) v
           in if length pstr = 0 then Inl CONF_ERROR
              else conf_then (conf_atoi ngx pstr (\<lambda>port. \<not> (port < 1 \<or> port > 65535)))
                     (\<lambda>port. Inr (take colon v, port))))"

definition ring_zone_size :: "ngx_api \<Rightarrow> int \<Rightarrow> int" where
  "ring_zone_size ngx sz =
     int (align_up (nat (sz + 4 * pagesize ngx)) (nat (pagesize ngx)))"

definition ngx_sentinel_set_redis :: "ngx_api \<Rightarrow> string \<Rightarrow> ngx_sentinel_loc_conf \<Rightarrow> loc_result" where
  "ngx_sentinel_set_redis ngx v lcf =
     (if length (lcf_redis_host lcf) > 0 then Inl CONF_DUPLICATE
      else if length v = 0 then Inl CONF_ERROR
      else conf_then (parse_endpoint ngx v) (\<lambda>(host, port).
        if length host = 0 then Inl CONF_ERROR
        else
          let zname = ''sentinel_redis_push_'' @ v
          in conf_check (shared_memory_add ngx zname (ring_zone_size ngx (redis_shctx_sizeof ngx)))
               (lcf\<lparr>lcf_redis_host := host, lcf_redis_port := port,
                    lcf_redis_push_zone := Some zname\<rparr>)))"

definition ngx_sentinel_set_cs_sink :: "ngx_api \<Rightarrow> string \<Rightarrow> ngx_sentinel_loc_conf \<Rightarrow> loc_result" where
  "ngx_sentinel_set_cs_sink ngx v lcf =
     (if length (lcf_cs_sink_path lcf) > 0 then Inl CONF_DUPLICATE
      else if length v = 0 then Inl CONF_ERROR
      else
        let zname = ''sentinel_cs_sink_'' @ v
        in conf_check (shared_memory_add ngx zname (ring_zone_size ngx (cssink_shctx_sizeof ngx)))
             (lcf\<lparr>lcf_cs_sink_path := v, lcf_cs_sink_zone := Some zname\<rparr>))"

definition ngx_sentinel_set_mode :: "string \<Rightarrow> ngx_sentinel_loc_conf \<Rightarrow> loc_result" where
  "ngx_sentinel_set_mode v lcf =
     (if strcmp_eq v ''shadow'' then Inr (lcf\<lparr>lcf_shadow := 1\<rparr>)
      else if strcmp_eq v ''enforce'' then Inr (lcf\<lparr>lcf_shadow := 0\<rparr>)
      else Inl CONF_ERROR)"

definition ngx_sentinel_set_fail :: "string \<Rightarrow> ngx_sentinel_loc_conf \<Rightarrow> loc_result" where
  "ngx_sentinel_set_fail v lcf =
     (if strcmp_eq v ''open'' then Inr (lcf\<lparr>lcf_fail_open := 1\<rparr>)
      else if strcmp_eq v ''closed'' then Inr (lcf\<lparr>lcf_fail_open := 0\<rparr>)
      else Inl CONF_ERROR)"

fun ngx_sentinel_set_threshold ::
  "ngx_api \<Rightarrow> string list \<Rightarrow> ngx_sentinel_threshold \<Rightarrow> conf_error + ngx_sentinel_threshold" where
  "ngx_sentinel_set_threshold ngx [] t = Inr t"
| "ngx_sentinel_set_threshold ngx (arg # args) t =
     (if strncmp_eq 10 arg ''challenge='' then
        conf_then (conf_atoi ngx (drop 10 arg) (\<lambda>v. True)) (\<lambda>v.
          ngx_sentinel_set_threshold ngx args (t\<lparr>thr_challenge := v\<rparr>))
      else if strncmp_eq 7 arg ''tarpit='' then
        conf_then (conf_atoi ngx (drop 7 arg) (\<lambda>v. True)) (\<lambda>v.
          ngx_sentinel_set_threshold ngx args (t\<lparr>thr_tarpit := v\<rparr>))
      else if strncmp_eq 6 arg ''block='' then
        conf_then (conf_atoi ngx (drop 6 arg) (\<lambda>v. True)) (\<lambda>v.
          ngx_sentinel_set_threshold ngx args (t\<lparr>thr_block := v\<rparr>))
      else Inl CONF_ERROR)"

definition ngx_sentinel_set_tarpit_delay :: "ngx_api \<Rightarrow> string \<Rightarrow> ngx_sentinel_loc_conf \<Rightarrow> loc_result" where
  "ngx_sentinel_set_tarpit_delay ngx v lcf =
     conf_then (conf_atoi ngx v (\<lambda>n. \<not> (n < 100 \<or> n > 60000))) (\<lambda>n.
       Inr (lcf\<lparr>lcf_tarpit_delay := n\<rparr>))"

definition ngx_sentinel_set_tarpit_bytes :: "ngx_api \<Rightarrow> string \<Rightarrow> ngx_sentinel_loc_conf \<Rightarrow> loc_result" where
  "ngx_sentinel_set_tarpit_bytes ngx v lcf =
     conf_then (conf_atoi ngx v (\<lambda>n. \<not> (n < 1 \<or> n > 65536))) (\<lambda>n.
       Inr (lcf\<lparr>lcf_tarpit_bytes := n\<rparr>))"

definition ngx_sentinel_set_tarpit_lifetime :: "ngx_api \<Rightarrow> string \<Rightarrow> ngx_sentinel_loc_conf \<Rightarrow> loc_result" where
  "ngx_sentinel_set_tarpit_lifetime ngx v lcf =
     conf_then (conf_atoi ngx v (\<lambda>n. \<not> (n < 1000 \<or> n > 600000))) (\<lambda>n.
       Inr (lcf\<lparr>lcf_tarpit_max_lifetime := n\<rparr>))"

text \<open>The list directives append their arguments one by one and stop at the first bad one.\<close>

fun conf_push_nonempty :: "string list \<Rightarrow> string list \<Rightarrow> conf_error + string list" where
  "conf_push_nonempty [] acc = Inr acc"
| "conf_push_nonempty (v # vs) acc =
     (if length v = 0 then Inl CONF_ERROR else conf_push_nonempty vs (acc @ [v]))"

definition sentinel_conf_honeypot :: "string list \<Rightarrow> ngx_sentinel_loc_conf \<Rightarrow> loc_result" where
  "sentinel_conf_honeypot args lcf =
     conf_then (conf_push_nonempty args (lcf_decoy_paths lcf)) (\<lambda>ps. Inr (lcf\<lparr>lcf_decoy_paths := ps\<rparr>))"

fun conf_push_cidrs :: "ngx_api \<Rightarrow> string list \<Rightarrow> ngx_cidr list \<Rightarrow> conf_error + ngx_cidr list" where
  "conf_push_cidrs ngx [] acc = Inr acc"
| "conf_push_cidrs ngx (v # vs) acc =
     (if length v = 0 then Inl CONF_ERROR
      else case ptocidr ngx v of
             None \<Rightarrow> Inl CONF_ERROR
           | Some c \<Rightarrow> conf_push_cidrs ngx vs (acc @ [c]))"

definition sentinel_conf_allowlist :: "ngx_api \<Rightarrow> string list \<Rightarrow> ngx_sentinel_loc_conf \<Rightarrow> loc_result" where
  "sentinel_conf_allowlist ngx args lcf =
     conf_then (conf_push_cidrs ngx args (lcf_allow_cidrs lcf)) (\<lambda>cs. Inr (lcf\<lparr>lcf_allow_cidrs := cs\<rparr>))"

definition sentinel_conf_asn_source :: "string \<Rightarrow> ngx_sentinel_loc_conf \<Rightarrow> loc_result" where
  "sentinel_conf_asn_source v lcf =
     (if lcf_asn_source lcf \<noteq> None then Inl CONF_DUPLICATE
      else Inr (lcf\<lparr>lcf_asn_source := Some v\<rparr>))"

fun conf_push_asns :: "ngx_api \<Rightarrow> string list \<Rightarrow> nat list \<Rightarrow> conf_error + nat list" where
  "conf_push_asns ngx [] acc = Inr acc"
| "conf_push_asns ngx (v # vs) acc =
     conf_then (conf_atoi ngx v (\<lambda>n. \<not> n \<le> 0)) (\<lambda>n. conf_push_asns ngx vs (acc @ [nat n]))"

definition sentinel_conf_datacenter_asn ::
  "ngx_api \<Rightarrow> string list \<Rightarrow> ngx_sentinel_loc_conf \<Rightarrow> loc_result" where
  "sentinel_conf_datacenter_asn ngx args lcf =
     conf_then (conf_push_asns ngx args (lcf_asn_list lcf)) (\<lambda>as. Inr (lcf\<lparr>lcf_asn_list := as\<rparr>))"

text \<open>A radix tree is the list of its prefixes; inserting one that is there (\<open>NGX_BUSY\<close>) is
  harmless, and so is its second copy here.\<close>

fun sentinel_conf_c2ip_deny :: "ngx_api \<Rightarrow> string list \<Rightarrow> ngx_sentinel_loc_conf \<Rightarrow> loc_result" where
  "sentinel_conf_c2ip_deny ngx [] lcf = Inr lcf"
| "sentinel_conf_c2ip_deny ngx (v # vs) lcf =
     (case ptocidr ngx v of
        None \<Rightarrow> Inl CONF_ERROR
      | Some (CIDR4 addr msk) \<Rightarrow>
          sentinel_conf_c2ip_deny ngx vs
            (lcf\<lparr>lcf_c2ip_tree :=
                   Some ((case lcf_c2ip_tree lcf of None \<Rightarrow> [] | Some t \<Rightarrow> t) @ [(addr, msk)])\<rparr>)
      | Some (CIDR6 addr msk) \<Rightarrow>
          sentinel_conf_c2ip_deny ngx vs
            (lcf\<lparr>lcf_c2ip_tree6 :=
                   Some ((case lcf_c2ip_tree6 lcf of None \<Rightarrow> [] | Some t \<Rightarrow> t) @ [(addr, msk)])\<rparr>)
      | Some CIDR_OTHER \<Rightarrow> Inl CONF_ERROR)"

definition sentinel_conf_ja3_source :: "string \<Rightarrow> ngx_sentinel_loc_conf \<Rightarrow> loc_result" where
  "sentinel_conf_ja3_source v lcf =
     (if lcf_ja3_source lcf \<noteq> None then Inl CONF_DUPLICATE
      else Inr (lcf\<lparr>lcf_ja3_source := Some v\<rparr>))"

definition sentinel_conf_ja3_deny :: "string list \<Rightarrow> ngx_sentinel_loc_conf \<Rightarrow> loc_result" where
  "sentinel_conf_ja3_deny args lcf =
     conf_then (conf_push_nonempty args (lcf_ja3_list lcf)) (\<lambda>l. Inr (lcf\<lparr>lcf_ja3_list := l\<rparr>))"

definition sentinel_conf_ja4_source :: "string \<Rightarrow> ngx_sentinel_loc_conf \<Rightarrow> loc_result" where
  "sentinel_conf_ja4_source v lcf =
     (if lcf_ja4_source lcf \<noteq> None then Inl CONF_DUPLICATE
      else Inr (lcf\<lparr>lcf_ja4_source := Some v\<rparr>))"

definition sentinel_conf_ja4_deny :: "string list \<Rightarrow> ngx_sentinel_loc_conf \<Rightarrow> loc_result" where
  "sentinel_conf_ja4_deny args lcf =
     conf_then (conf_push_nonempty args (lcf_ja4_list lcf)) (\<lambda>l. Inr (lcf\<lparr>lcf_ja4_list := l\<rparr>))"

definition sentinel_conf_ja4t_source :: "string \<Rightarrow> ngx_sentinel_loc_conf \<Rightarrow> loc_result" where
  "sentinel_conf_ja4t_source v lcf =
     (if lcf_ja4t_source lcf \<noteq> None then Inl CONF_DUPLICATE
      else Inr (lcf\<lparr>lcf_ja4t_source := Some v\<rparr>))"

definition sentinel_conf_ja4t_deny :: "string list \<Rightarrow> ngx_sentinel_loc_conf \<Rightarrow> loc_result" where
  "sentinel_conf_ja4t_deny args lcf =
     conf_then (conf_push_nonempty args (lcf_ja4t_list lcf)) (\<lambda>l. Inr (lcf\<lparr>lcf_ja4t_list := l\<rparr>))"

definition ngx_sentinel_set_velocity_bind :: "string \<Rightarrow> ngx_sentinel_loc_conf \<Rightarrow> loc_result" where
  "ngx_sentinel_set_velocity_bind v lcf = Inr (lcf\<lparr>lcf_vel_zone_name := v\<rparr>)"

subsection \<open>Declared zones\<close>

text \<open>What the directives guarantee of the zones: those with an event ring (error rate, velocity)
  have at least one slot and positive durations; the CrowdSec and FCrDNS zones have no ring.\<close>

definition event_zone_ok :: "ngx_sentinel_zone \<Rightarrow> bool" where
  "event_zone_ok z \<longleftrightarrow> 1 \<le> zone_threshold z \<and> 1 \<le> zone_interval z \<and> 1 \<le> zone_block z"

definition main_conf_ok :: "ngx_sentinel_main_conf \<Rightarrow> bool" where
  "main_conf_ok mcf \<longleftrightarrow>
     list_all event_zone_ok (mcf_zones mcf) \<and> list_all event_zone_ok (mcf_vel_zones mcf) \<and>
     list_all (\<lambda>z. zone_threshold z = 0) (mcf_cs_zones mcf) \<and>
     list_all (\<lambda>z. zone_threshold z = 0) (mcf_fcrdns_zones mcf)"

text \<open>Reading the \<open>http\<close> block: the unset main configuration, then any sequence of accepted
  zone directives, and locations merged in between.\<close>

inductive main_conf_reachable :: "ngx_api \<Rightarrow> ngx_sentinel_main_conf \<Rightarrow> bool" for ngx where
  create: "main_conf_reachable ngx ngx_sentinel_create_main_conf"
| zone: "main_conf_reachable ngx m \<Longrightarrow> ngx_sentinel_set_zone ngx v m = Inr m' \<Longrightarrow>
     main_conf_reachable ngx m'"
| velocity_zone: "main_conf_reachable ngx m \<Longrightarrow>
     ngx_sentinel_set_velocity_zone ngx v args m = Inr m' \<Longrightarrow> main_conf_reachable ngx m'"
| crowdsec_zone: "main_conf_reachable ngx m \<Longrightarrow> ngx_sentinel_set_crowdsec_zone ngx v m = Inr m' \<Longrightarrow>
     main_conf_reachable ngx m'"
| fcrdns_zone: "main_conf_reachable ngx m \<Longrightarrow> ngx_sentinel_set_fcrdns_zone ngx v m = Inr m' \<Longrightarrow>
     main_conf_reachable ngx m'"
| merge: "main_conf_reachable ngx m \<Longrightarrow> ngx_sentinel_merge_loc_conf ngx m prev conf = Inr (m', c) \<Longrightarrow>
     main_conf_reachable ngx m'"

lemma new_zone_ok:
  "event_zone_ok (new_zone nm i b t) \<longleftrightarrow> 1 \<le> t \<and> 1 \<le> i \<and> 1 \<le> b"
  by (simp add: event_zone_ok_def new_zone_def)

lemma set_velocity_params_ok:
  "set_velocity_params ngx args z = Inr z' \<Longrightarrow> event_zone_ok z \<Longrightarrow> event_zone_ok z'"
proof (induction ngx args z rule: set_velocity_params.induct)
  case (2 ngx arg args zone)
  from 2(4) consider v where "1 \<le> v" "strncmp_eq 5 arg ''rate=''"
      "conf_atoi ngx (drop 5 arg) (\<lambda>v. \<not> v < 1) = Inr v"
      "set_velocity_params ngx args (zone\<lparr>zone_threshold := nat v\<rparr>) = Inr z'"
    | v where "1 \<le> v" "\<not> strncmp_eq 5 arg ''rate=''" "strncmp_eq 7 arg ''window=''"
      "conf_atoi ngx (drop 7 arg) (\<lambda>v. \<not> v < 1) = Inr v"
      "set_velocity_params ngx args (zone\<lparr>zone_interval := v\<rparr>) = Inr z'"
    | v where "1 \<le> v" "\<not> strncmp_eq 5 arg ''rate=''" "\<not> strncmp_eq 7 arg ''window=''"
      "strncmp_eq 6 arg ''block=''" "conf_atoi ngx (drop 6 arg) (\<lambda>v. \<not> v < 1) = Inr v"
      "set_velocity_params ngx args (zone\<lparr>zone_block := v\<rparr>) = Inr z'"
    by (auto split: if_splits simp: not_less)
  then show ?case
    using 2 by cases (simp_all add: event_zone_ok_def)
qed simp

lemma set_cs_interval_simps [simp]:
  "mcf_zones (set_cs_interval t z m) = mcf_zones m"
  "mcf_vel_zones (set_cs_interval t z m) = mcf_vel_zones m"
  "mcf_fcrdns_zones (set_cs_interval t z m) = mcf_fcrdns_zones m"
  "length (mcf_cs_zones (set_cs_interval t z m)) = length (mcf_cs_zones m)"
  by (cases z; simp)+

lemma set_cs_interval_thresholds:
  "map zone_threshold (mcf_cs_zones (set_cs_interval t z m)) = map zone_threshold (mcf_cs_zones m)"
proof (cases z)
  case (ZAt i)
  then show ?thesis
    by (cases "i < length (mcf_cs_zones m)")
      (simp_all add: map_update list_update_same_conv list_update_beyond)
qed simp_all

lemma merge_loc_conf_main:
  assumes "ngx_sentinel_merge_loc_conf ngx m prev conf = Inr (m', c)"
  obtains z where "m' = set_cs_interval (lcf_cs_stale_after c) z m" "lcf_cs_zone c = z"
  using assms unfolding ngx_sentinel_merge_loc_conf_def merge_zones_def Let_def by auto

lemma main_conf_reachable_ok:
  "main_conf_reachable ngx m \<Longrightarrow> main_conf_ok m"
proof (induction rule: main_conf_reachable.induct)
  case create
  then show ?case by (simp add: main_conf_ok_def ngx_sentinel_create_main_conf_def)
next
  case (velocity_zone m v args m')
  then obtain nm z where "set_velocity_params ngx args (new_zone nm 10 3600 100) = Inr z"
      "m' = m\<lparr>mcf_vel_zones := mcf_vel_zones m @ [z]\<rparr>"
    by (auto simp: ngx_sentinel_set_velocity_zone_def)
  then show ?case
    using velocity_zone.IH set_velocity_params_ok by (auto simp: main_conf_ok_def new_zone_ok)
next
  case (merge m prev conf m' c)
  from merge.hyps(2) obtain z where m': "m' = set_cs_interval (lcf_cs_stale_after c) z m"
    by (rule merge_loc_conf_main)
  have "list_all (\<lambda>z. zone_threshold z = 0) (mcf_cs_zones m')"
    using merge.IH arg_cong [OF set_cs_interval_thresholds [of "lcf_cs_stale_after c" z m],
        of "list_all (\<lambda>t. t = 0)"]
    by (simp add: main_conf_ok_def m' list.pred_map comp_def)
  then show ?case using merge.IH by (simp add: main_conf_ok_def m')
qed (auto simp: main_conf_ok_def new_zone_ok NGX_SENTINEL_MAX_WINDOW_EVENTS_def new_zone_def
    ngx_sentinel_set_zone_def ngx_sentinel_set_crowdsec_zone_def ngx_sentinel_set_fcrdns_zone_def
    event_zone_ok_def)

subsection \<open>Accepted configurations\<close>

text \<open>A pointer into a zone array that a request may follow.\<close>

fun zone_ptr_ok :: "nat \<Rightarrow> zone_ptr \<Rightarrow> bool" where
  "zone_ptr_ok n (ZAt i) = (i < n)"
| "zone_ptr_ok n ZNull = True"
| "zone_ptr_ok n ZUnset = False"

definition ptrs_ok :: "ngx_sentinel_main_conf \<Rightarrow> ngx_sentinel_loc_conf \<Rightarrow> bool" where
  "ptrs_ok m c \<longleftrightarrow>
     (\<forall>i. lcf_zone c = Some i \<longrightarrow> i < length (mcf_zones m)) \<and>
     zone_ptr_ok (length (mcf_vel_zones m)) (lcf_vel_zone c) \<and>
     zone_ptr_ok (length (mcf_fcrdns_zones m)) (lcf_fcrdns_zone c) \<and>
     zone_ptr_ok (length (mcf_cs_zones m)) (lcf_cs_zone c)"

text \<open>The documented ranges.\<close>

definition cs_ranges :: "ngx_api \<Rightarrow> ngx_sentinel_loc_conf \<Rightarrow> bool" where
  "cs_ranges ngx c \<longleftrightarrow>
     w_crowdsec (lcf_weights c) \<in> {0..NGX_SENTINEL_SCORE_MAX} \<and>
     lcf_cs_interval c \<in> {1..3600} \<and> lcf_cs_default_ttl c \<in> {60..86400} \<and>
     lcf_cs_stale_after c \<in> {30..86400} \<and> lcf_cs_max_bytes c \<in> {pagesize ngx..64 * 1024 * 1024}"

definition redis_ranges :: "ngx_sentinel_loc_conf \<Rightarrow> bool" where
  "redis_ranges c \<longleftrightarrow>
     (lcf_redis_host c \<noteq> [] \<longrightarrow> lcf_redis_interval c \<in> {1..3600} \<and> lcf_redis_ttl c \<in> {60..86400})"

definition sink_ranges :: "ngx_sentinel_loc_conf \<Rightarrow> bool" where
  "sink_ranges c \<longleftrightarrow>
     (lcf_cs_sink_path c \<noteq> [] \<longrightarrow>
        lcf_cs_sink_interval c \<in> {1..3600} \<and> lcf_cs_sink_ttl c \<in> {60..86400})"

definition tarpit_ranges :: "ngx_sentinel_loc_conf \<Rightarrow> bool" where
  "tarpit_ranges c \<longleftrightarrow>
     lcf_tarpit_max_conns c \<in> {0..65536} \<and> lcf_tarpit_delay c \<in> {100..60000} \<and>
     lcf_tarpit_bytes c \<in> {1..65536} \<and> lcf_tarpit_max_lifetime c \<in> {1000..600000}"

definition action_ranges :: "ngx_sentinel_loc_conf \<Rightarrow> bool" where
  "action_ranges c \<longleftrightarrow>
     (lcf_block_status c = 444 \<or> lcf_block_status c \<in> {400..599}) \<and> 0 \<le> lcf_block_ttl c \<and>
     lcf_pow_difficulty c \<in> {1..32} \<and> 1 \<le> lcf_pow_ttl c"

definition ranges_ok :: "ngx_api \<Rightarrow> ngx_sentinel_loc_conf \<Rightarrow> bool" where
  "ranges_ok ngx c \<longleftrightarrow>
     cs_ranges ngx c \<and> redis_ranges c \<and> sink_ranges c \<and> tarpit_ranges c \<and> action_ranges c"

lemma merge_ptr_ok:
  assumes "zone_ptr_ok n prev \<or> prev = ZUnset" "zone_ptr_ok n conf \<or> conf = ZUnset"
  shows "zone_ptr_ok n (merge_ptr_value conf prev)"
  using assms by (auto simp: merge_ptr_value_def)

lemma resolve_zone_ok:
  assumes "resolve_zone zs nm z = Inr z'" "zone_ptr_ok (length zs) z"
  shows "zone_ptr_ok (length zs) z'"
  using assms find_zone_bound by (auto simp: resolve_zone_def split: if_splits option.splits)

text \<open>Each stage of the merge establishes its ranges and leaves the others alone.\<close>

lemma merge_crowdsec_ranges: "merge_crowdsec ps prev c = Inr c' \<Longrightarrow> ps = pagesize ngx \<Longrightarrow> cs_ranges ngx c'"
  by (simp add: merge_crowdsec_def Let_def cs_ranges_def not_less)

lemma merge_redis_ranges:
  "merge_redis prev c = Inr c' \<Longrightarrow> redis_ranges c'"
  "merge_redis prev c = Inr c' \<Longrightarrow> cs_ranges ngx c' = cs_ranges ngx c"
  by (simp_all add: merge_redis_def Let_def cs_ranges_def redis_ranges_def not_less)

lemma merge_cs_sink_ranges:
  "merge_cs_sink prev c = Inr c' \<Longrightarrow> sink_ranges c'"
  "merge_cs_sink prev c = Inr c' \<Longrightarrow> cs_ranges ngx c' = cs_ranges ngx c"
  "merge_cs_sink prev c = Inr c' \<Longrightarrow> redis_ranges c' = redis_ranges c"
  by (simp_all add: merge_cs_sink_def Let_def cs_ranges_def redis_ranges_def sink_ranges_def not_less)

lemma merge_tarpit_ranges:
  "merge_tarpit prev c = Inr c' \<Longrightarrow> tarpit_ranges c'"
  "merge_tarpit prev c = Inr c' \<Longrightarrow> cs_ranges ngx c' = cs_ranges ngx c"
  "merge_tarpit prev c = Inr c' \<Longrightarrow> redis_ranges c' = redis_ranges c"
  "merge_tarpit prev c = Inr c' \<Longrightarrow> sink_ranges c' = sink_ranges c"
  by (simp_all add: merge_tarpit_def Let_def cs_ranges_def redis_ranges_def sink_ranges_def
      tarpit_ranges_def not_less)

lemma merge_actions_ranges:
  "merge_actions prev c = Inr c' \<Longrightarrow> action_ranges c'"
  "merge_actions prev c = Inr c' \<Longrightarrow> cs_ranges ngx c' = cs_ranges ngx c"
  "merge_actions prev c = Inr c' \<Longrightarrow> redis_ranges c' = redis_ranges c"
  "merge_actions prev c = Inr c' \<Longrightarrow> sink_ranges c' = sink_ranges c"
  "merge_actions prev c = Inr c' \<Longrightarrow> tarpit_ranges c' = tarpit_ranges c"
  by (simp_all add: merge_actions_def Let_def cs_ranges_def redis_ranges_def sink_ranges_def
      tarpit_ranges_def action_ranges_def not_less)

lemma merge_zones_Inr:
  assumes "merge_zones m prev c = Inr (m', c')"
  obtains z where "bind_cs_zone m (c\<lparr>lcf_zone := bind_zone m (lcf_zone c) (lcf_zone prev)\<rparr>) = Inr z"
    and "m' = set_cs_interval (lcf_cs_stale_after c) z m"
    and "c' = c\<lparr>lcf_zone := bind_zone m (lcf_zone c) (lcf_zone prev), lcf_cs_zone := z\<rparr>"
  using assms by (fastforce simp: merge_zones_def Let_def)

lemma merge_zones_ranges:
  assumes "merge_zones m prev c = Inr (m', c')"
  shows "ranges_ok ngx c' = ranges_ok ngx c"
proof -
  from assms obtain z where
    "c' = c\<lparr>lcf_zone := bind_zone m (lcf_zone c) (lcf_zone prev), lcf_cs_zone := z\<rparr>"
    by (rule merge_zones_Inr)
  then show ?thesis
    by (simp add: ranges_ok_def cs_ranges_def redis_ranges_def sink_ranges_def tarpit_ranges_def
        action_ranges_def)
qed

lemma merge_ranges_ok:
  assumes "ngx_sentinel_merge_loc_conf ngx m prev conf = Inr (m', c)"
  shows "ranges_ok ngx c"
proof -
  from assms obtain c2 c3 c4 c5 c6 c7 where
    cs: "merge_crowdsec (pagesize ngx) prev (merge_lists prev c2) = Inr c3"
    and r: "merge_redis prev c3 = Inr c4" and k: "merge_cs_sink prev c4 = Inr c5"
    and t: "merge_tarpit prev c5 = Inr c6" and a: "merge_actions prev c6 = Inr c7"
    and z: "merge_zones m prev c7 = Inr (m', c)"
    unfolding ngx_sentinel_merge_loc_conf_def conf_then_Inr by blast
  have "ranges_ok ngx c7"
    unfolding ranges_ok_def merge_actions_ranges(2-) [OF a]
      merge_tarpit_ranges(2-) [OF t] merge_cs_sink_ranges(2-) [OF k] merge_redis_ranges(2-) [OF r]
    using merge_crowdsec_ranges [OF cs refl] merge_redis_ranges(1) [OF r]
      merge_cs_sink_ranges(1) [OF k] merge_tarpit_ranges(1) [OF t] merge_actions_ranges(1) [OF a]
    by (intro conjI)
  then show ?thesis by (simp only: merge_zones_ranges [OF z])
qed

text \<open>The stages between the two zone resolutions and the last one do not touch the pointers.\<close>

lemma merge_middle_ptrs:
  assumes "merge_crowdsec ps prev (merge_lists prev c2) = Inr c3"
    and "merge_redis prev c3 = Inr c4" and "merge_cs_sink prev c4 = Inr c5"
    and "merge_tarpit prev c5 = Inr c6" and "merge_actions prev c6 = Inr c7"
  shows "lcf_vel_zone c7 = lcf_vel_zone c2" "lcf_fcrdns_zone c7 = lcf_fcrdns_zone c2"
    "lcf_zone c7 = lcf_zone c2"
    "lcf_cs_zone c7 = merge_ptr_value (lcf_cs_zone c2) (lcf_cs_zone prev)"
proof -
  have "lcf_vel_zone c3 = lcf_vel_zone c2" "lcf_fcrdns_zone c3 = lcf_fcrdns_zone c2"
    "lcf_zone c3 = lcf_zone c2"
    "lcf_cs_zone c3 = merge_ptr_value (lcf_cs_zone c2) (lcf_cs_zone prev)"
    using assms(1) by (simp_all add: merge_crowdsec_def merge_lists_def Let_def)
  moreover have "lcf_vel_zone c4 = lcf_vel_zone c3" "lcf_fcrdns_zone c4 = lcf_fcrdns_zone c3"
    "lcf_zone c4 = lcf_zone c3" "lcf_cs_zone c4 = lcf_cs_zone c3"
    using assms(2) by (simp_all add: merge_redis_def Let_def)
  moreover have "lcf_vel_zone c5 = lcf_vel_zone c4" "lcf_fcrdns_zone c5 = lcf_fcrdns_zone c4"
    "lcf_zone c5 = lcf_zone c4" "lcf_cs_zone c5 = lcf_cs_zone c4"
    using assms(3) by (simp_all add: merge_cs_sink_def Let_def)
  moreover have "lcf_vel_zone c6 = lcf_vel_zone c5" "lcf_fcrdns_zone c6 = lcf_fcrdns_zone c5"
    "lcf_zone c6 = lcf_zone c5" "lcf_cs_zone c6 = lcf_cs_zone c5"
    using assms(4) by (simp_all add: merge_tarpit_def Let_def)
  moreover have "lcf_vel_zone c7 = lcf_vel_zone c6" "lcf_fcrdns_zone c7 = lcf_fcrdns_zone c6"
    "lcf_zone c7 = lcf_zone c6" "lcf_cs_zone c7 = lcf_cs_zone c6"
    using assms(5) by (simp_all add: merge_actions_def Let_def)
  ultimately show "lcf_vel_zone c7 = lcf_vel_zone c2" "lcf_fcrdns_zone c7 = lcf_fcrdns_zone c2"
    "lcf_zone c7 = lcf_zone c2"
    "lcf_cs_zone c7 = merge_ptr_value (lcf_cs_zone c2) (lcf_cs_zone prev)"
    by (simp_all only:)
qed

lemma merge_fcrdns_Inr:
  assumes "merge_fcrdns m prev c = Inr c'"
  shows "resolve_zone (mcf_fcrdns_zones m) (lcf_fcrdns_zone_name c')
           (merge_ptr_value (lcf_fcrdns_zone c) (lcf_fcrdns_zone prev)) = Inr (lcf_fcrdns_zone c')"
    "lcf_vel_zone c' = lcf_vel_zone c" "lcf_zone c' = lcf_zone c" "lcf_cs_zone c' = lcf_cs_zone c"
  using assms by (auto simp: merge_fcrdns_def Let_def)

lemma merge_velocity_Inr:
  assumes "merge_velocity m prev c = Inr c'"
  shows "resolve_zone (mcf_vel_zones m) (lcf_vel_zone_name c')
           (merge_ptr_value (lcf_vel_zone c) (lcf_vel_zone prev)) = Inr (lcf_vel_zone c')"
    "lcf_fcrdns_zone c' = lcf_fcrdns_zone c" "lcf_zone c' = lcf_zone c" "lcf_cs_zone c' = lcf_cs_zone c"
  using assms by (auto simp: merge_velocity_def Let_def)

lemma merge_core_ptrs [simp]:
  "lcf_vel_zone (merge_core prev c) = lcf_vel_zone c"
  "lcf_fcrdns_zone (merge_core prev c) = lcf_fcrdns_zone c"
  "lcf_zone (merge_core prev c) = lcf_zone c"
  "lcf_cs_zone (merge_core prev c) = lcf_cs_zone c"
  by (simp_all add: merge_core_def)

text \<open>Before its merge a configuration's pointers may also be unset.\<close>

definition ptrs_pre :: "ngx_sentinel_main_conf \<Rightarrow> ngx_sentinel_loc_conf \<Rightarrow> bool" where
  "ptrs_pre m c \<longleftrightarrow>
     (\<forall>i. lcf_zone c = Some i \<longrightarrow> i < length (mcf_zones m)) \<and>
     (zone_ptr_ok (length (mcf_vel_zones m)) (lcf_vel_zone c) \<or> lcf_vel_zone c = ZUnset) \<and>
     (zone_ptr_ok (length (mcf_fcrdns_zones m)) (lcf_fcrdns_zone c) \<or> lcf_fcrdns_zone c = ZUnset) \<and>
     (zone_ptr_ok (length (mcf_cs_zones m)) (lcf_cs_zone c) \<or> lcf_cs_zone c = ZUnset)"

lemma ptrs_pre_merge:
  assumes "ptrs_pre m prev" "ptrs_pre m conf"
  shows "zone_ptr_ok (length (mcf_vel_zones m)) (merge_ptr_value (lcf_vel_zone conf) (lcf_vel_zone prev))"
    "zone_ptr_ok (length (mcf_fcrdns_zones m))
       (merge_ptr_value (lcf_fcrdns_zone conf) (lcf_fcrdns_zone prev))"
    "zone_ptr_ok (length (mcf_cs_zones m)) (merge_ptr_value (lcf_cs_zone conf) (lcf_cs_zone prev))"
  using assms by (auto simp: ptrs_pre_def intro!: merge_ptr_ok)

lemma merge_ptrs_ok:
  assumes "ngx_sentinel_merge_loc_conf ngx m prev conf = Inr (m', c)"
    and prev: "ptrs_pre m prev" and conf: "ptrs_pre m conf"
  shows "ptrs_ok m' c"
    and "lcf_cs_feed c \<noteq> [] \<or> lcf_redis_host c \<noteq> [] \<Longrightarrow> \<exists>i. lcf_cs_zone c = ZAt i"
proof -
  from assms(1) obtain c1 c2 c3 c4 c5 c6 c7 where
    f: "merge_fcrdns m prev (merge_core prev conf) = Inr c1"
    and v: "merge_velocity m prev c1 = Inr c2"
    and mid: "merge_crowdsec (pagesize ngx) prev (merge_lists prev c2) = Inr c3"
      "merge_redis prev c3 = Inr c4" "merge_cs_sink prev c4 = Inr c5"
      "merge_tarpit prev c5 = Inr c6" "merge_actions prev c6 = Inr c7"
    and z: "merge_zones m prev c7 = Inr (m', c)"
    unfolding ngx_sentinel_merge_loc_conf_def conf_then_Inr by blast
  note ptrs = merge_middle_ptrs [OF mid] merge_velocity_Inr(2-) [OF v] merge_fcrdns_Inr(2-) [OF f]
  from z obtain cz where
    b: "bind_cs_zone m (c7\<lparr>lcf_zone := bind_zone m (lcf_zone c7) (lcf_zone prev)\<rparr>) = Inr cz"
    and m': "m' = set_cs_interval (lcf_cs_stale_after c7) cz m"
    and c: "c = c7\<lparr>lcf_zone := bind_zone m (lcf_zone c7) (lcf_zone prev), lcf_cs_zone := cz\<rparr>"
    by (rule merge_zones_Inr)
  have "zone_ptr_ok (length (mcf_cs_zones m)) (lcf_cs_zone c7)"
    by (simp add: ptrs ptrs_pre_merge [OF prev conf])
  then have cz: "zone_ptr_ok (length (mcf_cs_zones m)) cz"
    using b by (auto simp: bind_cs_zone_def split: if_splits)
  have "zone_ptr_ok (length (mcf_vel_zones m)) (lcf_vel_zone c2)"
    by (rule resolve_zone_ok [OF merge_velocity_Inr(1) [OF v]])
      (simp add: ptrs ptrs_pre_merge [OF prev conf])
  moreover have "zone_ptr_ok (length (mcf_fcrdns_zones m)) (lcf_fcrdns_zone c1)"
    by (rule resolve_zone_ok [OF merge_fcrdns_Inr(1) [OF f]])
      (simp add: ptrs_pre_merge [OF prev conf])
  moreover have "\<forall>i. bind_zone m (lcf_zone c7) (lcf_zone prev) = Some i \<longrightarrow> i < length (mcf_zones m)"
    unfolding ptrs using prev conf
    by (auto simp: bind_zone_def merge_null_def ptrs_pre_def Let_def)
  ultimately show "ptrs_ok m' c"
    using cz by (simp add: ptrs_ok_def m' c ptrs)
  show "\<exists>i. lcf_cs_zone c = ZAt i" if "lcf_cs_feed c \<noteq> [] \<or> lcf_redis_host c \<noteq> []"
    using that b cz by (cases cz) (auto simp: c bind_cs_zone_def split: if_splits)
qed

text \<open>The switches, thresholds and weights are settled by the first stage.\<close>

definition core_view :: "ngx_sentinel_loc_conf \<Rightarrow>
  int \<times> int \<times> int \<times> ngx_sentinel_threshold \<times> ngx_sentinel_weights" where
  "core_view c = (lcf_enabled c, lcf_shadow c, lcf_fail_open c, lcf_threshold c, lcf_weights c)"

lemma merge_stages_core_view:
  "merge_fcrdns m prev c = Inr c' \<Longrightarrow> core_view c' = core_view c"
  "merge_velocity m prev c = Inr c' \<Longrightarrow> core_view c' = core_view c"
  "merge_crowdsec ps prev (merge_lists prev c) = Inr c' \<Longrightarrow> core_view c' = core_view c"
  "merge_redis prev c = Inr c' \<Longrightarrow> core_view c' = core_view c"
  "merge_cs_sink prev c = Inr c' \<Longrightarrow> core_view c' = core_view c"
  "merge_tarpit prev c = Inr c' \<Longrightarrow> core_view c' = core_view c"
  "merge_actions prev c = Inr c' \<Longrightarrow> core_view c' = core_view c"
  by (auto simp: core_view_def merge_fcrdns_def merge_velocity_def merge_crowdsec_def
      merge_lists_def merge_redis_def merge_cs_sink_def merge_tarpit_def merge_actions_def Let_def)

lemma merge_zones_core_view:
  assumes "merge_zones m prev c = Inr (m', c')"
  shows "core_view c' = core_view c"
  using assms by (rule merge_zones_Inr) (simp add: core_view_def)

lemma merge_core_view:
  assumes "ngx_sentinel_merge_loc_conf ngx m prev conf = Inr (m', c)"
  shows "core_view c = core_view (merge_core prev conf)"
  using assms merge_stages_core_view merge_zones_core_view
  unfolding ngx_sentinel_merge_loc_conf_def conf_then_Inr by metis

subsection \<open>Defaults\<close>

definition default_threshold :: ngx_sentinel_threshold where
  "default_threshold = \<lparr>thr_challenge = 30, thr_tarpit = 60, thr_block = 80\<rparr>"

definition default_weights :: ngx_sentinel_weights where
  "default_weights =
     \<lparr>w_errrate = 1, w_blocked = 100, w_scanner = 50, w_bot = 30, w_header = 25,
      w_honeypot = 90, w_velocity = 30, w_asn = 35, w_coherence = 40, w_ja3 = 80,
      w_ja4 = 50, w_ja4t = 45, w_c2ip = 80, w_crowdsec = 100\<rparr>"

definition default_loc_conf :: ngx_sentinel_loc_conf where
  "default_loc_conf =
     \<lparr>lcf_enabled = 0, lcf_shadow = 1, lcf_fail_open = 1,
      lcf_zone = None, lcf_vel_zone = ZNull, lcf_vel_zone_name = [],
      lcf_threshold = default_threshold, lcf_weights = default_weights,
      lcf_decoy_paths = [], lcf_allow_cidrs = [], lcf_asn_source = None, lcf_asn_list = [],
      lcf_ja3_source = None, lcf_ja3_list = [], lcf_ja4_source = None, lcf_ja4_list = [],
      lcf_ja4t_source = None, lcf_ja4t_list = [], lcf_c2ip_tree = None, lcf_c2ip_tree6 = None,
      lcf_cs_zone = ZNull, lcf_cs_feed = [], lcf_cs_interval = 10,
      lcf_cs_default_ttl = 3600, lcf_cs_stale_after = 600, lcf_cs_max_bytes = 16777216,
      lcf_fcrdns_zone = ZNull, lcf_fcrdns_zone_name = [], lcf_fcrdns_ttl = 3600,
      lcf_fcrdns_suffixes = [],
      lcf_redis_host = [], lcf_redis_port = 6379, lcf_redis_password = Some [],
      lcf_redis_prefix = Some ''sentinel'', lcf_redis_interval = 10,
      lcf_redis_ttl = 3600, lcf_redis_push_zone = None,
      lcf_cs_sink_path = [], lcf_cs_sink_interval = 10,
      lcf_cs_sink_ttl = 3600, lcf_cs_sink_scenario = Some ''sentinel/http-abuse'',
      lcf_cs_sink_zone = None,
      lcf_tarpit_max_conns = 256, lcf_tarpit_delay = 5000,
      lcf_tarpit_bytes = 1024, lcf_tarpit_max_lifetime = 30000,
      lcf_tarpit_maze = 0, lcf_block_status = 403,
      lcf_block_ttl = 0, lcf_throttle_rate = 0,
      lcf_shield = 0, lcf_pow_enabled = 0, lcf_pow_secret = Some [],
      lcf_pow_difficulty = 16, lcf_pow_ttl = 3600\<rparr>"

lemma merge_unset_defaults:
  assumes "pagesize ngx \<le> 16777216"
  shows "ngx_sentinel_merge_loc_conf ngx ngx_sentinel_create_main_conf
      ngx_sentinel_create_loc_conf ngx_sentinel_create_loc_conf
    = Inr (ngx_sentinel_create_main_conf, default_loc_conf)"
  using assms
  by (simp add: ngx_sentinel_merge_loc_conf_def merge_core_def merge_fcrdns_def merge_velocity_def
      merge_lists_def merge_crowdsec_def merge_redis_def merge_cs_sink_def merge_tarpit_def
      merge_actions_def merge_zones_def conf_then_def conf_check_def resolve_zone_def
      bind_cs_zone_def bind_zone_def merge_null_def merge_list_def merge_value_def
      merge_size_value_def merge_ptr_value_def merge_str_value_def merge_weights_def
      merge_threshold_def ngx_sentinel_create_loc_conf_def ngx_sentinel_create_main_conf_def
      default_loc_conf_def default_weights_def default_threshold_def unset_weights_def
      NGX_CONF_UNSET_def NGX_CONF_UNSET_SIZE_def NGX_SENTINEL_SCORE_MAX_def Let_def)

lemma unknown_zone_Inl:
  assumes "find_zone zs nm = None" "nm \<noteq> []"
  shows "resolve_zone zs nm z = Inl CONF_ERROR"
  using assms by (simp add: resolve_zone_def)

subsection \<open>Properties\<close>

text \<open>
  A location that the merge accepts is safe to serve. Every numeric setting is in its
  documented range, every zone pointer is \<open>NULL\<close> or points into the array of its kind (none is
  left unset), and a location with a CrowdSec feed or Redis has a CrowdSec zone.
\<close>

theorem merged_conf_is_valid:
  assumes "ngx_sentinel_merge_loc_conf ngx m prev conf = Inr (m', c)"
    and "ptrs_pre m prev" and "ptrs_pre m conf"
  shows "ranges_ok ngx c \<and> ptrs_ok m' c \<and>
    (lcf_cs_feed c \<noteq> [] \<or> lcf_redis_host c \<noteq> [] \<longrightarrow> (\<exists>i. lcf_cs_zone c = ZAt i))"
  using merge_ranges_ok [OF assms(1)] merge_ptrs_ok [OF assms] by blast

theorem merged_conf_is_valid_witness:
  "ranges_ok ngx_shim default_loc_conf \<and> ptrs_ok ngx_sentinel_create_main_conf default_loc_conf"
proof -
  have "ptrs_pre ngx_sentinel_create_main_conf ngx_sentinel_create_loc_conf"
    by (simp add: ptrs_pre_def ngx_sentinel_create_loc_conf_def)
  moreover have "ngx_sentinel_merge_loc_conf ngx_shim ngx_sentinel_create_main_conf
      ngx_sentinel_create_loc_conf ngx_sentinel_create_loc_conf
    = Inr (ngx_sentinel_create_main_conf, default_loc_conf)"
    by (rule merge_unset_defaults) (simp add: ngx_shim_def)
  ultimately show ?thesis using merged_conf_is_valid by blast
qed

text \<open>
  A location that sets nothing, below a parent that sets nothing, gets the documented
  defaults: the module off, shadow mode, fail open, thresholds 30/60/80, the default weights,
  no zone, no feed, 403 for a block.
\<close>

theorem unset_location_gets_defaults:
  assumes "pagesize ngx \<le> 16777216"
  shows "ngx_sentinel_merge_loc_conf ngx ngx_sentinel_create_main_conf
      ngx_sentinel_create_loc_conf ngx_sentinel_create_loc_conf
    = Inr (ngx_sentinel_create_main_conf, default_loc_conf)"
  using assms by (rule merge_unset_defaults)

theorem unset_location_gets_defaults_witness:
  "ngx_sentinel_merge_loc_conf ngx_shim ngx_sentinel_create_main_conf
      ngx_sentinel_create_loc_conf ngx_sentinel_create_loc_conf
    = Inr (ngx_sentinel_create_main_conf, default_loc_conf)"
  by (rule unset_location_gets_defaults) (simp add: ngx_shim_def)



text \<open>
  Whatever sequence of zone directives and location merges is accepted, every
  error-rate and velocity zone has a positive threshold, window and block time, and every
  CrowdSec and FCrDNS zone has threshold zero (its nodes carry no event ring).
\<close>

theorem declared_zones_are_ok:
  assumes "main_conf_reachable ngx m"
  shows "main_conf_ok m"
  using assms by (rule main_conf_reachable_ok)

theorem declared_zones_are_ok_witness:
  "main_conf_ok (ngx_sentinel_create_main_conf\<lparr>mcf_zones := [new_zone ''z'' 300 3600 64]\<rparr>)"
proof -
  have "ngx_sentinel_set_zone ngx_shim ''z:8192'' ngx_sentinel_create_main_conf
      = Inr (ngx_sentinel_create_main_conf\<lparr>mcf_zones := [new_zone ''z'' 300 3600 64]\<rparr>)"
    by (simp add: ngx_sentinel_set_zone_def parse_name_size_def ngx_shim_def shim_atoi_def
        byte_of_def conf_then_def conf_check_def ngx_sentinel_create_main_conf_def
        NGX_SENTINEL_MAX_WINDOW_EVENTS_def)
  from declared_zones_are_ok [OF main_conf_reachable.zone [OF main_conf_reachable.create this]]
  show ?thesis .
qed

text \<open>
  A location bound to a velocity zone that no directive declares is refused, even
  when its parent is bound to a zone that exists: an unknown name never falls back to the
  parent's zone.
\<close>

theorem unknown_velocity_zone_is_refused:
  assumes "lcf_vel_zone_name conf \<noteq> []"
    and "find_zone (mcf_vel_zones m) (lcf_vel_zone_name conf) = None"
  shows "ngx_sentinel_merge_loc_conf ngx m prev conf = Inl CONF_ERROR"
proof (cases "merge_fcrdns m prev (merge_core prev conf)")
  case (Inl e)
  then show ?thesis
    by (cases e) (auto simp: ngx_sentinel_merge_loc_conf_def conf_then_def merge_fcrdns_def
        resolve_zone_def Let_def split: if_splits option.splits)
next
  case (Inr c1)
  then have "lcf_vel_zone_name c1 = lcf_vel_zone_name conf"
    by (auto simp: merge_fcrdns_def merge_core_def Let_def)
  then have "merge_velocity m prev c1 = Inl CONF_ERROR"
    using assms by (simp add: merge_velocity_def unknown_zone_Inl conf_then_def Let_def)
  then show ?thesis by (simp add: ngx_sentinel_merge_loc_conf_def Inr conf_then_def)
qed

theorem unknown_velocity_zone_is_refused_witness:
  "ngx_sentinel_merge_loc_conf ngx_shim ngx_sentinel_create_main_conf default_loc_conf
     (ngx_sentinel_create_loc_conf\<lparr>lcf_vel_zone_name := ''v''\<rparr>) = Inl CONF_ERROR"
  by (rule unknown_velocity_zone_is_refused) (simp_all add: ngx_sentinel_create_main_conf_def)

end
