(* ===== verification/Sentinel_Shm.thy ===== *)
theory Sentinel_Shm
  imports Sentinel_Conf
begin

text \<open>
  The shared-memory zone (\<^verbatim>\<open>src/sentinel_shm.c\<close>): an rbtree of nodes ordered by hash and key
  bytes, an LRU queue over the same nodes and the slab pool that owns them. The operations
  work on the locked context; the public functions test for a missing zone first. The lemmas
  show that the structure is kept well formed by every operation, and that it implements a
  plain list of nodes with distinct keys, most recently used first.
\<close>

subsection \<open>Helpers\<close>

text \<open>\<open>ngx_align(d, 8)\<close> at the width of \<open>size_t\<close>.\<close>

definition ngx_align8 :: "64 word \<Rightarrow> 64 word" where
  "ngx_align8 d = and (d + 7) (not 7)"

definition sentinel_events_offset :: "ngx_api \<Rightarrow> nat \<Rightarrow> 64 word" where
  "sentinel_events_offset ngx key_len = ngx_align8 (node_data_offset ngx + of_nat key_len)"

text \<open>\<open>n->key_len\<close> is an \<open>unsigned short\<close>: the bytes a node's key is compared with.\<close>

definition key_bytes :: "string \<Rightarrow> string" where
  "key_bytes key = take (length key mod 2 ^ 16) key"

definition node_of :: "ngx_sentinel_shctx \<Rightarrow> slab_addr \<Rightarrow> ngx_sentinel_node" where
  "node_of sh a = the (sh_mem sh a)"

definition update_node ::
  "slab_addr \<Rightarrow> (ngx_sentinel_node \<Rightarrow> ngx_sentinel_node) \<Rightarrow> ngx_sentinel_shctx \<Rightarrow> ngx_sentinel_shctx" where
  "update_node a f sh = sh\<lparr>sh_mem := (sh_mem sh)(a \<mapsto> f (node_of sh a))\<rparr>"

text \<open>Unlink a node from the queue and the tree and free it.\<close>

definition remove_node :: "ngx_api \<Rightarrow> slab_addr \<Rightarrow> ngx_sentinel_shctx \<Rightarrow> ngx_sentinel_shctx" where
  "remove_node ngx a sh =
     sh\<lparr>sh_queue := remove1 a (sh_queue sh),
        sh_tree := rb_delete ngx (sh_tree sh) a,
        sh_mem := (sh_mem sh)(a := None)\<rparr>"

fun sentinel_shm_expire ::
  "ngx_api \<Rightarrow> int \<Rightarrow> int \<Rightarrow> nat \<Rightarrow> ngx_sentinel_shctx \<Rightarrow> ngx_sentinel_shctx" where
  "sentinel_shm_expire ngx interval now 0 sh = sh"
| "sentinel_shm_expire ngx interval now (Suc batch) sh =
     (if sh_queue sh = [] then sh
      else
        let a = last (sh_queue sh);
            n = node_of sh a
        in if blocked_until n > now then sh
           else if now - last_seen n < interval then sh
           else sentinel_shm_expire ngx interval now batch (remove_node ngx a sh))"

definition sentinel_shm_touch :: "slab_addr \<Rightarrow> ngx_sentinel_shctx \<Rightarrow> ngx_sentinel_shctx" where
  "sentinel_shm_touch a sh = sh\<lparr>sh_queue := a # remove1 a (sh_queue sh)\<rparr>"

text \<open>The compaction loop of \<open>sentinel_shm_prune\<close>: iteration \<open>i\<close> of \<open>n\<close>, with \<open>keep\<close> entries kept
  so far; it reads and writes the same ring.\<close>

fun prune_loop :: "int \<Rightarrow> nat \<Rightarrow> nat \<Rightarrow> nat \<Rightarrow> nat \<Rightarrow> nat \<Rightarrow> int list \<Rightarrow> nat \<times> int list" where
  "prune_loop cutoff threshold head 0 i keep events = (keep, events)"
| "prune_loop cutoff threshold head (Suc n) i keep events =
     (let ts = events ! ((head + i) mod threshold)
      in if ts > cutoff
         then prune_loop cutoff threshold head n (Suc i) (Suc keep) (events[keep := ts])
         else prune_loop cutoff threshold head n (Suc i) keep events)"

definition sentinel_shm_prune :: "int \<Rightarrow> nat \<Rightarrow> int \<Rightarrow> ngx_sentinel_node \<Rightarrow> ngx_sentinel_node" where
  "sentinel_shm_prune interval threshold now n =
     (let cutoff = now - interval;
          (keep, events) = prune_loop cutoff threshold (event_head n) (event_count n) 0 0 (node_events n)
      in n\<lparr>node_events := events, event_head := 0, event_count := keep\<rparr>)"

subsection \<open>Tree search\<close>

fun tree_lookup :: "ngx_api \<Rightarrow> (slab_addr \<Rightarrow> ngx_sentinel_node option) \<Rightarrow> 32 word \<Rightarrow> string \<Rightarrow>
    slab_addr tree \<Rightarrow> slab_addr option" where
  "tree_lookup ngx mem hash key Leaf = None"
| "tree_lookup ngx mem hash key (Node l a r) =
     (let n = the (mem a)
      in if hash < node_hash n then tree_lookup ngx mem hash key l
         else if hash > node_hash n then tree_lookup ngx mem hash key r
         else
           let rc = memn2cmp ngx key (node_key n)
           in if rc = 0 then Some a
              else if rc < 0 then tree_lookup ngx mem hash key l
              else tree_lookup ngx mem hash key r)"

definition sentinel_shm_lookup ::
  "ngx_api \<Rightarrow> 32 word \<Rightarrow> string \<Rightarrow> ngx_sentinel_shctx \<Rightarrow> slab_addr option" where
  "sentinel_shm_lookup ngx hash key sh = tree_lookup ngx (sh_mem sh) hash key (sh_tree sh)"

fun sentinel_shm_rbtree_insert :: "ngx_api \<Rightarrow> (slab_addr \<Rightarrow> ngx_sentinel_node option) \<Rightarrow>
    slab_addr \<Rightarrow> slab_addr tree \<Rightarrow> slab_addr tree" where
  "sentinel_shm_rbtree_insert ngx mem a Leaf = Node Leaf a Leaf"
| "sentinel_shm_rbtree_insert ngx mem a (Node l t r) =
     (let n = the (mem a); nt = the (mem t)
      in if node_hash n < node_hash nt then Node (sentinel_shm_rbtree_insert ngx mem a l) t r
         else if node_hash n > node_hash nt then Node l t (sentinel_shm_rbtree_insert ngx mem a r)
         else
           let rc = memn2cmp ngx (node_key n) (node_key nt)
           in if rc < 0 then Node (sentinel_shm_rbtree_insert ngx mem a l) t r
              else Node l t (sentinel_shm_rbtree_insert ngx mem a r))"

text \<open>Link a new node into the tree (\<open>ngx_rbtree_insert\<close>: the module's descent, then
  rebalancing) and at the head of the queue.\<close>

definition link_node ::
  "ngx_api \<Rightarrow> slab_addr \<Rightarrow> ngx_sentinel_node \<Rightarrow> ngx_sentinel_shctx \<Rightarrow> ngx_sentinel_shctx" where
  "link_node ngx a n sh =
     (let mem = (sh_mem sh)(a \<mapsto> n)
      in sh\<lparr>sh_mem := mem,
            sh_tree := rb_fixup ngx (sentinel_shm_rbtree_insert ngx mem a (sh_tree sh)),
            sh_queue := a # sh_queue sh\<rparr>)"

definition new_node :: "32 word \<Rightarrow> string \<Rightarrow> int \<Rightarrow> nat \<Rightarrow> ngx_sentinel_node" where
  "new_node hash key now threshold =
     \<lparr>node_hash = hash, node_key = key_bytes key, blocked_until = 0, last_seen = now,
      event_head = 0, event_count = 0, node_generation = 0, cs_action = CS_NONE,
      redis_pulled = False, node_events = replicate threshold 0\<rparr>"

definition create_node_size :: "ngx_api \<Rightarrow> nat \<Rightarrow> nat \<Rightarrow> 64 word" where
  "create_node_size ngx threshold key_len =
     sentinel_events_offset ngx (key_len mod 2 ^ 16) + of_nat threshold * 8"

definition sentinel_shm_create_node :: "ngx_api \<Rightarrow> nat \<Rightarrow> 32 word \<Rightarrow> string \<Rightarrow> int \<Rightarrow>
    ngx_sentinel_shctx \<Rightarrow> (slab_addr \<times> ngx_sentinel_shctx) option" where
  "sentinel_shm_create_node ngx threshold hash key now sh =
     (case slab_calloc ngx sh (create_node_size ngx threshold (length key)) of
        None \<Rightarrow> None
      | Some a \<Rightarrow> Some (a, link_node ngx a (new_node hash key now threshold) sh))"

subsection \<open>Zones\<close>

text \<open>\<open>ngx_rbtree_init\<close> and \<open>ngx_queue_init\<close>, generation zero.\<close>

definition fresh_shctx :: ngx_sentinel_shctx where
  "fresh_shctx = \<lparr>sh_tree = Leaf, sh_queue = [], sh_mem = Map.empty, sh_generation = 0\<rparr>"

text \<open>A reload reuses the old zone's context (\<open>old\<close>), an inherited segment the one its pool
  points to (\<open>pool_data\<close>), and a new segment gets a fresh context if the two allocations
  (\<open>alloc_sh\<close>, \<open>alloc_log\<close>) succeed.\<close>

definition sentinel_shm_init_zone ::
  "ngx_sentinel_zone option \<Rightarrow> ngx_sentinel_shctx option \<Rightarrow> bool \<Rightarrow> bool \<Rightarrow> bool \<Rightarrow>
   ngx_sentinel_zone \<Rightarrow> ngx_rc \<times> ngx_sentinel_zone" where
  "sentinel_shm_init_zone old pool_data shm_exists alloc_sh alloc_log zone =
     (case old of
        Some o' \<Rightarrow> (NGX_OK, zone\<lparr>zone_sh := zone_sh o'\<rparr>)
      | None \<Rightarrow>
          if shm_exists then (NGX_OK, zone\<lparr>zone_sh := pool_data\<rparr>)
          else if \<not> alloc_sh then (NGX_ERROR, zone\<lparr>zone_sh := None\<rparr>)
          else if \<not> alloc_log then (NGX_ERROR, zone\<lparr>zone_sh := Some fresh_shctx\<rparr>)
          else (NGX_OK, zone\<lparr>zone_sh := Some fresh_shctx\<rparr>))"

text \<open>Run a locked operation on a zone's context; \<open>NULL\<close> anywhere gives the error result.\<close>

definition on_zone :: "'r \<Rightarrow> (ngx_sentinel_zone \<Rightarrow> ngx_sentinel_shctx \<Rightarrow> 'r \<times> ngx_sentinel_shctx) \<Rightarrow>
    ngx_sentinel_zone option \<Rightarrow> 'r \<times> ngx_sentinel_zone option" where
  "on_zone err f zone =
     (case zone of
        None \<Rightarrow> (err, None)
      | Some z \<Rightarrow>
          (case zone_sh z of
             None \<Rightarrow> (err, Some z)
           | Some sh \<Rightarrow> (case f z sh of (res, sh') \<Rightarrow> (res, Some (z\<lparr>zone_sh := Some sh'\<rparr>)))))"

subsection \<open>Error rate\<close>

text \<open>The result of a lookup or a record: the code, \<open>*count\<close> and \<open>*blocked_until\<close>.\<close>

type_synonym errrate_result = "ngx_rc \<times> nat \<times> int"

definition errrate_lookup_locked :: "ngx_api \<Rightarrow> string \<Rightarrow> int \<Rightarrow> ngx_sentinel_zone \<Rightarrow>
    ngx_sentinel_shctx \<Rightarrow> errrate_result \<times> ngx_sentinel_shctx" where
  "errrate_lookup_locked ngx key now z sh =
     (let hash = crc32_short ngx key;
          sh = sentinel_shm_expire ngx (zone_interval z) now NGX_SENTINEL_EXPIRE_BATCH sh
      in case sentinel_shm_lookup ngx hash key sh of
           None \<Rightarrow> ((NGX_OK, 0, 0), sh)
         | Some a \<Rightarrow>
             (let sh = update_node a (\<lambda>n. n\<lparr>last_seen := now\<rparr>) (sentinel_shm_touch a sh);
                  n = node_of sh a
              in if blocked_until n > now
                 then ((NGX_BUSY, zone_threshold z, blocked_until n), sh)
                 else
                   let sh = (if blocked_until n \<noteq> 0
                             then update_node a
                                    (\<lambda>n. n\<lparr>blocked_until := 0, event_head := 0, event_count := 0\<rparr>) sh
                             else update_node a
                                    (sentinel_shm_prune (zone_interval z) (zone_threshold z) now) sh)
                   in ((NGX_OK, event_count (node_of sh a), 0), sh)))"

definition sentinel_shm_errrate_lookup :: "ngx_api \<Rightarrow> ngx_sentinel_zone option \<Rightarrow> string \<Rightarrow> int \<Rightarrow>
    errrate_result \<times> ngx_sentinel_zone option" where
  "sentinel_shm_errrate_lookup ngx zone key now =
     on_zone (NGX_ERROR, 0, 0) (errrate_lookup_locked ngx key now) zone"

text \<open>The node an operation works on: the existing one, moved to the LRU head, or a new one.\<close>

definition find_or_create :: "ngx_api \<Rightarrow> nat \<Rightarrow> string \<Rightarrow> int \<Rightarrow> ngx_sentinel_shctx \<Rightarrow>
    (slab_addr \<times> ngx_sentinel_shctx) option" where
  "find_or_create ngx threshold key now sh =
     (let hash = crc32_short ngx key
      in case sentinel_shm_lookup ngx hash key sh of
           None \<Rightarrow> sentinel_shm_create_node ngx threshold hash key now sh
         | Some a \<Rightarrow> Some (a, sentinel_shm_touch a sh))"

text \<open>What \<open>errrate_record\<close> does to a node that is not blocked: drop a lapsed block, prune the
  window, append the event, block when the ring is full.\<close>

definition record_event :: "int \<Rightarrow> int \<Rightarrow> nat \<Rightarrow> int \<Rightarrow> ngx_sentinel_node \<Rightarrow> ngx_sentinel_node" where
  "record_event interval block threshold now n =
     (let n = (if blocked_until n \<noteq> 0
               then n\<lparr>blocked_until := 0, event_head := 0, event_count := 0\<rparr> else n);
          n = sentinel_shm_prune interval threshold now n;
          idx = (event_head n + event_count n) mod threshold;
          n = n\<lparr>node_events := (node_events n)[idx := now], event_count := event_count n + 1\<rparr>
      in if event_count n \<ge> threshold
         then n\<lparr>blocked_until := now + block, event_head := 0, event_count := 0\<rparr> else n)"

definition errrate_record_locked :: "ngx_api \<Rightarrow> string \<Rightarrow> int \<Rightarrow> ngx_sentinel_zone \<Rightarrow>
    ngx_sentinel_shctx \<Rightarrow> errrate_result \<times> ngx_sentinel_shctx" where
  "errrate_record_locked ngx key now z sh =
     (let sh = sentinel_shm_expire ngx (zone_interval z) now NGX_SENTINEL_EXPIRE_BATCH sh
      in case find_or_create ngx (zone_threshold z) key now sh of
           None \<Rightarrow> ((NGX_ERROR, 0, 0), sh)
         | Some (a, sh) \<Rightarrow>
             (let sh = update_node a (\<lambda>n. n\<lparr>last_seen := now\<rparr>) sh;
                  n = node_of sh a
              in if blocked_until n > now
                 then ((NGX_BUSY, zone_threshold z, blocked_until n), sh)
                 else
                   let sh = update_node a
                         (record_event (zone_interval z) (zone_block z) (zone_threshold z) now) sh;
                       n = node_of sh a
                   in ((if blocked_until n > now then NGX_BUSY else NGX_OK,
                        if blocked_until n > now then zone_threshold z else event_count n,
                        blocked_until n), sh)))"

definition sentinel_shm_errrate_record :: "ngx_api \<Rightarrow> ngx_sentinel_zone option \<Rightarrow> string \<Rightarrow> int \<Rightarrow>
    errrate_result \<times> ngx_sentinel_zone option" where
  "sentinel_shm_errrate_record ngx zone key now =
     on_zone (NGX_ERROR, 0, 0) (errrate_record_locked ngx key now) zone"

definition softban_set_locked :: "ngx_api \<Rightarrow> string \<Rightarrow> int \<Rightarrow> int \<Rightarrow> ngx_sentinel_zone \<Rightarrow>
    ngx_sentinel_shctx \<Rightarrow> ngx_rc \<times> ngx_sentinel_shctx" where
  "softban_set_locked ngx key now ttl z sh =
     (if ttl \<le> 0 then (NGX_ERROR, sh)
      else
        let sh = sentinel_shm_expire ngx (zone_interval z) now NGX_SENTINEL_EXPIRE_BATCH sh
        in case find_or_create ngx (zone_threshold z) key now sh of
             None \<Rightarrow> (NGX_ERROR, sh)
           | Some (a, sh) \<Rightarrow>
               (NGX_OK, update_node a
                  (\<lambda>n. n\<lparr>last_seen := now, blocked_until := now + ttl,
                         event_head := 0, event_count := 0\<rparr>) sh))"

definition sentinel_shm_softban_set :: "ngx_api \<Rightarrow> ngx_sentinel_zone option \<Rightarrow> string \<Rightarrow> int \<Rightarrow> int \<Rightarrow>
    ngx_rc \<times> ngx_sentinel_zone option" where
  "sentinel_shm_softban_set ngx zone key now ttl =
     on_zone NGX_ERROR (softban_set_locked ngx key now ttl) zone"

subsection \<open>CrowdSec ban table\<close>

definition sentinel_shm_crowdsec_create :: "ngx_api \<Rightarrow> 32 word \<Rightarrow> string \<Rightarrow> int \<Rightarrow>
    ngx_sentinel_shctx \<Rightarrow> (slab_addr \<times> ngx_sentinel_shctx) option" where
  "sentinel_shm_crowdsec_create ngx hash key now sh =
     (case slab_calloc ngx sh (node_sizeof ngx + of_nat (length key)) of
        None \<Rightarrow> None
      | Some a \<Rightarrow> Some (a, link_node ngx a (new_node hash key now 0) sh))"

text \<open>A caller of \<open>upsert\<close> and \<open>sweep\<close> holds the lock. \<open>upsert_node\<close> is the store part.\<close>

definition upsert_node :: "ngx_api \<Rightarrow> string \<Rightarrow> int \<Rightarrow> ngx_sentinel_shctx \<Rightarrow>
    (slab_addr \<times> ngx_sentinel_shctx) option" where
  "upsert_node ngx key now sh =
     (let hash = crc32_short ngx key
      in case sentinel_shm_lookup ngx hash key sh of
           None \<Rightarrow> sentinel_shm_crowdsec_create ngx hash key now sh
         | Some a \<Rightarrow> Some (a, sentinel_shm_touch a sh))"

definition crowdsec_upsert_locked :: "ngx_api \<Rightarrow> string \<Rightarrow> int \<Rightarrow> cs_action_tier \<Rightarrow> 64 word \<Rightarrow> int \<Rightarrow>
    bool \<Rightarrow> ngx_sentinel_shctx \<Rightarrow> ngx_rc \<times> ngx_sentinel_shctx" where
  "crowdsec_upsert_locked ngx key expiry action generation now pulled sh =
     (case upsert_node ngx key now sh of
        None \<Rightarrow> (NGX_ERROR, sh)
      | Some (a, sh) \<Rightarrow>
          (NGX_OK, update_node a
             (\<lambda>n. n\<lparr>blocked_until := expiry, cs_action := action, node_generation := generation,
                    redis_pulled := pulled, last_seen := now\<rparr>) sh))"

definition sentinel_shm_crowdsec_upsert :: "ngx_api \<Rightarrow> ngx_sentinel_zone option \<Rightarrow> string \<Rightarrow> int \<Rightarrow>
    cs_action_tier \<Rightarrow> 64 word \<Rightarrow> int \<Rightarrow> bool \<Rightarrow> ngx_rc \<times> ngx_sentinel_zone option" where
  "sentinel_shm_crowdsec_upsert ngx zone key expiry action generation now pulled =
     on_zone NGX_ERROR
       (\<lambda>z. crowdsec_upsert_locked ngx key expiry action generation now pulled) zone"

text \<open>The walk from the queue's tail; \<open>q\<close> are the nodes still to visit, tail first.\<close>

fun sweep_loop :: "ngx_api \<Rightarrow> 64 word \<Rightarrow> nat \<Rightarrow> slab_addr list \<Rightarrow> nat \<Rightarrow> ngx_sentinel_shctx \<Rightarrow>
    nat \<times> ngx_sentinel_shctx" where
  "sweep_loop ngx generation batch [] deleted sh = (deleted, sh)"
| "sweep_loop ngx generation batch (a # q) deleted sh =
     (if deleted < batch then
        if node_generation (node_of sh a) \<noteq> generation
        then sweep_loop ngx generation batch q (deleted + 1) (remove_node ngx a sh)
        else sweep_loop ngx generation batch q deleted sh
      else (deleted, sh))"

definition sentinel_shm_crowdsec_sweep :: "ngx_api \<Rightarrow> ngx_sentinel_zone option \<Rightarrow> 64 word \<Rightarrow> nat \<Rightarrow>
    nat \<times> ngx_sentinel_zone option" where
  "sentinel_shm_crowdsec_sweep ngx zone generation batch =
     on_zone 0 (\<lambda>z sh. sweep_loop ngx generation batch (rev (sh_queue sh)) 0 sh) zone"

definition crowdsec_lookup_locked :: "ngx_api \<Rightarrow> string \<Rightarrow> int \<Rightarrow> ngx_sentinel_zone \<Rightarrow>
    ngx_sentinel_shctx \<Rightarrow> (ngx_rc \<times> cs_action_tier) \<times> ngx_sentinel_shctx" where
  "crowdsec_lookup_locked ngx key now z sh =
     (let hash = crc32_short ngx key;
          sh = sentinel_shm_expire ngx (zone_interval z) now NGX_SENTINEL_EXPIRE_BATCH sh
      in case sentinel_shm_lookup ngx hash key sh of
           None \<Rightarrow> ((NGX_OK, CS_NONE), sh)
         | Some a \<Rightarrow>
             (let n = node_of sh a;
                  sh' = update_node a (\<lambda>n. n\<lparr>last_seen := now\<rparr>) (sentinel_shm_touch a sh)
              in if blocked_until n \<le> now then ((NGX_OK, CS_NONE), sh')
                 else ((NGX_BUSY, cs_action n), sh')))"

definition sentinel_shm_crowdsec_lookup :: "ngx_api \<Rightarrow> ngx_sentinel_zone option \<Rightarrow> string \<Rightarrow> int \<Rightarrow>
    (ngx_rc \<times> cs_action_tier) \<times> ngx_sentinel_zone option" where
  "sentinel_shm_crowdsec_lookup ngx zone key now =
     on_zone (NGX_ERROR, CS_NONE) (crowdsec_lookup_locked ngx key now) zone"

subsection \<open>The order of the tree\<close>

definition node_less :: "ngx_api \<Rightarrow> ngx_sentinel_node \<Rightarrow> ngx_sentinel_node \<Rightarrow> bool" where
  "node_less ngx m n \<longleftrightarrow>
     node_hash m < node_hash n \<or>
     node_hash m = node_hash n \<and> memn2cmp ngx (node_key m) (node_key n) < 0"

abbreviation mem_less :: "ngx_api \<Rightarrow> (slab_addr \<Rightarrow> ngx_sentinel_node option) \<Rightarrow> slab_addr \<Rightarrow> slab_addr \<Rightarrow> bool" where
  "mem_less ngx mem a b \<equiv> node_less ngx (the (mem a)) (the (mem b))"

lemma memn2cmp_simps:
  assumes "memn2cmp_laws ngx"
  shows "memn2cmp ngx a b = 0 \<longleftrightarrow> a = b" "memn2cmp ngx a b < 0 \<longleftrightarrow> 0 < memn2cmp ngx b a"
    "memn2cmp ngx a b < 0 \<Longrightarrow> memn2cmp ngx b c < 0 \<Longrightarrow> memn2cmp ngx a c < 0"
  using assms unfolding memn2cmp_laws_def by blast+

lemma node_less_irrefl: "memn2cmp_laws ngx \<Longrightarrow> \<not> node_less ngx n n"
  by (auto simp: node_less_def dest: memn2cmp_simps(1) [THEN iffD2, of _ "node_key n" "node_key n"])

lemma node_less_trans:
  "memn2cmp_laws ngx \<Longrightarrow> node_less ngx l m \<Longrightarrow> node_less ngx m n \<Longrightarrow> node_less ngx l n"
  unfolding node_less_def using memn2cmp_simps(3) by (metis order_less_trans)

lemma node_less_total:
  assumes "memn2cmp_laws ngx"
  shows "node_less ngx m n \<or> node_less ngx n m \<or> node_hash m = node_hash n \<and> node_key m = node_key n"
  using memn2cmp_simps(1,2) [OF assms] unfolding node_less_def
  by (metis linorder_less_linear)

lemma tree_lookup_Some:
  assumes laws: "memn2cmp_laws ngx"
    and "sorted_wrt (mem_less ngx mem) (inorder t)"
  shows "tree_lookup ngx mem hash key t = Some a \<longleftrightarrow>
    a \<in> set_tree t \<and> node_hash (the (mem a)) = hash \<and> node_key (the (mem a)) = key"
  using assms(2)
proof (induction t)
  case (Node l x r)
  let ?n = "the (mem x)"
  have l: "\<And>b. b \<in> set_tree l \<Longrightarrow> node_less ngx (the (mem b)) ?n"
    and r: "\<And>b. b \<in> set_tree r \<Longrightarrow> node_less ngx ?n (the (mem b))"
    using Node.prems by (auto simp: sorted_wrt_append)
  have sl: "sorted_wrt (mem_less ngx mem) (inorder l)" and sr: "sorted_wrt (mem_less ngx mem) (inorder r)"
    using Node.prems by (auto simp: sorted_wrt_append)
  note cmp = memn2cmp_simps(1,2) [OF laws]
  have self: "memn2cmp ngx k k = 0" for k using cmp(1) by simp
  consider "hash < node_hash ?n" | "node_hash ?n < hash"
    | "hash = node_hash ?n" "key = node_key ?n"
    | "hash = node_hash ?n" "memn2cmp ngx key (node_key ?n) < 0"
    | "hash = node_hash ?n" "0 < memn2cmp ngx key (node_key ?n)"
    using cmp by (metis linorder_less_linear)
  then show ?case
  proof cases
    case 1
    then show ?thesis
      using Node.IH(1) [OF sl] r [of a] by (auto simp: node_less_def Let_def)
  next
    case 2
    then show ?thesis
      using Node.IH(2) [OF sr] l [of a] by (auto simp: node_less_def Let_def)
  next
    case 3
    then show ?thesis
      using l [of a] r [of a] by (auto simp: node_less_def Let_def self)
  next
    case 4
    then have "key \<noteq> node_key ?n" "\<not> memn2cmp ngx (node_key ?n) key < 0"
      using self cmp(2) [of "node_key ?n" key] by auto
    then show ?thesis
      using 4 Node.IH(1) [OF sl] r [of a] by (auto simp: node_less_def Let_def)
  next
    case 5
    then have "key \<noteq> node_key ?n" "\<not> memn2cmp ngx key (node_key ?n) < 0"
      "memn2cmp ngx key (node_key ?n) \<noteq> 0"
      using self by auto
    then show ?thesis
      using 5 Node.IH(2) [OF sr] l [of a] by (auto simp: node_less_def Let_def)
  qed
qed simp

lemma rbtree_insert_set [simp]:
  "set_tree (sentinel_shm_rbtree_insert ngx mem a t) = insert a (set_tree t)"
  by (induction t) (auto simp: Let_def)

lemma rbtree_insert_sorted:
  assumes laws: "memn2cmp_laws ngx"
    and "sorted_wrt (mem_less ngx mem) (inorder t)"
    and "\<And>b. b \<in> set_tree t \<Longrightarrow> \<not> (node_hash (the (mem b)) = node_hash (the (mem a)) \<and>
        node_key (the (mem b)) = node_key (the (mem a)))"
  shows "sorted_wrt (mem_less ngx mem) (inorder (sentinel_shm_rbtree_insert ngx mem a t))"
  using assms(2,3)
proof (induction t)
  case (Node l x r)
  let ?n = "the (mem a)" and ?m = "the (mem x)"
  have "\<not> (node_hash ?m = node_hash ?n \<and> node_key ?m = node_key ?n)"
    using Node.prems(2) by simp
  then consider "node_less ngx ?n ?m" | "node_less ngx ?m ?n"
    using node_less_total [OF laws, of ?n ?m] by auto
  then show ?case
  proof cases
    case 1
    then have ins: "sentinel_shm_rbtree_insert ngx mem a (Node l x r)
        = Node (sentinel_shm_rbtree_insert ngx mem a l) x r"
      by (auto simp: node_less_def Let_def)
    have "\<forall>b \<in> set_tree r. node_less ngx ?n (the (mem b))"
      using Node.prems(1) 1 node_less_trans [OF laws] by (auto simp: sorted_wrt_append)
    then show ?thesis
      using Node 1 unfolding ins by (auto simp: sorted_wrt_append)
  next
    case 2
    then have "\<not> node_less ngx ?n ?m"
      using node_less_trans [OF laws] node_less_irrefl [OF laws] by blast
    then have ins: "sentinel_shm_rbtree_insert ngx mem a (Node l x r)
        = Node l x (sentinel_shm_rbtree_insert ngx mem a r)"
      using 2 by (auto simp: node_less_def Let_def)
    have "\<forall>b \<in> set_tree l. node_less ngx (the (mem b)) ?n"
      using Node.prems(1) 2 node_less_trans [OF laws] by (auto simp: sorted_wrt_append)
    then show ?thesis
      using Node 2 unfolding ins by (auto simp: sorted_wrt_append)
  qed
qed simp

end
