(* ===== verification/Sentinel_Zone.thy ===== *)
theory Sentinel_Zone
  imports Sentinel_Shm
begin

text \<open>
  Correctness of the shared-memory zone: the invariant of tree, queue and slab, that every
  operation keeps it, and the refinement of the zone to the list of its nodes, most recently
  used first. The behaviour of the public operations is proved on that list.
\<close>

subsection \<open>Invariant and abstraction\<close>

definition zone_inv :: "ngx_api \<Rightarrow> ngx_sentinel_shctx \<Rightarrow> bool" where
  "zone_inv ngx sh \<longleftrightarrow>
     distinct (sh_queue sh) \<and>
     set (sh_queue sh) = dom (sh_mem sh) \<and>
     set_tree (sh_tree sh) = dom (sh_mem sh) \<and>
     sorted_wrt (mem_less ngx (sh_mem sh)) (inorder (sh_tree sh)) \<and>
     (\<forall>n \<in> ran (sh_mem sh). node_hash n = crc32_short ngx (node_key n))"

text \<open>The zone as a list of nodes in LRU order.\<close>

definition zone_nodes :: "ngx_sentinel_shctx \<Rightarrow> ngx_sentinel_node list" where
  "zone_nodes sh = map (node_of sh) (sh_queue sh)"

definition find_node :: "string \<Rightarrow> ngx_sentinel_node list \<Rightarrow> ngx_sentinel_node option" where
  "find_node key ns = find (\<lambda>n. node_key n = key) ns"

definition others :: "string \<Rightarrow> ngx_sentinel_node list \<Rightarrow> ngx_sentinel_node list" where
  "others key ns = filter (\<lambda>n. node_key n \<noteq> key) ns"

text \<open>The abstract expiry: from the least recently used end, at most \<open>batch\<close> nodes, stopping at
  the first that is blocked or recent.\<close>

fun expire_nodes :: "int \<Rightarrow> int \<Rightarrow> nat \<Rightarrow> ngx_sentinel_node list \<Rightarrow> ngx_sentinel_node list" where
  "expire_nodes interval now 0 ns = ns"
| "expire_nodes interval now (Suc batch) ns =
     (if ns = [] \<or> blocked_until (last ns) > now \<or> now - last_seen (last ns) < interval then ns
      else expire_nodes interval now batch (butlast ns))"

lemma zone_inv_mem: "zone_inv ngx sh \<Longrightarrow> a \<in> set (sh_queue sh) \<Longrightarrow> sh_mem sh a = Some (node_of sh a)"
  by (auto simp: zone_inv_def node_of_def)

lemma zone_inv_hash:
  "zone_inv ngx sh \<Longrightarrow> a \<in> set (sh_queue sh) \<Longrightarrow>
     node_hash (node_of sh a) = crc32_short ngx (node_key (node_of sh a))"
  using zone_inv_mem [of ngx sh a] by (auto simp: zone_inv_def ran_def)

lemma sorted_wrt_distinct_pair:
  assumes "sorted_wrt P xs" "x \<in> set xs" "y \<in> set xs" "x \<noteq> y"
  shows "P x y \<or> P y x"
  using assms by (induction xs) auto

lemma zone_inv_key_inj:
  assumes laws: "memn2cmp_laws ngx" and inv: "zone_inv ngx sh"
    and "a \<in> set (sh_queue sh)" "b \<in> set (sh_queue sh)"
    and "node_key (node_of sh a) = node_key (node_of sh b)"
  shows "a = b"
proof (rule ccontr)
  assume "a \<noteq> b"
  moreover have "a \<in> set (inorder (sh_tree sh))" "b \<in> set (inorder (sh_tree sh))"
    using assms by (simp_all add: zone_inv_def)
  moreover have "sorted_wrt (mem_less ngx (sh_mem sh)) (inorder (sh_tree sh))"
    using inv by (simp add: zone_inv_def)
  ultimately have "node_less ngx (node_of sh a) (node_of sh b) \<or> node_less ngx (node_of sh b) (node_of sh a)"
    by (metis sorted_wrt_distinct_pair node_of_def)
  moreover have "node_hash (node_of sh a) = node_hash (node_of sh b)"
    using assms zone_inv_hash [OF inv] by simp
  moreover have "memn2cmp ngx k k = 0" for k
    using memn2cmp_simps(1) [OF laws] by simp
  ultimately show False using assms(5) by (simp add: node_less_def)
qed

lemma distinct_zone_keys:
  assumes "memn2cmp_laws ngx" "zone_inv ngx sh"
  shows "distinct (map node_key (zone_nodes sh))"
  using assms zone_inv_key_inj [OF assms]
  by (auto simp: zone_nodes_def distinct_map inj_on_def zone_inv_def)

subsection \<open>Primitive steps\<close>

lemma lookup_Some:
  assumes "memn2cmp_laws ngx" "zone_inv ngx sh"
  shows "sentinel_shm_lookup ngx (crc32_short ngx key) key sh = Some a \<longleftrightarrow>
    a \<in> set (sh_queue sh) \<and> node_key (node_of sh a) = key"
proof -
  have "sorted_wrt (mem_less ngx (sh_mem sh)) (inorder (sh_tree sh))"
    and "set_tree (sh_tree sh) = set (sh_queue sh)"
    using assms(2) by (simp_all add: zone_inv_def)
  then show ?thesis
    using tree_lookup_Some [OF assms(1), of "sh_mem sh" "sh_tree sh"] zone_inv_hash [OF assms(2), of a]
    by (auto simp: sentinel_shm_lookup_def node_of_def)
qed

lemma find_map_Some:
  "find P (map f xs) = Some y \<longleftrightarrow> (\<exists>x. find (P \<circ> f) xs = Some x \<and> y = f x)"
  by (induction xs) auto

lemma lookup_find_node:
  assumes "memn2cmp_laws ngx" "zone_inv ngx sh"
  shows "find_node key (zone_nodes sh) =
    map_option (node_of sh) (sentinel_shm_lookup ngx (crc32_short ngx key) key sh)"
proof (cases "sentinel_shm_lookup ngx (crc32_short ngx key) key sh")
  case None
  then have "\<forall>a \<in> set (sh_queue sh). node_key (node_of sh a) \<noteq> key"
    using lookup_Some [OF assms, of key] by (metis option.distinct(1))
  then show ?thesis using None by (simp add: find_node_def zone_nodes_def find_None_iff)
next
  case (Some a)
  then have a: "a \<in> set (sh_queue sh)" "node_key (node_of sh a) = key"
    using lookup_Some [OF assms] by auto
  then obtain b where b: "find (\<lambda>b. node_key (node_of sh b) = key) (sh_queue sh) = Some b"
    by (cases "find (\<lambda>b. node_key (node_of sh b) = key) (sh_queue sh)") (auto simp: find_None_iff)
  then have "b \<in> set (sh_queue sh)" "node_key (node_of sh b) = key"
    by (auto simp: find_Some_iff)
  then have "b = a"
    using zone_inv_key_inj [OF assms _ a(1)] a(2) by simp
  then show ?thesis
    using b Some by (auto simp: find_node_def zone_nodes_def find_map_Some comp_def)
qed

lemma zone_inv_touch [zone_intros]:
  assumes "zone_inv ngx sh" "a \<in> set (sh_queue sh)"
  shows "zone_inv ngx (sentinel_shm_touch a sh)"
proof -
  have "set (remove1 a (sh_queue sh)) = set (sh_queue sh) - {a}" "a \<notin> set (remove1 a (sh_queue sh))"
    using assms by (simp_all add: zone_inv_def)
  then show ?thesis
    using assms by (auto simp: zone_inv_def sentinel_shm_touch_def)
qed

lemma remove1_map_others:
  assumes "inj_on (\<lambda>b. node_key (f b)) (set q)" "distinct q" "a \<in> set q"
  shows "map f (remove1 a q) = others (node_key (f a)) (map f q)"
proof -
  have "remove1 a q = filter (\<lambda>b. node_key (f b) \<noteq> node_key (f a)) q"
    using assms by (auto simp: distinct_remove1_removeAll removeAll_filter_not_eq inj_on_def
        intro: filter_cong)
  then show ?thesis by (simp add: others_def filter_map comp_def)
qed

lemma zone_queue_inj:
  assumes "memn2cmp_laws ngx" "zone_inv ngx sh"
  shows "inj_on (\<lambda>b. node_key (node_of sh b)) (set (sh_queue sh))"
  using zone_inv_key_inj [OF assms] by (auto simp: inj_on_def)

lemma zone_nodes_touch:
  assumes "memn2cmp_laws ngx" "zone_inv ngx sh" "a \<in> set (sh_queue sh)"
  shows "zone_nodes (sentinel_shm_touch a sh) =
    node_of sh a # others (node_key (node_of sh a)) (zone_nodes sh)"
proof -
  have "node_of (sentinel_shm_touch a sh) = node_of sh"
    by (simp add: sentinel_shm_touch_def node_of_def fun_eq_iff)
  then show ?thesis
    using remove1_map_others [OF zone_queue_inj [OF assms(1,2)] _ assms(3)] assms(2)
    by (simp add: zone_nodes_def sentinel_shm_touch_def zone_inv_def)
qed

lemma update_node_simps [simp]:
  "sh_queue (update_node a f sh) = sh_queue sh"
  "sh_tree (update_node a f sh) = sh_tree sh"
  "sh_generation (update_node a f sh) = sh_generation sh"
  "node_of (update_node a f sh) b = (if a = b then f (node_of sh a) else node_of sh b)"
  by (simp_all add: update_node_def node_of_def)

lemma touch_simps [simp]:
  "sh_queue (sentinel_shm_touch a sh) = a # remove1 a (sh_queue sh)"
  "sh_generation (sentinel_shm_touch a sh) = sh_generation sh"
  "node_of (sentinel_shm_touch a sh) b = node_of sh b"
  by (simp_all add: sentinel_shm_touch_def node_of_def)

text \<open>Updates that keep a node's key and hash.\<close>

definition keeps_key :: "(ngx_sentinel_node \<Rightarrow> ngx_sentinel_node) \<Rightarrow> bool" where
  "keeps_key f \<longleftrightarrow> (\<forall>n. node_key (f n) = node_key n \<and> node_hash (f n) = node_hash n)"

lemma zone_inv_update [zone_intros]:
  assumes "zone_inv ngx sh" "a \<in> set (sh_queue sh)" "keeps_key f"
  shows "zone_inv ngx (update_node a f sh)"
proof -
  have mem: "sh_mem sh a = Some (node_of sh a)"
    using assms(1,2) by (rule zone_inv_mem)
  have key: "node_key (node_of (update_node a f sh) b) = node_key (node_of sh b)"
    "node_hash (node_of (update_node a f sh) b) = node_hash (node_of sh b)" for b
    using assms(3) by (simp_all add: keeps_key_def)
  have "sorted_wrt (mem_less ngx (sh_mem (update_node a f sh))) (inorder (sh_tree sh))"
    using assms(1) key by (simp add: zone_inv_def node_less_def node_of_def)
  moreover have "dom (sh_mem (update_node a f sh)) = dom (sh_mem sh)"
    using mem by (auto simp: update_node_def)
  moreover have "\<forall>n \<in> ran (sh_mem (update_node a f sh)). node_hash n = crc32_short ngx (node_key n)"
    using assms mem by (auto simp: update_node_def zone_inv_def ran_def keeps_key_def)
  ultimately show ?thesis using assms(1) by (simp add: zone_inv_def)
qed

lemma zone_nodes_update_hd:
  assumes "zone_inv ngx sh" "sh_queue sh = a # q"
  shows "zone_nodes (update_node a f sh) = f (node_of sh a) # tl (zone_nodes sh)"
  using assms by (auto simp: zone_nodes_def zone_inv_def)

lemma zone_lawsD:
  assumes "zone_laws ngx"
  shows "memn2cmp_laws ngx" "inorder (rb_fixup ngx t) = inorder t"
    "inorder (rb_delete ngx t a) = remove1 a (inorder t)"
    "slab_calloc ngx sh n = Some a \<Longrightarrow> sh_mem sh a = None"
  using assms by (auto simp: zone_laws_def rbtree_laws_def slab_laws_def)

lemma sorted_wrt_remove1: "sorted_wrt P xs \<Longrightarrow> sorted_wrt P (remove1 a xs)"
  by (induction xs) (auto dest: set_remove1_subset [THEN subsetD])

lemma sorted_mem_distinct:
  "memn2cmp_laws ngx \<Longrightarrow> sorted_wrt (mem_less ngx mem) xs \<Longrightarrow> distinct xs"
  using node_less_irrefl by (induction xs) auto

lemma remove_node_simps [simp]:
  "sh_queue (remove_node ngx a sh) = remove1 a (sh_queue sh)"
  "sh_generation (remove_node ngx a sh) = sh_generation sh"
  "b \<noteq> a \<Longrightarrow> node_of (remove_node ngx a sh) b = node_of sh b"
  by (simp_all add: remove_node_def node_of_def)

lemma zone_inv_remove [zone_intros]:
  assumes laws: "zone_laws ngx" and inv: "zone_inv ngx sh"
  shows "zone_inv ngx (remove_node ngx a sh)"
proof -
  let ?t = "inorder (sh_tree sh)" and ?mem = "(sh_mem sh)(a := None)"
  have s: "sorted_wrt (mem_less ngx (sh_mem sh)) ?t" and "distinct ?t"
    and set: "set ?t = dom (sh_mem sh)"
    using inv sorted_mem_distinct zone_lawsD(1) [OF laws] by (auto simp: zone_inv_def)
  then have set': "set (remove1 a ?t) = dom (sh_mem sh) - {a}" by simp
  have t: "inorder (rb_delete ngx (sh_tree sh) a) = remove1 a ?t"
    by (rule zone_lawsD(3) [OF laws])
  then have "set_tree (rb_delete ngx (sh_tree sh) a) = dom (sh_mem sh) - {a}"
    using set' by (metis set_inorder)
  moreover have "sorted_wrt (mem_less ngx ?mem) (remove1 a ?t)"
  proof (rule sorted_wrt_mono_rel [OF _ sorted_wrt_remove1 [OF s]])
    fix x y
    assume "x \<in> set (remove1 a ?t)" "y \<in> set (remove1 a ?t)" "mem_less ngx (sh_mem sh) x y"
    then show "mem_less ngx ?mem x y" unfolding set' by auto
  qed
  moreover have "\<forall>n \<in> ran ?mem. node_hash n = crc32_short ngx (node_key n)"
    using inv by (auto simp: zone_inv_def ran_def)
  ultimately show ?thesis
    using inv by (simp add: zone_inv_def remove_node_def t dom_fun_upd)
qed

lemma zone_nodes_remove:
  assumes "memn2cmp_laws ngx" "zone_inv ngx sh" "a \<in> set (sh_queue sh)"
  shows "zone_nodes (remove_node ngx a sh) = others (node_key (node_of sh a)) (zone_nodes sh)"
proof -
  have "a \<notin> set (remove1 a (sh_queue sh))" using assms(2) by (simp add: zone_inv_def)
  then have "map (node_of (remove_node ngx a sh)) (remove1 a (sh_queue sh)) =
      map (node_of sh) (remove1 a (sh_queue sh))"
    by (metis (no_types, lifting) map_cong remove_node_simps(3))
  moreover have "distinct (sh_queue sh)" using assms(2) by (simp add: zone_inv_def)
  ultimately show ?thesis
    using remove1_map_others [OF zone_queue_inj [OF assms(1,2)] _ assms(3)]
    by (simp only: zone_nodes_def remove_node_simps)
qed

lemma others_butlast:
  assumes "distinct (map node_key ns)" "ns \<noteq> []"
  shows "others (node_key (last ns)) ns = butlast ns"
  using assms by (cases ns rule: rev_cases) (auto simp: others_def filter_id_conv image_iff)

lemma expire_refines:
  assumes "zone_laws ngx" "zone_inv ngx sh"
  shows "zone_inv ngx (sentinel_shm_expire ngx interval now batch sh)"
    and "zone_nodes (sentinel_shm_expire ngx interval now batch sh) =
      expire_nodes interval now batch (zone_nodes sh)"
    and "sh_generation (sentinel_shm_expire ngx interval now batch sh) = sh_generation sh"
proof -
  note laws = zone_lawsD(1) [OF assms(1)]
  have "zone_inv ngx (sentinel_shm_expire ngx interval now batch sh) \<and>
    zone_nodes (sentinel_shm_expire ngx interval now batch sh) =
      expire_nodes interval now batch (zone_nodes sh) \<and>
    sh_generation (sentinel_shm_expire ngx interval now batch sh) = sh_generation sh"
    using assms(2)
  proof (induction batch arbitrary: sh)
    case (Suc batch)
    show ?case
    proof (cases "sh_queue sh = []")
      case True
      then show ?thesis using Suc.prems by (simp add: zone_nodes_def)
    next
      case False
      let ?a = "last (sh_queue sh)"
      have last: "last (zone_nodes sh) = node_of sh ?a" and "zone_nodes sh \<noteq> []"
        using False by (simp_all add: zone_nodes_def last_map)
      moreover have "zone_nodes (remove_node ngx ?a sh) = butlast (zone_nodes sh)"
        using zone_nodes_remove [OF laws Suc.prems, of ?a] False last
          others_butlast [OF distinct_zone_keys [OF laws Suc.prems]]
        by (simp add: zone_nodes_def)
      ultimately show ?thesis
        using False Suc.IH [OF zone_inv_remove [OF assms(1) Suc.prems, of ?a]] Suc.prems
        by (simp add: Let_def)
    qed
  qed simp
  then show "zone_inv ngx (sentinel_shm_expire ngx interval now batch sh)"
    and "zone_nodes (sentinel_shm_expire ngx interval now batch sh) =
      expire_nodes interval now batch (zone_nodes sh)"
    and "sh_generation (sentinel_shm_expire ngx interval now batch sh) = sh_generation sh"
    by blast+
qed

lemma key_bytes_id [simp]: "length key < 65536 \<Longrightarrow> key_bytes key = key"
  by (simp add: key_bytes_def)

lemma link_node_simps [simp]:
  "sh_queue (link_node ngx a n sh) = a # sh_queue sh"
  "sh_generation (link_node ngx a n sh) = sh_generation sh"
  "node_of (link_node ngx a n sh) b = (if b = a then n else node_of sh b)"
  by (simp_all add: link_node_def node_of_def Let_def)

lemma zone_inv_link [zone_intros]:
  assumes laws: "zone_laws ngx" and inv: "zone_inv ngx sh" and fresh: "sh_mem sh a = None"
    and n: "node_hash n = crc32_short ngx (node_key n)"
    and new: "\<forall>b \<in> set (sh_queue sh). node_key (node_of sh b) \<noteq> node_key n"
  shows "zone_inv ngx (link_node ngx a n sh)"
proof -
  let ?mem = "(sh_mem sh)(a \<mapsto> n)" and ?t = "sentinel_shm_rbtree_insert ngx ((sh_mem sh)(a \<mapsto> n)) a (sh_tree sh)"
  have set: "set_tree (sh_tree sh) = dom (sh_mem sh)" and q: "set (sh_queue sh) = dom (sh_mem sh)"
    using inv by (auto simp: zone_inv_def)
  have "sorted_wrt (mem_less ngx ?mem) (inorder (sh_tree sh))"
  proof (rule sorted_wrt_mono_rel)
    show "sorted_wrt (mem_less ngx (sh_mem sh)) (inorder (sh_tree sh))"
      using inv by (simp add: zone_inv_def)
    fix x y
    assume "x \<in> set (inorder (sh_tree sh))" "y \<in> set (inorder (sh_tree sh))"
      "mem_less ngx (sh_mem sh) x y"
    then show "mem_less ngx ?mem x y" using set fresh by (auto simp: dom_def)
  qed
  moreover have "b \<in> set_tree (sh_tree sh) \<Longrightarrow> \<not> (node_hash (the (?mem b)) = node_hash (the (?mem a)) \<and>
        node_key (the (?mem b)) = node_key (the (?mem a)))" for b
    using new set q fresh by (auto simp: node_of_def)
  ultimately have "sorted_wrt (mem_less ngx ?mem) (inorder ?t)"
    using rbtree_insert_sorted [OF zone_lawsD(1) [OF laws], of ?mem "sh_tree sh" a] by blast
  moreover have "set_tree (rb_fixup ngx ?t) = set_tree ?t"
    using zone_lawsD(2) [OF laws, of ?t] by (metis set_inorder)
  moreover have "\<forall>n \<in> ran ?mem. node_hash n = crc32_short ngx (node_key n)"
    using inv n fresh by (auto simp: zone_inv_def)
  moreover have "a \<notin> set (sh_queue sh)" using q fresh by auto
  ultimately show ?thesis
    using inv set zone_lawsD(2) [OF laws]
    by (simp add: zone_inv_def link_node_def Let_def)
qed

lemma zone_nodes_link:
  assumes "zone_inv ngx sh" "sh_mem sh a = None"
  shows "zone_nodes (link_node ngx a n sh) = n # zone_nodes sh"
proof -
  have "a \<notin> set (sh_queue sh)" using assms by (auto simp: zone_inv_def)
  then show ?thesis by (auto simp: zone_nodes_def)
qed

subsection \<open>The event window\<close>

text \<open>Nodes of an error-rate zone: the ring has \<open>threshold\<close> slots, starts at slot zero and is
  never full between operations.\<close>

definition node_ok :: "nat \<Rightarrow> ngx_sentinel_node \<Rightarrow> bool" where
  "node_ok threshold n \<longleftrightarrow>
     event_head n = 0 \<and> length (node_events n) = threshold \<and> event_count n < threshold"

definition window :: "ngx_sentinel_node \<Rightarrow> int list" where
  "window n = take (event_count n) (node_events n)"

text \<open>The in-place compaction: after \<open>i\<close> iterations the first \<open>keep\<close> slots hold the events of the
  first \<open>i\<close> slots that are in the window, and the slots from \<open>i\<close> on are untouched.\<close>

lemma prune_loop_filter:
  assumes "i + k \<le> length ev0" "length ev = length ev0" "drop i ev = drop i ev0"
    and "keep = length (filter (\<lambda>t. cutoff < t) (take i ev0))"
    and "take keep ev = filter (\<lambda>t. cutoff < t) (take i ev0)"
    and "prune_loop cutoff (length ev0) 0 k i keep ev = (keep', ev')"
  shows "length ev' = length ev0 \<and> keep' = length (filter (\<lambda>t. cutoff < t) (take (i + k) ev0)) \<and>
    take keep' ev' = filter (\<lambda>t. cutoff < t) (take (i + k) ev0)"
  using assms
proof (induction k arbitrary: i keep ev)
  case (Suc k)
  have i: "i < length ev0" using Suc.prems(1) by simp
  have ts: "ev ! i = ev0 ! i"
    using Suc.prems(2,3) i by (metis Cons_nth_drop_Suc list.inject)
  have drop: "drop (Suc i) ev = drop (Suc i) ev0"
    using Suc.prems(3) by (metis drop_Suc tl_drop)
  have keep_le: "keep \<le> i"
    using Suc.prems(4) length_filter_take_le by metis
  show ?case
  proof (cases "cutoff < ev0 ! i")
    case True
    then have "prune_loop cutoff (length ev0) 0 k (Suc i) (Suc keep) (ev[keep := ev0 ! i]) = (keep', ev')"
      using Suc.prems(6) i ts by (simp add: Let_def)
    moreover have "drop (Suc i) (ev[keep := ev0 ! i]) = drop (Suc i) ev0"
      using drop keep_le by simp
    moreover have "take (Suc keep) (ev[keep := ev0 ! i]) = take keep ev @ [ev0 ! i]"
      using keep_le i Suc.prems(2) by (simp add: take_Suc_conv_app_nth)
    moreover have "filter (\<lambda>t. cutoff < t) (take (Suc i) ev0) = filter (\<lambda>t. cutoff < t) (take i ev0) @ [ev0 ! i]"
      using True i by (simp add: filter_take_Suc)
    ultimately have "length ev' = length ev0 \<and>
        keep' = length (filter (\<lambda>t. cutoff < t) (take (Suc i + k) ev0)) \<and>
        take keep' ev' = filter (\<lambda>t. cutoff < t) (take (Suc i + k) ev0)"
      by (intro Suc.IH [of "Suc i" "ev[keep := ev0 ! i]" "Suc keep"])
        (use Suc.prems(1,2,4,5) in simp_all)
    then show ?thesis unfolding add_Suc_shift .
  next
    case False
    then have "prune_loop cutoff (length ev0) 0 k (Suc i) keep ev = (keep', ev')"
      using Suc.prems(6) i ts by (simp add: Let_def)
    moreover have "filter (\<lambda>t. cutoff < t) (take (Suc i) ev0) = filter (\<lambda>t. cutoff < t) (take i ev0)"
      using False i by (simp add: filter_take_Suc)
    ultimately have "length ev' = length ev0 \<and>
        keep' = length (filter (\<lambda>t. cutoff < t) (take (Suc i + k) ev0)) \<and>
        take keep' ev' = filter (\<lambda>t. cutoff < t) (take (Suc i + k) ev0)"
      by (intro Suc.IH [of "Suc i" ev keep]) (use Suc.prems(1,2,4,5) drop in simp_all)
    then show ?thesis unfolding add_Suc_shift .
  qed
qed simp

lemma prune_window:
  assumes "node_ok threshold n"
  shows "window (sentinel_shm_prune interval threshold now n) =
      filter (\<lambda>t. now - interval < t) (window n)"
    and "node_ok threshold (sentinel_shm_prune interval threshold now n)"
    and "event_count (sentinel_shm_prune interval threshold now n) =
      length (filter (\<lambda>t. now - interval < t) (window n))"
proof -
  obtain keep ev where loop: "prune_loop (now - interval) threshold (event_head n) (event_count n) 0 0
      (node_events n) = (keep, ev)" by fastforce
  then have "prune_loop (now - interval) (length (node_events n)) 0 (event_count n) 0 0
      (node_events n) = (keep, ev)"
    using assms by (simp add: node_ok_def)
  from prune_loop_filter [OF _ _ _ _ _ this]
  have *: "length ev = threshold"
    "keep = length (filter (\<lambda>t. now - interval < t) (window n))"
    "take keep ev = filter (\<lambda>t. now - interval < t) (window n)"
    using assms by (auto simp: node_ok_def window_def)
  have p: "sentinel_shm_prune interval threshold now n =
      n\<lparr>node_events := ev, event_head := 0, event_count := keep\<rparr>"
    by (simp add: sentinel_shm_prune_def loop)
  have "keep \<le> length (window n)" by (simp add: *(2))
  then have "keep < threshold" using assms by (simp add: node_ok_def window_def)
  then show "node_ok threshold (sentinel_shm_prune interval threshold now n)"
    using * by (simp add: p node_ok_def)
  show "window (sentinel_shm_prune interval threshold now n) =
      filter (\<lambda>t. now - interval < t) (window n)"
    by (simp only: window_def [of "sentinel_shm_prune interval threshold now n"])
      (use *(3) in \<open>simp add: p\<close>)
  show "event_count (sentinel_shm_prune interval threshold now n) =
      length (filter (\<lambda>t. now - interval < t) (window n))"
    using *(2) by (simp add: p)
qed

lemma prune_other_fields [simp]:
  "node_key (sentinel_shm_prune interval threshold now n) = node_key n"
  "node_hash (sentinel_shm_prune interval threshold now n) = node_hash n"
  "blocked_until (sentinel_shm_prune interval threshold now n) = blocked_until n"
  "last_seen (sentinel_shm_prune interval threshold now n) = last_seen n"
  by (simp_all add: sentinel_shm_prune_def case_prod_unfold Let_def)

text \<open>The events that count at time \<open>now\<close>: those inside the window, none after a block.\<close>

definition live_events :: "int \<Rightarrow> int \<Rightarrow> ngx_sentinel_node \<Rightarrow> int list" where
  "live_events interval now n =
     (if blocked_until n \<noteq> 0 then [] else filter (\<lambda>t. now - interval < t) (window n))"

lemma record_event_spec:
  fixes now interval block :: int
  assumes ok: "node_ok threshold n"
  defines "m \<equiv> record_event interval block threshold now n"
  defines "w \<equiv> live_events interval now n"
  shows "node_ok threshold m"
    and "length w + 1 < threshold \<Longrightarrow> blocked_until m = 0 \<and> window m = w @ [now] \<and>
      event_count m = length w + 1"
    and "threshold \<le> length w + 1 \<Longrightarrow> blocked_until m = now + block \<and> event_count m = 0"
    and "node_key m = node_key n" "node_hash m = node_hash n" "last_seen m = last_seen n"
proof -
  define n0 where "n0 = (if blocked_until n \<noteq> 0
      then n\<lparr>blocked_until := 0, event_head := 0, event_count := 0\<rparr> else n)"
  define p where "p = sentinel_shm_prune interval threshold now n0"
  have ok0: "node_ok threshold n0" using ok by (simp add: n0_def node_ok_def)
  have wp: "window p = w" "event_count p = length w" "node_ok threshold p"
    using prune_window [OF ok0, of interval now]
    by (simp_all add: p_def w_def live_events_def n0_def window_def)
  have b0: "blocked_until p = 0" by (simp add: p_def n0_def)
  have idx: "(event_head p + event_count p) mod threshold = length w" "length w < threshold"
    using wp by (simp_all add: node_ok_def)
  define q where "q = p\<lparr>node_events := (node_events p)[length w := now], event_count := length w + 1\<rparr>"
  have m: "m = (if threshold \<le> length w + 1
      then q\<lparr>blocked_until := now + block, event_head := 0, event_count := 0\<rparr> else q)"
    unfolding m_def record_event_def n0_def [symmetric] p_def [symmetric] Let_def idx(1)
    by (simp add: q_def wp(2))
  have q: "length (node_events q) = threshold" "event_head q = 0" "blocked_until q = 0"
    "event_count q = length w + 1"
    using wp(3) b0 by (simp_all add: q_def node_ok_def)
  have "take (length w + 1) (node_events q) = window p @ [now]"
    using idx(2) wp by (simp add: q_def window_def node_ok_def take_Suc_conv_app_nth)
  then have wq: "window q = w @ [now]" by (simp add: window_def [of q] q wp(1))
  show "node_ok threshold m" using q idx(2) by (auto simp: m node_ok_def)
  show "length w + 1 < threshold \<Longrightarrow> blocked_until m = 0 \<and> window m = w @ [now] \<and>
      event_count m = length w + 1"
    using q wq by (simp add: m)
  show "threshold \<le> length w + 1 \<Longrightarrow> blocked_until m = now + block \<and> event_count m = 0"
    by (simp add: m)
  show "node_key m = node_key n" "node_hash m = node_hash n" "last_seen m = last_seen n"
    by (simp_all add: m q_def p_def n0_def)
qed

subsection \<open>Operations on the list\<close>

text \<open>The node an operation works on.\<close>

definition focus :: "ngx_api \<Rightarrow> nat \<Rightarrow> string \<Rightarrow> int \<Rightarrow> ngx_sentinel_node list \<Rightarrow> ngx_sentinel_node" where
  "focus ngx threshold key now ns =
     (case find_node key ns of
        Some n \<Rightarrow> n | None \<Rightarrow> new_node (crc32_short ngx key) key now threshold)"

lemma find_node_key: "find_node key ns = Some n \<Longrightarrow> node_key n = key \<and> n \<in> set ns"
  by (auto simp: find_node_def find_Some_iff)

lemma find_node_None: "find_node key ns = None \<longleftrightarrow> (\<forall>n \<in> set ns. node_key n \<noteq> key)"
  by (auto simp: find_node_def find_None_iff)

lemma focus_key: "length key < 65536 \<Longrightarrow> node_key (focus ngx threshold key now ns) = key"
  by (auto simp: focus_def new_node_def dest: find_node_key split: option.split)

lemma others_None: "find_node key ns = None \<Longrightarrow> others key ns = ns"
  by (simp add: others_def find_node_None filter_id_conv)

text \<open>Finding the key's node and moving it to the head, or linking a new one there.\<close>

lemma focus_refines:
  assumes laws: "zone_laws ngx" and inv: "zone_inv ngx sh" and len: "length key < 65536"
    and res: "(case sentinel_shm_lookup ngx (crc32_short ngx key) key sh of
          None \<Rightarrow> (case slab_calloc ngx sh sz of
              None \<Rightarrow> None
            | Some a \<Rightarrow> Some (a, link_node ngx a (new_node (crc32_short ngx key) key now threshold) sh))
        | Some a \<Rightarrow> Some (a, sentinel_shm_touch a sh)) = Some (a, sh')"
  shows "zone_inv ngx sh'" and "sh_queue sh' = a # tl (sh_queue sh')"
    and "zone_nodes sh' = focus ngx threshold key now (zone_nodes sh) # others key (zone_nodes sh)"
    and "node_of sh' a = focus ngx threshold key now (zone_nodes sh)"
    and "sh_generation sh' = sh_generation sh"
proof -
  note cmp = zone_lawsD(1) [OF laws]
  have "zone_inv ngx sh' \<and> sh_queue sh' = a # tl (sh_queue sh') \<and> zone_nodes sh' =
      focus ngx threshold key now (zone_nodes sh) # others key (zone_nodes sh) \<and>
      node_of sh' a = focus ngx threshold key now (zone_nodes sh) \<and> sh_generation sh' = sh_generation sh"
  proof (cases "sentinel_shm_lookup ngx (crc32_short ngx key) key sh")
    case None
    let ?n = "new_node (crc32_short ngx key) key now threshold"
    have fresh: "sh_mem sh a = None" and sh': "sh' = link_node ngx a ?n sh"
      using res None zone_lawsD(4) [OF laws] by (auto split: option.splits)
    have f: "find_node key (zone_nodes sh) = None"
      using lookup_find_node [OF cmp inv, of key] None by simp
    then have "\<forall>b \<in> set (sh_queue sh). node_key (node_of sh b) \<noteq> node_key ?n"
      using len by (simp add: find_node_None zone_nodes_def new_node_def)
    moreover have "node_hash ?n = crc32_short ngx (node_key ?n)"
      using len by (simp add: new_node_def)
    ultimately show ?thesis
      using zone_inv_link [OF laws inv fresh] zone_nodes_link [OF inv fresh] f
      by (simp add: sh' focus_def others_None)
  next
    case (Some b)
    then have sh': "sh' = sentinel_shm_touch a sh" and b: "b = a" using res by auto
    have a: "a \<in> set (sh_queue sh)" "node_key (node_of sh a) = key"
      using lookup_Some [OF cmp inv] Some b by auto
    moreover have "find_node key (zone_nodes sh) = Some (node_of sh a)"
      using lookup_find_node [OF cmp inv, of key] Some b by simp
    ultimately show ?thesis
      using zone_inv_touch [OF inv a(1)] zone_nodes_touch [OF cmp inv a(1)]
      by (simp add: sh' focus_def)
  qed
  then show "zone_inv ngx sh'" and "sh_queue sh' = a # tl (sh_queue sh')"
    and "zone_nodes sh' = focus ngx threshold key now (zone_nodes sh) # others key (zone_nodes sh)"
    and "node_of sh' a = focus ngx threshold key now (zone_nodes sh)"
    and "sh_generation sh' = sh_generation sh"
    by blast+
qed

lemma find_or_create_focus:
  "find_or_create ngx threshold key now sh =
     (case sentinel_shm_lookup ngx (crc32_short ngx key) key sh of
        None \<Rightarrow> (case slab_calloc ngx sh (create_node_size ngx threshold (length key)) of
            None \<Rightarrow> None
          | Some a \<Rightarrow> Some (a, link_node ngx a (new_node (crc32_short ngx key) key now threshold) sh))
      | Some a \<Rightarrow> Some (a, sentinel_shm_touch a sh))"
  unfolding find_or_create_def sentinel_shm_create_node_def Let_def ..

lemma upsert_node_focus:
  "upsert_node ngx key now sh =
     (case sentinel_shm_lookup ngx (crc32_short ngx key) key sh of
        None \<Rightarrow> (case slab_calloc ngx sh (node_sizeof ngx + of_nat (length key)) of
            None \<Rightarrow> None
          | Some a \<Rightarrow> Some (a, link_node ngx a (new_node (crc32_short ngx key) key now 0) sh))
      | Some a \<Rightarrow> Some (a, sentinel_shm_touch a sh))"
  unfolding upsert_node_def sentinel_shm_crowdsec_create_def Let_def ..

lemma update_hd_refines:
  assumes "zone_inv ngx sh" "sh_queue sh = a # tl (sh_queue sh)" "keeps_key f"
  shows "zone_inv ngx (update_node a f sh)"
    and "sh_queue (update_node a f sh) = a # tl (sh_queue (update_node a f sh))"
    and "zone_nodes (update_node a f sh) = f (node_of sh a) # tl (zone_nodes sh)"
proof -
  have "a \<in> set (sh_queue sh)" using assms(2) by (metis list.set_intros(1))
  then show "zone_inv ngx (update_node a f sh)" using assms by (intro zone_inv_update)
  show "sh_queue (update_node a f sh) = a # tl (sh_queue (update_node a f sh))"
    using assms(2) by simp
  show "zone_nodes (update_node a f sh) = f (node_of sh a) # tl (zone_nodes sh)"
    using assms(1,2) by (rule zone_nodes_update_hd)
qed

text \<open>The list-level operations.\<close>

definition lookup_spec :: "ngx_sentinel_zone \<Rightarrow> string \<Rightarrow> int \<Rightarrow> ngx_sentinel_node list \<Rightarrow>
    errrate_result \<times> ngx_sentinel_node list" where
  "lookup_spec z key now ns0 =
     (let ns = expire_nodes (zone_interval z) now NGX_SENTINEL_EXPIRE_BATCH ns0
      in case find_node key ns of
           None \<Rightarrow> ((NGX_OK, 0, 0), ns)
         | Some n \<Rightarrow>
             if blocked_until n > now
             then ((NGX_BUSY, zone_threshold z, blocked_until n), n\<lparr>last_seen := now\<rparr> # others key ns)
             else
               let m = (if blocked_until n \<noteq> 0
                        then n\<lparr>last_seen := now, blocked_until := 0, event_head := 0, event_count := 0\<rparr>
                        else sentinel_shm_prune (zone_interval z) (zone_threshold z) now
                               (n\<lparr>last_seen := now\<rparr>))
               in ((NGX_OK, event_count m, 0), m # others key ns))"

definition record_spec :: "ngx_api \<Rightarrow> ngx_sentinel_zone \<Rightarrow> string \<Rightarrow> int \<Rightarrow> ngx_sentinel_node list \<Rightarrow>
    errrate_result \<times> ngx_sentinel_node list" where
  "record_spec ngx z key now ns0 =
     (let ns = expire_nodes (zone_interval z) now NGX_SENTINEL_EXPIRE_BATCH ns0;
          n = (focus ngx (zone_threshold z) key now ns)\<lparr>last_seen := now\<rparr>
      in if blocked_until n > now
         then ((NGX_BUSY, zone_threshold z, blocked_until n), n # others key ns)
         else
           let m = record_event (zone_interval z) (zone_block z) (zone_threshold z) now n
           in ((if blocked_until m > now then NGX_BUSY else NGX_OK,
                if blocked_until m > now then zone_threshold z else event_count m,
                blocked_until m), m # others key ns))"

definition softban_spec :: "ngx_api \<Rightarrow> ngx_sentinel_zone \<Rightarrow> string \<Rightarrow> int \<Rightarrow> int \<Rightarrow>
    ngx_sentinel_node list \<Rightarrow> ngx_sentinel_node list" where
  "softban_spec ngx z key now ttl ns0 =
     (let ns = expire_nodes (zone_interval z) now NGX_SENTINEL_EXPIRE_BATCH ns0
      in (focus ngx (zone_threshold z) key now ns)
           \<lparr>last_seen := now, blocked_until := now + ttl, event_head := 0, event_count := 0\<rparr>
         # others key ns)"

lemma keeps_key_simps [simp]:
  "keeps_key (\<lambda>n. n\<lparr>last_seen := t\<rparr>)"
  "keeps_key (\<lambda>n. n\<lparr>blocked_until := 0, event_head := 0, event_count := 0\<rparr>)"
  "keeps_key (\<lambda>n. n\<lparr>last_seen := t, blocked_until := b, event_head := 0, event_count := 0\<rparr>)"
  "keeps_key (\<lambda>n. n\<lparr>blocked_until := b, cs_action := act, node_generation := g,
                    redis_pulled := p, last_seen := t\<rparr>)"
  "keeps_key (sentinel_shm_prune iv thr t)"
  "keeps_key (record_event iv blk thr t)"
  by (simp_all add: keeps_key_def record_event_def Let_def)

lemma lookup_refines:
  assumes laws: "zone_laws ngx" and inv: "zone_inv ngx sh" and len: "length key < 65536"
    and res: "errrate_lookup_locked ngx key now z sh = (r, sh')"
  shows "zone_inv ngx sh'" "(r, zone_nodes sh') = lookup_spec z key now (zone_nodes sh)"
proof -
  define e where "e = sentinel_shm_expire ngx (zone_interval z) now NGX_SENTINEL_EXPIRE_BATCH sh"
  have e: "zone_inv ngx e"
    "zone_nodes e = expire_nodes (zone_interval z) now NGX_SENTINEL_EXPIRE_BATCH (zone_nodes sh)"
    unfolding e_def by (rule expire_refines [OF laws inv])+
  note f = lookup_find_node [OF zone_lawsD(1) [OF laws] e(1), of key]
  have "zone_inv ngx sh' \<and> (r, zone_nodes sh') = lookup_spec z key now (zone_nodes sh)"
  proof (cases "sentinel_shm_lookup ngx (crc32_short ngx key) key e")
    case None
    then have "r = (NGX_OK, 0, 0)" "sh' = e"
      using res unfolding errrate_lookup_locked_def Let_def e_def [symmetric] by simp_all
    then show ?thesis using None f e(1) by (simp add: lookup_spec_def Let_def flip: e(2))
  next
    case (Some a)
    define s1 where "s1 = sentinel_shm_touch a e"
    define s2 where "s2 = update_node a (\<lambda>n. n\<lparr>last_seen := now\<rparr>) s1"
    let ?n = "node_of e a"
    have a: "a \<in> set (sh_queue e)" and key: "node_key ?n = key"
      using lookup_Some [OF zone_lawsD(1) [OF laws] e(1)] Some by auto
    have s1: "zone_inv ngx s1" "sh_queue s1 = a # tl (sh_queue s1)"
      "zone_nodes s1 = ?n # others key (zone_nodes e)" "node_of s1 a = ?n"
      using zone_inv_touch [OF e(1) a] zone_nodes_touch [OF zone_lawsD(1) [OF laws] e(1) a] key
      by (simp_all add: s1_def)
    note s2 = update_hd_refines [OF s1(1,2) keeps_key_simps(1) [of now], folded s2_def]
    have n2: "node_of s2 a = ?n\<lparr>last_seen := now\<rparr>" by (simp add: s2_def s1(4))
    have nodes2: "tl (zone_nodes s2) = others key (zone_nodes e)" by (simp add: s2(3) s1(3))
    define f' where "f' = (if blocked_until ?n \<noteq> 0
        then (\<lambda>n::ngx_sentinel_node. n\<lparr>blocked_until := 0, event_head := 0, event_count := 0\<rparr>)
        else sentinel_shm_prune (zone_interval z) (zone_threshold z) now)"
    have "keeps_key f'" by (simp add: f'_def)
    note s3 = update_hd_refines [OF s2(1,2) this]
    have res': "(r, sh') = (if blocked_until ?n > now
        then ((NGX_BUSY, zone_threshold z, blocked_until ?n), s2)
        else ((NGX_OK, event_count (f' (?n\<lparr>last_seen := now\<rparr>)), 0), update_node a f' s2))"
      using res Some unfolding errrate_lookup_locked_def e_def [symmetric] Let_def
      by (cases "blocked_until ?n = 0"; cases "blocked_until ?n > now")
        (simp_all add: f'_def s1_def s2_def)
    show ?thesis
    proof (cases "blocked_until ?n > now")
      case True
      then show ?thesis
        using res' Some f s2(1,3) s1
        by (simp add: lookup_spec_def Let_def flip: e(2))
    next
      case False
      then show ?thesis
        using res' Some f s3(1,3) nodes2 n2
        by (simp add: lookup_spec_def Let_def f'_def flip: e(2))
    qed
  qed
  then show "zone_inv ngx sh'" "(r, zone_nodes sh') = lookup_spec z key now (zone_nodes sh)"
    by blast+
qed

lemma record_refines:
  assumes laws: "zone_laws ngx" and inv: "zone_inv ngx sh" and len: "length key < 65536"
    and res: "errrate_record_locked ngx key now z sh = (r, sh')"
  shows "zone_inv ngx sh' \<and>
    (if fst r = NGX_ERROR
     then r = (NGX_ERROR, 0, 0) \<and>
       zone_nodes sh' = expire_nodes (zone_interval z) now NGX_SENTINEL_EXPIRE_BATCH (zone_nodes sh)
     else (r, zone_nodes sh') = record_spec ngx z key now (zone_nodes sh))"
proof -
  define e where "e = sentinel_shm_expire ngx (zone_interval z) now NGX_SENTINEL_EXPIRE_BATCH sh"
  have e: "zone_inv ngx e"
    "zone_nodes e = expire_nodes (zone_interval z) now NGX_SENTINEL_EXPIRE_BATCH (zone_nodes sh)"
    unfolding e_def by (rule expire_refines [OF laws inv])+
  show ?thesis
  proof (cases "find_or_create ngx (zone_threshold z) key now e")
    case None
    then have "r = (NGX_ERROR, 0, 0)" "sh' = e"
      using res unfolding errrate_record_locked_def Let_def e_def [symmetric] by simp_all
    then show ?thesis using e by simp
  next
    case (Some p)
    then obtain a s1 where fc: "find_or_create ngx (zone_threshold z) key now e = Some (a, s1)"
      by (cases p) auto
    note s1 = focus_refines [OF laws e(1) len fc [unfolded find_or_create_focus]]
    define n where "n = focus ngx (zone_threshold z) key now (zone_nodes e)"
    define s2 where "s2 = update_node a (\<lambda>n. n\<lparr>last_seen := now\<rparr>) s1"
    note s2 = update_hd_refines [OF s1(1,2) keeps_key_simps(1) [of now], folded s2_def]
    have n2: "node_of s2 a = n\<lparr>last_seen := now\<rparr>" by (simp add: s2_def s1(4) n_def)
    have nodes2: "tl (zone_nodes s2) = others key (zone_nodes e)" by (simp add: s2(3) s1(3))
    define f' where "f' = record_event (zone_interval z) (zone_block z) (zone_threshold z) now"
    have "keeps_key f'" by (simp add: f'_def)
    note s3 = update_hd_refines [OF s2(1,2) this]
    let ?m = "f' (n\<lparr>last_seen := now\<rparr>)"
    have res': "(r, sh') = (if blocked_until n > now
        then ((NGX_BUSY, zone_threshold z, blocked_until n), s2)
        else ((if blocked_until ?m > now then NGX_BUSY else NGX_OK,
               if blocked_until ?m > now then zone_threshold z else event_count ?m,
               blocked_until ?m), update_node a f' s2))"
      using res fc s1(4) [folded n_def] unfolding errrate_record_locked_def e_def [symmetric] Let_def
      by (cases "blocked_until n > now"; cases "blocked_until ?m > now") (simp_all add: f'_def s2_def)
    show ?thesis
    proof (cases "blocked_until n > now")
      case True
      then show ?thesis
        using res' s2(1,3) s1(3,4)
        by (simp add: record_spec_def Let_def n_def flip: e(2))
    next
      case False
      then show ?thesis
        using res' s3(1,3) nodes2 n2
        by (simp add: record_spec_def Let_def n_def f'_def flip: e(2))
    qed
  qed
qed

lemma softban_refines:
  assumes laws: "zone_laws ngx" and inv: "zone_inv ngx sh" and len: "length key < 65536"
    and res: "softban_set_locked ngx key now ttl z sh = (r, sh')"
  shows "zone_inv ngx sh' \<and>
    (r = NGX_OK \<and> 0 < ttl \<and> zone_nodes sh' = softban_spec ngx z key now ttl (zone_nodes sh) \<or>
     r = NGX_ERROR \<and> (ttl \<le> 0 \<and> sh' = sh \<or>
       zone_nodes sh' = expire_nodes (zone_interval z) now NGX_SENTINEL_EXPIRE_BATCH (zone_nodes sh)))"
proof (cases "ttl \<le> 0")
  case True
  then show ?thesis using res inv by (auto simp: softban_set_locked_def)
next
  case False
  define e where "e = sentinel_shm_expire ngx (zone_interval z) now NGX_SENTINEL_EXPIRE_BATCH sh"
  have e: "zone_inv ngx e"
    "zone_nodes e = expire_nodes (zone_interval z) now NGX_SENTINEL_EXPIRE_BATCH (zone_nodes sh)"
    unfolding e_def by (rule expire_refines [OF laws inv])+
  show ?thesis
  proof (cases "find_or_create ngx (zone_threshold z) key now e")
    case None
    then have "r = NGX_ERROR" "sh' = e"
      using res False unfolding softban_set_locked_def Let_def e_def [symmetric] by simp_all
    then show ?thesis using e by simp
  next
    case (Some p)
    then obtain a s1 where fc: "find_or_create ngx (zone_threshold z) key now e = Some (a, s1)"
      by (cases p) auto
    note s1 = focus_refines [OF laws e(1) len fc [unfolded find_or_create_focus]]
    note s2 = update_hd_refines [OF s1(1,2) keeps_key_simps(3) [where t = now and b = "now + ttl"]]
    have "r = NGX_OK" "sh' = update_node a
        (\<lambda>n. n\<lparr>last_seen := now, blocked_until := now + ttl, event_head := 0, event_count := 0\<rparr>) s1"
      using res False fc unfolding softban_set_locked_def Let_def e_def [symmetric] by simp_all
    then show ?thesis
      using s2(1,3) s1(3,4) False by (simp add: softban_spec_def Let_def flip: e(2))
  qed
qed

definition upsert_spec :: "ngx_api \<Rightarrow> string \<Rightarrow> int \<Rightarrow> cs_action_tier \<Rightarrow> 64 word \<Rightarrow> int \<Rightarrow> bool \<Rightarrow>
    ngx_sentinel_node list \<Rightarrow> ngx_sentinel_node list" where
  "upsert_spec ngx key expiry action generation now pulled ns =
     (focus ngx 0 key now ns)
       \<lparr>blocked_until := expiry, cs_action := action, node_generation := generation,
        redis_pulled := pulled, last_seen := now\<rparr> # others key ns"

lemma upsert_refines:
  assumes laws: "zone_laws ngx" and inv: "zone_inv ngx sh" and len: "length key < 65536"
    and res: "crowdsec_upsert_locked ngx key expiry action generation now pulled sh = (r, sh')"
  shows "zone_inv ngx sh' \<and> sh_generation sh' = sh_generation sh \<and>
    (r = NGX_OK \<and> zone_nodes sh' = upsert_spec ngx key expiry action generation now pulled (zone_nodes sh)
     \<or> r = NGX_ERROR \<and> sh' = sh \<and> find_node key (zone_nodes sh) = None)"
proof (cases "upsert_node ngx key now sh")
  case None
  then have "sentinel_shm_lookup ngx (crc32_short ngx key) key sh = None"
    by (auto simp: upsert_node_focus split: option.splits)
  then show ?thesis
    using None res inv lookup_find_node [OF zone_lawsD(1) [OF laws] inv, of key]
    by (auto simp: crowdsec_upsert_locked_def)
next
  case (Some p)
  then obtain a s1 where fc: "upsert_node ngx key now sh = Some (a, s1)" by (cases p) auto
  note s1 = focus_refines [OF laws inv len fc [unfolded upsert_node_focus]]
  note s2 = update_hd_refines [OF s1(1,2) keeps_key_simps(4) [where b = expiry and act = action
      and g = generation and p = pulled and t = now]]
  have "r = NGX_OK" "sh' = update_node a
      (\<lambda>n. n\<lparr>blocked_until := expiry, cs_action := action, node_generation := generation,
             redis_pulled := pulled, last_seen := now\<rparr>) s1"
    using res fc unfolding crowdsec_upsert_locked_def by simp_all
  then show ?thesis
    using s2(1,3) s1(3-5) by (simp add: upsert_spec_def)
qed

definition cs_lookup_spec :: "ngx_sentinel_zone \<Rightarrow> string \<Rightarrow> int \<Rightarrow> ngx_sentinel_node list \<Rightarrow>
    (ngx_rc \<times> cs_action_tier) \<times> ngx_sentinel_node list" where
  "cs_lookup_spec z key now ns0 =
     (let ns = expire_nodes (zone_interval z) now NGX_SENTINEL_EXPIRE_BATCH ns0
      in case find_node key ns of
           None \<Rightarrow> ((NGX_OK, CS_NONE), ns)
         | Some n \<Rightarrow>
             (if blocked_until n \<le> now then (NGX_OK, CS_NONE) else (NGX_BUSY, cs_action n),
              n\<lparr>last_seen := now\<rparr> # others key ns))"

lemma cs_lookup_refines:
  assumes laws: "zone_laws ngx" and inv: "zone_inv ngx sh"
    and res: "crowdsec_lookup_locked ngx key now z sh = (r, sh')"
  shows "zone_inv ngx sh' \<and> sh_generation sh' = sh_generation sh \<and>
    (r, zone_nodes sh') = cs_lookup_spec z key now (zone_nodes sh)"
proof -
  note cmp = zone_lawsD(1) [OF laws]
  define e where "e = sentinel_shm_expire ngx (zone_interval z) now NGX_SENTINEL_EXPIRE_BATCH sh"
  have e: "zone_inv ngx e"
    "zone_nodes e = expire_nodes (zone_interval z) now NGX_SENTINEL_EXPIRE_BATCH (zone_nodes sh)"
    "sh_generation e = sh_generation sh"
    unfolding e_def by (rule expire_refines [OF laws inv])+
  note f = lookup_find_node [OF cmp e(1), of key]
  show ?thesis
  proof (cases "sentinel_shm_lookup ngx (crc32_short ngx key) key e")
    case None
    then have "r = (NGX_OK, CS_NONE)" "sh' = e"
      using res unfolding crowdsec_lookup_locked_def Let_def e_def [symmetric] by simp_all
    then show ?thesis using None f e(1,3) by (simp add: cs_lookup_spec_def Let_def flip: e(2))
  next
    case (Some a)
    let ?n = "node_of e a" and ?s1 = "sentinel_shm_touch a e"
    have a: "a \<in> set (sh_queue e)" and key: "node_key ?n = key"
      using lookup_Some [OF cmp e(1)] Some by auto
    note s2 = update_hd_refines [OF zone_inv_touch [OF e(1) a] _ keeps_key_simps(1) [of now]]
    have "r = (if blocked_until ?n \<le> now then (NGX_OK, CS_NONE) else (NGX_BUSY, cs_action ?n))"
      "sh' = update_node a (\<lambda>n. n\<lparr>last_seen := now\<rparr>) ?s1"
      using res Some unfolding crowdsec_lookup_locked_def Let_def e_def [symmetric]
      by (auto split: if_splits)
    then show ?thesis
      using s2(1,3) Some f key zone_nodes_touch [OF cmp e(1) a] e(3)
      by (simp add: cs_lookup_spec_def Let_def flip: e(2))
  qed
qed

end
