(* ===== verification/Sentinel_Table.thy ===== *)
theory Sentinel_Table
  imports Sentinel_Zone
begin

text \<open>
  The zone as a table of bans and counters: sequences of operations, the lifetime of a ban,
  the sliding window over a burst of events, mark and sweep, and the size of a node's slab
  block. The interface \<open>ban_store\<close> states what keeps a ban alive; it is interpreted on the
  operations of the shared zone.
\<close>

subsection \<open>Sweeping\<close>

definition stale :: "ngx_sentinel_shctx \<Rightarrow> 64 word \<Rightarrow> slab_addr \<Rightarrow> bool" where
  "stale sh g a \<longleftrightarrow> node_generation (node_of sh a) \<noteq> g"

lemma sweep_loop_spec:
  assumes "zone_laws ngx" "zone_inv ngx sh" "distinct q" "set q \<subseteq> set (sh_queue sh)"
    and "sweep_loop ngx g batch q d sh = (d', sh')"
  shows "zone_inv ngx sh' \<and> sh_generation sh' = sh_generation sh \<and>
    sh_queue sh' = filter (\<lambda>a. a \<notin> set (take (batch - d) (filter (stale sh g) q))) (sh_queue sh) \<and>
    (\<forall>a \<in> set (sh_queue sh'). node_of sh' a = node_of sh a) \<and>
    d' = d + length (take (batch - d) (filter (stale sh g) q))"
  using assms(2-5)
proof (induction q arbitrary: d sh)
  case Nil
  then show ?case by (simp add: filter_id_conv)
next
  case (Cons a q)
  show ?case
  proof (cases "d < batch")
    case False
    then show ?thesis using Cons.prems by auto
  next
    case d: True
    show ?thesis
    proof (cases "stale sh g a")
      case False
      then show ?thesis
        using Cons.IH [OF Cons.prems(1), of d] Cons.prems d by (simp add: stale_def)
    next
      case True
      let ?s = "remove_node ngx a sh"
      have dist: "distinct (sh_queue sh)" using Cons.prems(1) by (simp add: zone_inv_def)
      have "node_of ?s b = node_of sh b" if "b \<in> set q" for b
        using that Cons.prems(2) by (intro remove_node_simps(3)) auto
      then have st: "filter (stale ?s g) q = filter (stale sh g) q"
        by (intro filter_cong) (simp_all add: stale_def)
      have q: "remove1 a (sh_queue sh) = filter (\<lambda>b. b \<noteq> a) (sh_queue sh)"
        using dist by (auto simp: distinct_remove1_removeAll removeAll_filter_not_eq intro: filter_cong)
      have sub: "set q \<subseteq> set (sh_queue ?s)" and "distinct q"
        using Cons.prems(2,3) dist by auto
      moreover have "sweep_loop ngx g batch q (d + 1) ?s = (d', sh')"
        using Cons.prems(4) True d by (simp add: stale_def)
      ultimately have IH: "zone_inv ngx sh' \<and> sh_generation sh' = sh_generation sh \<and>
        sh_queue sh' = filter (\<lambda>b. b \<notin> set (take (batch - (d + 1)) (filter (stale sh g) q)))
          (remove1 a (sh_queue sh)) \<and>
        (\<forall>b \<in> set (sh_queue sh'). node_of sh' b = node_of ?s b) \<and>
        d' = d + 1 + length (take (batch - (d + 1)) (filter (stale sh g) q))"
        using Cons.IH [OF zone_inv_remove [OF assms(1) Cons.prems(1), of a], of "d + 1"]
        unfolding st by simp
      let ?V = "take (batch - (d + 1)) (filter (stale sh g) q)"
      have "batch - d = Suc (batch - (d + 1))" using d by simp
      then have V: "take (batch - d) (filter (stale sh g) (a # q)) = a # ?V"
        using True by simp
      have "\<forall>b \<in> set (sh_queue sh'). node_of sh' b = node_of sh b"
        using IH q by auto
      moreover have "sh_queue sh' = filter (\<lambda>b. b \<notin> set (a # ?V)) (sh_queue sh)"
        using IH by (simp add: q conj_commute)
      ultimately show ?thesis using IH unfolding V by simp
    qed
  qed
qed

lemma length_filter_mem:
  assumes "distinct v" "distinct xs" "set v \<subseteq> set xs"
  shows "length (filter (\<lambda>a. a \<in> set v) xs) = length v"
proof -
  have "length (filter (\<lambda>a. a \<in> set v) xs) = card (set (filter (\<lambda>a. a \<in> set v) xs))"
    using distinct_card [OF distinct_filter [OF assms(2)]] by metis
  also have "set (filter (\<lambda>a. a \<in> set v) xs) = set v" using assms(3) by auto
  finally show ?thesis using assms(1) by (simp add: distinct_card)
qed

text \<open>A sweep that may remove enough leaves exactly the nodes of the generation.\<close>

lemma sweep_all:
  assumes "zone_laws ngx" "zone_inv ngx sh"
    and "sweep_loop ngx g batch (rev (sh_queue sh)) 0 sh = (d, sh')"
  shows "zone_inv ngx sh'" "sh_generation sh' = sh_generation sh"
    and "d = min batch (length (filter (\<lambda>n. node_generation n \<noteq> g) (zone_nodes sh)))"
    and "d < batch \<Longrightarrow> zone_nodes sh' = filter (\<lambda>n. node_generation n = g) (zone_nodes sh)"
    and "length (zone_nodes sh') = length (zone_nodes sh) - d"
    and "\<exists>P. zone_nodes sh' = filter P (zone_nodes sh) \<and> (\<forall>n. node_generation n = g \<longrightarrow> P n)"
proof -
  let ?v = "take batch (filter (stale sh g) (rev (sh_queue sh)))"
  have dist: "distinct (sh_queue sh)" using assms(2) by (simp add: zone_inv_def)
  from sweep_loop_spec [OF assms(1,2) _ _ assms(3)]
  have *: "zone_inv ngx sh'" "sh_generation sh' = sh_generation sh"
    "sh_queue sh' = filter (\<lambda>a. a \<notin> set ?v) (sh_queue sh)"
    "\<forall>a \<in> set (sh_queue sh'). node_of sh' a = node_of sh a" "d = length ?v"
    using dist by auto
  show "zone_inv ngx sh'" "sh_generation sh' = sh_generation sh" by (rule *)+
  have len: "length (filter (\<lambda>n. node_generation n \<noteq> g) (zone_nodes sh)) =
      length (filter (stale sh g) (sh_queue sh))"
    by (simp add: zone_nodes_def filter_map comp_def stale_def [abs_def])
  show d: "d = min batch (length (filter (\<lambda>n. node_generation n \<noteq> g) (zone_nodes sh)))"
    unfolding len *(5) by (simp add: rev_filter [symmetric] min.commute)
  have nodes: "zone_nodes sh' = map (node_of sh) (filter (\<lambda>a. a \<notin> set ?v) (sh_queue sh))"
    using *(3,4) by (auto simp: zone_nodes_def)
  have sub: "set ?v \<subseteq> set (filter (stale sh g) (sh_queue sh))"
    by (auto dest: in_set_takeD)
  show "zone_nodes sh' = filter (\<lambda>n. node_generation n = g) (zone_nodes sh)" if "d < batch"
  proof -
    have "?v = filter (stale sh g) (rev (sh_queue sh))" using that *(5) by simp
    then have "filter (\<lambda>a. a \<notin> set ?v) (sh_queue sh) =
        filter (\<lambda>a. node_generation (node_of sh a) = g) (sh_queue sh)"
      by (intro filter_cong) (auto simp: stale_def)
    then show ?thesis by (simp only: nodes) (simp add: zone_nodes_def filter_map comp_def)
  qed
  have "distinct ?v" using dist by (simp add: distinct_filter)
  moreover have "set ?v \<subseteq> set (sh_queue sh)" using sub by auto
  ultimately have "length (filter (\<lambda>a. a \<in> set ?v) (sh_queue sh)) = d"
    using length_filter_mem [OF _ dist, of ?v] *(5) by metis
  then show "length (zone_nodes sh') = length (zone_nodes sh) - d"
    using sum_length_filter_compl [of "\<lambda>a. a \<in> set ?v" "sh_queue sh"] arg_cong [OF *(3), of length]
    by (simp add: zone_nodes_def)
  have inj: "inj_on (\<lambda>b. node_key (node_of sh b)) (set (sh_queue sh))"
    by (rule zone_queue_inj [OF zone_lawsD(1) [OF assms(1)] assms(2)])
  define P where "P = (\<lambda>n. \<not> (\<exists>a \<in> set ?v. n = node_of sh a))"
  have "filter (\<lambda>a. a \<notin> set ?v) (sh_queue sh) = filter (\<lambda>a. P (node_of sh a)) (sh_queue sh)"
  proof (rule filter_cong [OF refl])
    fix b
    assume b: "b \<in> set (sh_queue sh)"
    have "a = b" if "a \<in> set ?v" "node_of sh b = node_of sh a" for a
      using inj_onD [OF inj, of a b] that b sub by auto
    then show "(b \<notin> set ?v) = P (node_of sh b)" by (auto simp: P_def)
  qed
  then have "zone_nodes sh' = filter P (zone_nodes sh)"
    by (simp only: nodes) (simp add: zone_nodes_def filter_map comp_def)
  moreover have "\<forall>n. node_generation n = g \<longrightarrow> P n"
    using sub by (auto simp: P_def stale_def)
  ultimately show "\<exists>P. zone_nodes sh' = filter P (zone_nodes sh) \<and> (\<forall>n. node_generation n = g \<longrightarrow> P n)"
    by blast
qed

subsection \<open>Expiry never drops a live entry\<close>

lemma find_node_Cons_others:
  "node_key m = key \<Longrightarrow> find_node k (m # others key ns) = (if k = key then Some m else find_node k ns)"
  by (induction ns) (auto simp: find_node_def others_def)

lemma find_node_butlast:
  assumes "find_node k ns = Some n" "ns \<noteq> []" "last ns \<noteq> n"
  shows "find_node k (butlast ns) = Some n"
proof -
  have "find_node k (butlast ns @ [last ns]) = Some n" using assms by simp
  moreover have "find_node k (xs @ [x]) = Some n \<Longrightarrow> x \<noteq> n \<Longrightarrow> find_node k xs = Some n" for xs x
    by (induction xs) (auto simp: find_node_def split: if_splits)
  ultimately show ?thesis using assms(3) by blast
qed

lemma expire_keeps:
  assumes "find_node k ns = Some n" "now < blocked_until n \<or> now - last_seen n < interval"
  shows "find_node k (expire_nodes interval now batch ns) = Some n"
  using assms
proof (induction interval now batch ns rule: expire_nodes.induct)
  case (2 interval now batch ns)
  show ?case
  proof (cases "ns = [] \<or> blocked_until (last ns) > now \<or> now - last_seen (last ns) < interval")
    case False
    then have "find_node k (butlast ns) = Some n"
      using 2(3) by (intro find_node_butlast [OF 2(2)]) auto
    then show ?thesis using False 2(1) 2(3) by simp
  qed (use 2 in simp)
qed simp

lemma expire_subset: "set (expire_nodes interval now batch ns) \<subseteq> set ns"
  by (induction interval now batch ns rule: expire_nodes.induct) (auto dest: in_set_butlastD)

lemma expire_None:
  "find_node k ns = None \<Longrightarrow> find_node k (expire_nodes interval now batch ns) = None"
  using expire_subset by (fastforce simp: find_node_None)

subsection \<open>Sequences of operations\<close>

text \<open>What the module does to a zone, one constructor per operation and its arguments.\<close>

datatype zone_op =
    ZLookup string int
  | ZRecord string int
  | ZSoftban string int int
  | ZCsLookup string int
  | ZCsUpsert string int cs_action_tier "64 word" int bool
  | ZCsSweep "64 word" nat

fun zone_step :: "ngx_api \<Rightarrow> ngx_sentinel_zone \<Rightarrow> zone_op \<Rightarrow> ngx_sentinel_shctx \<Rightarrow> ngx_sentinel_shctx" where
  "zone_step ngx z (ZLookup key now) sh = snd (errrate_lookup_locked ngx key now z sh)"
| "zone_step ngx z (ZRecord key now) sh = snd (errrate_record_locked ngx key now z sh)"
| "zone_step ngx z (ZSoftban key now ttl) sh = snd (softban_set_locked ngx key now ttl z sh)"
| "zone_step ngx z (ZCsLookup key now) sh = snd (crowdsec_lookup_locked ngx key now z sh)"
| "zone_step ngx z (ZCsUpsert key expiry action g now pulled) sh =
     snd (crowdsec_upsert_locked ngx key expiry action g now pulled sh)"
| "zone_step ngx z (ZCsSweep g batch) sh = snd (sweep_loop ngx g batch (rev (sh_queue sh)) 0 sh)"

fun op_key :: "zone_op \<Rightarrow> string" where
  "op_key (ZLookup key now) = key"
| "op_key (ZRecord key now) = key"
| "op_key (ZSoftban key now ttl) = key"
| "op_key (ZCsLookup key now) = key"
| "op_key (ZCsUpsert key expiry action g now pulled) = key"
| "op_key (ZCsSweep g batch) = []"

fun op_time :: "zone_op \<Rightarrow> int" where
  "op_time (ZLookup key now) = now"
| "op_time (ZRecord key now) = now"
| "op_time (ZSoftban key now ttl) = now"
| "op_time (ZCsLookup key now) = now"
| "op_time (ZCsUpsert key expiry action g now pulled) = now"
| "op_time (ZCsSweep g batch) = 0"

text \<open>The operations that may set or drop the ban of a key: a new ban for it, and a sweep.\<close>

fun rebinds :: "zone_op \<Rightarrow> string \<Rightarrow> bool" where
  "rebinds (ZSoftban key now ttl) k = (key = k)"
| "rebinds (ZCsUpsert key expiry action g now pulled) k = (key = k)"
| "rebinds (ZCsSweep g batch) k = True"
| "rebinds op k = False"

definition op_ok :: "zone_op \<Rightarrow> bool" where
  "op_ok op \<longleftrightarrow> length (op_key op) < 65536"

text \<open>A key's ban: its end and its action.\<close>

definition ban_of :: "ngx_sentinel_shctx \<Rightarrow> string \<Rightarrow> (int \<times> cs_action_tier) option" where
  "ban_of sh k = map_option (\<lambda>n. (blocked_until n, cs_action n)) (find_node k (zone_nodes sh))"

lemma zone_step_inv [zone_intros]:
  assumes laws: "zone_laws ngx" and inv: "zone_inv ngx sh" and ok: "op_ok op"
  shows "zone_inv ngx (zone_step ngx z op sh)"
proof (cases op)
  case (ZLookup key now)
  obtain r sh' where "errrate_lookup_locked ngx key now z sh = (r, sh')" by fastforce
  with lookup_refines(1) [OF laws inv _ this] ok show ?thesis by (simp add: ZLookup op_ok_def)
next
  case (ZRecord key now)
  obtain r sh' where "errrate_record_locked ngx key now z sh = (r, sh')" by fastforce
  with record_refines [OF laws inv _ this] ok show ?thesis by (simp add: ZRecord op_ok_def)
next
  case (ZSoftban key now ttl)
  obtain r sh' where "softban_set_locked ngx key now ttl z sh = (r, sh')" by fastforce
  with softban_refines [OF laws inv _ this] ok show ?thesis by (simp add: ZSoftban op_ok_def)
next
  case (ZCsLookup key now)
  obtain r sh' where "crowdsec_lookup_locked ngx key now z sh = (r, sh')" by fastforce
  with cs_lookup_refines [OF laws inv this] show ?thesis by (simp add: ZCsLookup)
next
  case (ZCsUpsert key expiry action g now pulled)
  obtain r sh' where "crowdsec_upsert_locked ngx key expiry action g now pulled sh = (r, sh')"
    by fastforce
  with upsert_refines [OF laws inv _ this] ok show ?thesis by (simp add: ZCsUpsert op_ok_def)
next
  case (ZCsSweep g batch)
  obtain d sh' where "sweep_loop ngx g batch (rev (sh_queue sh)) 0 sh = (d, sh')" by fastforce
  with sweep_all(1) [OF laws inv this] show ?thesis by (simp add: ZCsSweep)
qed

lemma fresh_inv [simp]: "zone_inv ngx fresh_shctx"
  by (simp add: zone_inv_def fresh_shctx_def)

subsection \<open>The lifetime of a ban\<close>

text \<open>What a client of a ban table relies on: whatever is done at times before a ban's end leaves
  it in place, unless it is done to that ban.\<close>

locale ban_store =
  fixes invar :: "'s \<Rightarrow> bool"
    and ban :: "'s \<Rightarrow> 'k \<Rightarrow> 'e option"
    and expiry :: "'e \<Rightarrow> int"
    and step :: "'op \<Rightarrow> 's \<Rightarrow> 's"
    and valid :: "'op \<Rightarrow> bool"
    and time :: "'op \<Rightarrow> int"
    and rebind :: "'op \<Rightarrow> 'k \<Rightarrow> bool"
  assumes step_invar: "invar s \<Longrightarrow> valid op \<Longrightarrow> invar (step op s)"
    and step_keeps: "invar s \<Longrightarrow> valid op \<Longrightarrow> ban s k = Some e \<Longrightarrow> time op < expiry e \<Longrightarrow>
      \<not> rebind op k \<Longrightarrow> ban (step op s) k = Some e"
begin

lemma run_invar: "invar s \<Longrightarrow> list_all valid ops \<Longrightarrow> invar (fold step ops s)"
  by (induction ops arbitrary: s) (auto intro: step_invar)

lemma run_keeps:
  assumes "invar s" "list_all valid ops" "ban s k = Some e"
    and "list_all (\<lambda>op. time op < expiry e \<and> \<not> rebind op k) ops"
  shows "ban (fold step ops s) k = Some e"
  using assms by (induction ops arbitrary: s) (auto intro: step_invar step_keeps)

end

lemma zone_step_keeps:
  assumes laws: "zone_laws ngx" and inv: "zone_inv ngx sh" and ok: "op_ok op"
    and ban: "ban_of sh k = Some e" and t: "op_time op < fst e" and rb: "\<not> rebinds op k"
  shows "ban_of (zone_step ngx z op sh) k = Some e"
proof -
  from ban obtain n where n: "find_node k (zone_nodes sh) = Some n" "e = (blocked_until n, cs_action n)"
    by (auto simp: ban_of_def)
  have exp: "find_node k (expire_nodes (zone_interval z) (op_time op) b (zone_nodes sh)) = Some n" for b
    using n t by (intro expire_keeps) simp_all
  show ?thesis
  proof (cases op)
    case (ZLookup key now)
    obtain r sh' where res: "errrate_lookup_locked ngx key now z sh = (r, sh')" by fastforce
    with lookup_refines(2) [OF laws inv _ this] ok
    have "zone_nodes sh' = snd (lookup_spec z key now (zone_nodes sh))"
      by (simp add: ZLookup op_ok_def) (metis snd_conv)
    then show ?thesis
      using exp n t res find_node_key
      by (auto simp: ZLookup ban_of_def lookup_spec_def Let_def find_node_Cons_others
          split: option.splits if_splits)
  next
    case (ZRecord key now)
    obtain r sh' where res: "errrate_record_locked ngx key now z sh = (r, sh')" by fastforce
    have fk: "node_key (focus ngx (zone_threshold z) key now ns) = key" for ns
      using ok by (intro focus_key) (simp add: ZRecord op_ok_def)
    have "node_key (record_event a b c d m) = node_key m" for a b c d m
      using keeps_key_simps(6) by (simp add: keeps_key_def)
    moreover have "zone_nodes sh' = snd (record_spec ngx z key now (zone_nodes sh)) \<or>
        zone_nodes sh' = expire_nodes (zone_interval z) now NGX_SENTINEL_EXPIRE_BATCH (zone_nodes sh)"
      using record_refines [OF laws inv _ res] ok
      by (auto simp: ZRecord op_ok_def split: if_splits) (metis snd_conv)+
    moreover have "k = key \<Longrightarrow> focus ngx (zone_threshold z) key now
        (expire_nodes (zone_interval z) now b (zone_nodes sh)) = n" for b
      using exp by (simp add: focus_def ZRecord)
    ultimately show ?thesis
      using exp n t res fk
      by (auto simp: ZRecord ban_of_def record_spec_def Let_def find_node_Cons_others
          split: if_splits)
  next
    case (ZSoftban key now ttl)
    obtain r sh' where res: "softban_set_locked ngx key now ttl z sh = (r, sh')" by fastforce
    have "node_key (focus ngx (zone_threshold z) key now ns) = key" for ns
      using ok by (intro focus_key) (simp add: ZSoftban op_ok_def)
    then show ?thesis
      using softban_refines [OF laws inv _ res] ok exp n res rb
      by (auto simp: ZSoftban op_ok_def ban_of_def softban_spec_def Let_def find_node_Cons_others)
  next
    case (ZCsLookup key now)
    obtain r sh' where res: "crowdsec_lookup_locked ngx key now z sh = (r, sh')" by fastforce
    then have "zone_nodes sh' = snd (cs_lookup_spec z key now (zone_nodes sh))"
      using cs_lookup_refines [OF laws inv res] by (metis snd_conv)
    then show ?thesis
      using exp n res find_node_key
      by (auto simp: ZCsLookup ban_of_def cs_lookup_spec_def Let_def find_node_Cons_others
          split: option.splits)
  next
    case (ZCsUpsert key expiry action g now pulled)
    obtain r sh' where res: "crowdsec_upsert_locked ngx key expiry action g now pulled sh = (r, sh')"
      by fastforce
    have "node_key (focus ngx 0 key now ns) = key" for ns
      using ok by (intro focus_key) (simp add: ZCsUpsert op_ok_def)
    then show ?thesis
      using upsert_refines [OF laws inv _ res] ok n res rb
      by (auto simp: ZCsUpsert op_ok_def ban_of_def upsert_spec_def find_node_Cons_others)
  next
    case (ZCsSweep g batch)
    then show ?thesis using rb by simp
  qed
qed

interpretation zone_bans: ban_store "\<lambda>sh. zone_laws ngx \<and> zone_inv ngx sh" ban_of fst
  "zone_step ngx z" op_ok op_time rebinds for ngx z
  using zone_step_inv zone_step_keeps by unfold_locales auto

subsection \<open>Event rings\<close>

fun event_op :: "zone_op \<Rightarrow> bool" where
  "event_op (ZLookup key now) = True"
| "event_op (ZRecord key now) = True"
| "event_op (ZSoftban key now ttl) = True"
| "event_op op = False"

definition rings_ok :: "nat \<Rightarrow> ngx_sentinel_node list \<Rightarrow> bool" where
  "rings_ok threshold ns \<longleftrightarrow> (\<forall>n \<in> set ns. node_ok threshold n)"

lemma rings_ok_expire: "rings_ok t ns \<Longrightarrow> rings_ok t (expire_nodes interval now batch ns)"
  using expire_subset by (fastforce simp: rings_ok_def)

lemma rings_ok_Cons_others: "node_ok t n \<Longrightarrow> rings_ok t ns \<Longrightarrow> rings_ok t (n # others key ns)"
  by (auto simp: rings_ok_def others_def)

lemma focus_ok: "rings_ok t ns \<Longrightarrow> 1 \<le> t \<Longrightarrow> node_ok t (focus ngx t key now ns)"
  by (auto simp: rings_ok_def focus_def new_node_def node_ok_def dest: find_node_key split: option.split)

lemma node_ok_update [simp]:
  "node_ok t (n\<lparr>last_seen := x\<rparr>) = node_ok t n"
  "node_ok t (n\<lparr>blocked_until := b\<rparr>) = node_ok t n"
  by (simp_all add: node_ok_def)

lemma node_ok_reset: "node_ok t n \<Longrightarrow> 1 \<le> t \<Longrightarrow>
   node_ok t (n\<lparr>last_seen := x, blocked_until := b, event_head := 0, event_count := 0\<rparr>)"
  by (simp add: node_ok_def)

lemma event_step_rings:
  assumes laws: "zone_laws ngx" and inv: "zone_inv ngx sh" and ok: "op_ok op" "event_op op"
    and t: "1 \<le> zone_threshold z" and rings: "rings_ok (zone_threshold z) (zone_nodes sh)"
  shows "rings_ok (zone_threshold z) (zone_nodes (zone_step ngx z op sh))"
proof -
  let ?t = "zone_threshold z"
  note rings' = rings_ok_expire [OF rings]
  note fok = focus_ok [OF rings' t]
  show ?thesis
  proof (cases op)
    case (ZLookup key now)
    obtain r sh' where res: "errrate_lookup_locked ngx key now z sh = (r, sh')" by fastforce
    with lookup_refines(2) [OF laws inv _ this] ok
    have "zone_nodes sh' = snd (lookup_spec z key now (zone_nodes sh))"
      by (simp add: ZLookup op_ok_def) (metis snd_conv)
    moreover have "find_node key (expire_nodes (zone_interval z) now b (zone_nodes sh)) = Some n
        \<Longrightarrow> node_ok ?t n" for b n
      using rings' by (auto simp: rings_ok_def dest: find_node_key)
    ultimately show ?thesis
      using res rings' t
      by (auto simp: ZLookup lookup_spec_def Let_def split: option.split
          intro!: rings_ok_Cons_others node_ok_reset prune_window(2))
  next
    case (ZRecord key now)
    obtain r sh' where res: "errrate_record_locked ngx key now z sh = (r, sh')" by fastforce
    have "zone_nodes sh' = snd (record_spec ngx z key now (zone_nodes sh)) \<or>
        zone_nodes sh' = expire_nodes (zone_interval z) now NGX_SENTINEL_EXPIRE_BATCH (zone_nodes sh)"
      using record_refines [OF laws inv _ res] ok
      by (auto simp: ZRecord op_ok_def split: if_splits) (metis snd_conv)+
    then show ?thesis
      using res rings' fok
      by (auto simp: ZRecord record_spec_def Let_def
          intro!: rings_ok_Cons_others record_event_spec(1))
  next
    case (ZSoftban key now ttl)
    obtain r sh' where res: "softban_set_locked ngx key now ttl z sh = (r, sh')" by fastforce
    then show ?thesis
      using softban_refines [OF laws inv _ res] ok rings rings' fok t
      by (auto simp: ZSoftban op_ok_def softban_spec_def Let_def
          intro!: rings_ok_Cons_others node_ok_reset)
  qed (use ok in simp_all)
qed

lemma run_rings:
  assumes "zone_laws ngx" "1 \<le> zone_threshold z"
    and "zone_inv ngx sh" "rings_ok (zone_threshold z) (zone_nodes sh)"
    and "list_all (\<lambda>op. op_ok op \<and> event_op op) ops"
  shows "zone_inv ngx (fold (zone_step ngx z) ops sh) \<and>
    rings_ok (zone_threshold z) (zone_nodes (fold (zone_step ngx z) ops sh))"
  using assms(3-)
proof (induction ops arbitrary: sh)
  case (Cons op ops)
  then show ?case
    using zone_step_inv [OF assms(1)] event_step_rings [OF assms(1) _ _ _ assms(2)] by simp
qed simp

subsection \<open>A burst of events\<close>

text \<open>The events \<open>w\<close> of a key that has been neither blocked nor forgotten.\<close>

definition burst :: "string \<Rightarrow> int list \<Rightarrow> ngx_sentinel_node list \<Rightarrow> bool" where
  "burst key w ns \<longleftrightarrow>
     (case find_node key ns of
        None \<Rightarrow> w = []
      | Some n \<Rightarrow> w \<noteq> [] \<and> blocked_until n = 0 \<and> window n = w \<and> last_seen n = last w)"

fun record_run :: "ngx_api \<Rightarrow> ngx_sentinel_zone \<Rightarrow> string \<Rightarrow> int list \<Rightarrow> ngx_sentinel_shctx \<Rightarrow>
    errrate_result list \<times> ngx_sentinel_shctx" where
  "record_run ngx z key [] sh = ([], sh)"
| "record_run ngx z key (t # ts) sh =
     (let (r, sh1) = errrate_record_locked ngx key t z sh;
          (rs, sh2) = record_run ngx z key ts sh1
      in (r # rs, sh2))"

lemma burst_step:
  assumes laws: "zone_laws ngx" and inv: "zone_inv ngx sh" and len: "length key < 65536"
    and rings: "rings_ok (zone_threshold z) (zone_nodes sh)" and thr: "1 \<le> zone_threshold z"
    and b: "burst key w (zone_nodes sh)" and recent: "\<forall>s \<in> set w. t - zone_interval z < s"
    and block: "1 \<le> zone_block z" and time: "0 \<le> t"
    and res: "errrate_record_locked ngx key t z sh = (r, sh')" "fst r \<noteq> NGX_ERROR"
  shows "length w + 1 < zone_threshold z \<Longrightarrow>
      r = (NGX_OK, length w + 1, 0) \<and> burst key (w @ [t]) (zone_nodes sh')"
    and "zone_threshold z \<le> length w + 1 \<Longrightarrow>
      r = (NGX_BUSY, zone_threshold z, t + zone_block z) \<and>
      (\<exists>n. find_node key (zone_nodes sh') = Some n \<and> blocked_until n = t + zone_block z)"
proof -
  define ns where "ns = expire_nodes (zone_interval z) t NGX_SENTINEL_EXPIRE_BATCH (zone_nodes sh)"
  define n where "n = (focus ngx (zone_threshold z) key t ns)\<lparr>last_seen := t\<rparr>"
  define m where "m = record_event (zone_interval z) (zone_block z) (zone_threshold z) t n"
  have spec: "(r, zone_nodes sh') = record_spec ngx z key t (zone_nodes sh)"
    using record_refines [OF laws inv len res(1)] res(2) by simp
  have nok: "node_ok (zone_threshold z) n"
    using focus_ok [OF rings_ok_expire [OF rings] thr] by (simp add: n_def ns_def)
  have key: "node_key n = key" using focus_key [OF len] by (simp add: n_def)
  have n: "blocked_until n = 0" "window n = w"
  proof -
    have "blocked_until n = 0 \<and> window n = w"
    proof (cases "find_node key (zone_nodes sh)")
      case None
      then have "find_node key ns = None" unfolding ns_def by (rule expire_None)
      then show ?thesis using None b by (simp add: n_def focus_def new_node_def window_def burst_def)
    next
      case (Some p)
      then have "w \<noteq> []" "last_seen p = last w" using b by (simp_all add: burst_def)
      then have "t - zone_interval z < last_seen p" using recent by simp
      then have "find_node key ns = Some p"
        unfolding ns_def using Some by (intro expire_keeps) auto
      then show ?thesis using Some b by (simp add: n_def focus_def burst_def window_def)
    qed
    then show "blocked_until n = 0" "window n = w" by auto
  qed
  have live: "live_events (zone_interval z) t n = w"
    using n recent by (simp add: live_events_def filter_id_conv)
  note re = record_event_spec [OF nok, where now = t and interval = "zone_interval z"
      and block = "zone_block z", folded m_def, unfolded live]
  have rs: "r = (if blocked_until m > t then NGX_BUSY else NGX_OK,
        if blocked_until m > t then zone_threshold z else event_count m, blocked_until m)"
    "zone_nodes sh' = m # others key ns"
    using spec n(1) time
    unfolding record_spec_def Let_def ns_def [symmetric] n_def [symmetric] m_def [symmetric]
    by auto
  show "r = (NGX_OK, length w + 1, 0) \<and> burst key (w @ [t]) (zone_nodes sh')"
    if "length w + 1 < zone_threshold z"
  proof -
    have "last_seen m = t" using re(6) by (simp add: n_def)
    then show ?thesis
      using re(2) [OF that] re(4) key time rs by (simp add: burst_def find_node_Cons_others)
  qed
  show "r = (NGX_BUSY, zone_threshold z, t + zone_block z) \<and>
      (\<exists>n. find_node key (zone_nodes sh') = Some n \<and> blocked_until n = t + zone_block z)"
    if "zone_threshold z \<le> length w + 1"
    using re(3) [OF that] re(4) key rs block by (simp add: find_node_Cons_others)
qed

lemma burst_run:
  assumes laws: "zone_laws ngx" and len: "length key < 65536" and thr: "1 \<le> zone_threshold z"
    and block: "1 \<le> zone_block z"
    and "zone_inv ngx sh" "rings_ok (zone_threshold z) (zone_nodes sh)"
    and "burst key w (zone_nodes sh)" "length w + length ts < zone_threshold z"
    and "\<forall>s \<in> set (w @ ts). 0 \<le> s \<and> s \<le> t \<and> t - zone_interval z < s"
    and "record_run ngx z key ts sh = (rs, sh')" "\<forall>r \<in> set rs. fst r \<noteq> NGX_ERROR"
  shows "rs = map (\<lambda>i. (NGX_OK, length w + Suc i, 0)) [0..<length ts] \<and> zone_inv ngx sh' \<and>
    rings_ok (zone_threshold z) (zone_nodes sh') \<and> burst key (w @ ts) (zone_nodes sh')"
  using assms(5-)
proof (induction ts arbitrary: w sh rs)
  case (Cons s ts)
  obtain r sh1 rs1 where r: "errrate_record_locked ngx key s z sh = (r, sh1)"
      "record_run ngx z key ts sh1 = (rs1, sh')" "rs = r # rs1"
    using Cons.prems(6) by (auto split: prod.splits)
  have "zone_inv ngx sh1" "rings_ok (zone_threshold z) (zone_nodes sh1)"
    using zone_step_inv [OF laws Cons.prems(1), of "ZRecord key s" z]
      event_step_rings [OF laws Cons.prems(1) _ _ thr Cons.prems(2), of "ZRecord key s"] len r(1)
    by (simp_all add: op_ok_def)
  moreover have "\<forall>x \<in> set w. s - zone_interval z < x"
  proof
    fix x
    assume "x \<in> set w"
    then have "t - zone_interval z < x" "s \<le> t" using Cons.prems(5) by simp_all
    then show "s - zone_interval z < x" by linarith
  qed
  then have "r = (NGX_OK, length w + 1, 0)" "burst key (w @ [s]) (zone_nodes sh1)"
    using burst_step(1) [OF laws Cons.prems(1) len Cons.prems(2) thr Cons.prems(3) _ block _ r(1)]
      Cons.prems(4,5,7) r(3) by auto
  moreover have "map (\<lambda>i. (NGX_OK, length w + Suc i, 0::int)) [0..<length (s # ts)] =
      (NGX_OK, length w + 1, 0) # map (\<lambda>i. (NGX_OK, length (w @ [s]) + Suc i, 0)) [0..<length ts]"
    by (simp add: upt_conv_Cons map_Suc_upt [symmetric] del: upt_Suc)
  ultimately show ?case
    using Cons.IH [of sh1 "w @ [s]" rs1] Cons.prems r by simp
qed simp

subsection \<open>The slab block of a node\<close>

lemma create_node_size_exact:
  assumes "unat (sentinel_events_offset ngx (length key mod 2 ^ 16)) + 8 * threshold < 2 ^ 64"
  shows "unat (create_node_size ngx threshold (length key)) =
    unat (sentinel_events_offset ngx (length key mod 2 ^ 16)) + 8 * threshold"
proof -
  have "unat (of_nat threshold * 8 :: 64 word) = 8 * threshold"
    using assms by (simp add: unat_word_ariths unat_of_nat mult.commute)
  then show ?thesis
    using assms by (simp add: create_node_size_def unat_word_ariths)
qed

lemma velocity_rate_evaluates:
  "set_velocity_params ngx_shim [''rate=2305843009213693952''] (new_zone ''v'' 10 3600 100) =
     Inr (new_zone ''v'' 10 3600 2305843009213693952)"
proof -
  have "strncmp_eq 5 (''rate='' @ ''2305843009213693952'') ''rate=''"
    by (rule strncmp_eq_append) (simp_all add: NUL_def)
  then have pre: "strncmp_eq 5 ''rate=2305843009213693952'' ''rate=''" by simp
  have "shim_atoi ''2305843009213693952'' = Some 2305843009213693952"
    by (simp add: shim_atoi_def byte_of_def Let_def)
  then have a: "conf_atoi ngx_shim (drop 5 ''rate=2305843009213693952'') (\<lambda>v. \<not> v < 1) =
      Inr 2305843009213693952"
    by (simp add: ngx_shim_def)
  show ?thesis
    using pre unfolding set_velocity_params.simps a by (simp add: conf_then_def new_zone_def)
qed

subsection \<open>The concrete slab\<close>

text \<open>The slab of \<open>ngx_shim\<close> never runs out, so its records succeed.\<close>

lemma fold_max_ge: "x \<in> set q \<or> x \<le> m \<Longrightarrow> x \<le> fold max q (m::nat)"
  by (induction q arbitrary: m) (auto simp: le_max_iff_disj)

lemma shim_slab_Some: "zone_inv ngx sh \<Longrightarrow> slab_calloc ngx_shim sh n \<noteq> None"
  using fold_max_ge [of "Suc (fold max (sh_queue sh) 0)" "sh_queue sh" 0]
  by (auto simp: ngx_shim_def shim_slab_calloc_def Let_def zone_inv_def)

lemma shim_find_or_create:
  assumes "zone_inv ngx_shim sh"
  shows "find_or_create ngx_shim threshold key t sh \<noteq> None"
  using shim_slab_Some [OF assms, of "create_node_size ngx_shim threshold (length key)"]
  by (auto simp: find_or_create_focus split: option.splits)

lemma shim_record_ok:
  assumes "zone_inv ngx_shim sh"
  shows "fst (fst (errrate_record_locked ngx_shim key t z sh)) \<noteq> NGX_ERROR"
proof -
  let ?e = "sentinel_shm_expire ngx_shim (zone_interval z) t NGX_SENTINEL_EXPIRE_BATCH sh"
  have "zone_inv ngx_shim ?e" by (rule expire_refines(1) [OF ngx_shim_laws assms])
  then have "find_or_create ngx_shim (zone_threshold z) key t ?e \<noteq> None"
    by (rule shim_find_or_create)
  then show ?thesis
    by (auto simp: errrate_record_locked_def Let_def split: prod.splits if_splits)
qed

lemma shim_softban_ok:
  assumes "zone_inv ngx_shim sh" "0 < ttl"
  shows "fst (softban_set_locked ngx_shim key t ttl z sh) = NGX_OK"
proof -
  let ?e = "sentinel_shm_expire ngx_shim (zone_interval z) t NGX_SENTINEL_EXPIRE_BATCH sh"
  have "zone_inv ngx_shim ?e" by (rule expire_refines(1) [OF ngx_shim_laws assms(1)])
  then have "find_or_create ngx_shim (zone_threshold z) key t ?e \<noteq> None"
    by (rule shim_find_or_create)
  then show ?thesis
    using assms(2) by (auto simp: softban_set_locked_def Let_def split: prod.splits)
qed

lemma shim_upsert_ok:
  assumes "zone_inv ngx_shim sh"
  shows "fst (crowdsec_upsert_locked ngx_shim key expiry action g now pulled sh) = NGX_OK"
  using shim_slab_Some [OF assms, of "node_sizeof ngx_shim + of_nat (length key)"]
  by (auto simp: crowdsec_upsert_locked_def upsert_node_focus split: option.splits)

lemma shim_run_ok:
  "length key < 65536 \<Longrightarrow> zone_inv ngx_shim sh \<Longrightarrow> record_run ngx_shim z key ts sh = (rs, sh') \<Longrightarrow>
     \<forall>r \<in> set rs. fst r \<noteq> NGX_ERROR"
proof (induction ts arbitrary: sh rs)
  case (Cons t ts)
  then show ?case
    using shim_record_ok [OF Cons.prems(2), of key t z]
      zone_step_inv [OF ngx_shim_laws Cons.prems(2), of "ZRecord key t" z]
    by (fastforce simp: op_ok_def split: prod.splits)
qed simp

subsection \<open>Properties\<close>

text \<open>
  Claim C11: tree, queue and slab stay consistent. Starting from the context a new segment
  gets, after any sequence of lookups, records, soft bans, CrowdSec lookups, upserts and
  sweeps, at any times and whether or not allocations succeed, the queue has no node twice, the
  tree and the queue hold exactly the live nodes, the tree is ordered and every hash is the
  hash of its key.
\<close>

theorem zone_stays_well_formed:
  assumes "zone_laws ngx" and "list_all op_ok ops"
  shows "zone_inv ngx (fold (zone_step ngx z) ops fresh_shctx)"
  using zone_bans.run_invar [of ngx fresh_shctx ops z] assms by simp

theorem zone_stays_well_formed_witness:
  "zone_inv ngx_shim (fold (zone_step ngx_shim (new_zone ''z'' 300 3600 64))
     [ZRecord ''a'' 100, ZSoftban ''b'' 101 60, ZLookup ''a'' 102, ZCsSweep 1 10] fresh_shctx)"
  by (rule zone_stays_well_formed) (simp_all add: ngx_shim_laws op_ok_def)

text \<open>
  The event rings stay sound. In an error-rate or velocity zone with a positive
  threshold, after any sequence of lookups, records and soft bans, every node's ring starts at
  slot zero, has \<open>threshold\<close> slots and holds fewer events than slots, so every access of the
  compaction loop and of the append is in range.
\<close>

theorem event_rings_stay_sound:
  assumes "zone_laws ngx" and "1 \<le> zone_threshold z"
    and "list_all (\<lambda>op. op_ok op \<and> event_op op) ops"
  shows "rings_ok (zone_threshold z) (zone_nodes (fold (zone_step ngx z) ops fresh_shctx))"
  using run_rings [OF assms(1,2) fresh_inv _ assms(3)]
  by (simp add: rings_ok_def zone_nodes_def fresh_shctx_def)

theorem event_rings_stay_sound_witness:
  "rings_ok 64 (zone_nodes (fold (zone_step ngx_shim (new_zone ''z'' 300 3600 64))
     [ZRecord ''a'' 100, ZRecord ''a'' 101, ZSoftban ''b'' 101 60, ZLookup ''a'' 102] fresh_shctx))"
proof -
  let ?z = "new_zone ''z'' 300 3600 64"
  have "1 \<le> zone_threshold ?z" by (simp add: new_zone_def)
  then have "rings_ok (zone_threshold ?z) (zone_nodes (fold (zone_step ngx_shim ?z)
     [ZRecord ''a'' 100, ZRecord ''a'' 101, ZSoftban ''b'' 101 60, ZLookup ''a'' 102] fresh_shctx))"
    by (intro event_rings_stay_sound) (simp_all add: ngx_shim_laws op_ok_def)
  then show ?thesis by (simp add: new_zone_def)
qed

text \<open>
  Claim C13: the error-rate lookup counts exactly the events of the sliding window. In a sound
  zone the result is zero for an unknown identity, the threshold and the end of the block for
  a blocked one, and otherwise the number of recorded events younger than the interval.
\<close>

theorem lookup_counts_the_window:
  assumes "zone_laws ngx" and "zone_inv ngx sh" and "length key < 65536"
    and "rings_ok (zone_threshold z) (zone_nodes sh)"
  shows "fst (errrate_lookup_locked ngx key now z sh) =
    (case find_node key (expire_nodes (zone_interval z) now NGX_SENTINEL_EXPIRE_BATCH (zone_nodes sh)) of
       None \<Rightarrow> (NGX_OK, 0, 0)
     | Some n \<Rightarrow>
         if now < blocked_until n then (NGX_BUSY, zone_threshold z, blocked_until n)
         else (NGX_OK, length (live_events (zone_interval z) now n), 0))"
proof -
  let ?ns = "expire_nodes (zone_interval z) now NGX_SENTINEL_EXPIRE_BATCH (zone_nodes sh)"
  obtain r sh' where res: "errrate_lookup_locked ngx key now z sh = (r, sh')" by fastforce
  have r: "r = fst (lookup_spec z key now (zone_nodes sh))"
    using lookup_refines(2) [OF assms(1-3) res] by (metis fst_conv)
  show ?thesis
  proof (cases "find_node key ?ns")
    case None
    then show ?thesis by (simp add: res r lookup_spec_def Let_def)
  next
    case (Some n)
    then have "node_ok (zone_threshold z) (n\<lparr>last_seen := now\<rparr>)"
      using rings_ok_expire [OF assms(4)] by (auto simp: rings_ok_def dest: find_node_key)
    from prune_window(3) [OF this, of "zone_interval z" now] Some show ?thesis
      by (simp add: res r lookup_spec_def Let_def live_events_def window_def)
  qed
qed

theorem lookup_counts_the_window_witness:
  "fst (errrate_lookup_locked ngx_shim ''a'' 5 (new_zone ''z'' 300 3600 64) fresh_shctx) = (NGX_OK, 0, 0)"
proof -
  have "rings_ok (zone_threshold (new_zone ''z'' 300 3600 64)) (zone_nodes fresh_shctx)"
    by (simp add: rings_ok_def zone_nodes_def fresh_shctx_def)
  from lookup_counts_the_window [OF ngx_shim_laws fresh_inv _ this, of "''a''" 5] show ?thesis
    by (simp add: zone_nodes_def fresh_shctx_def NGX_SENTINEL_EXPIRE_BATCH_def eval_nat_numeral
        find_node_def)
qed

lemma burst_blocks:
  assumes "zone_laws ngx" and "zone_inv ngx sh" and "length key < 65536"
    and "rings_ok (zone_threshold z) (zone_nodes sh)" and "event_zone_ok z"
    and "find_node key (zone_nodes sh) = None"
    and "length ts + 1 = zone_threshold z"
    and "\<forall>s \<in> set (ts @ [t]). 0 \<le> s \<and> s \<le> t \<and> t - zone_interval z < s"
    and "record_run ngx z key (ts @ [t]) sh = (rs, sh')" and "\<forall>r \<in> set rs. fst r \<noteq> NGX_ERROR"
  shows "rs = map (\<lambda>i. (NGX_OK, Suc i, 0)) [0..<length ts] @ [(NGX_BUSY, zone_threshold z, t + zone_block z)] \<and>
    zone_inv ngx sh' \<and> (\<exists>n. find_node key (zone_nodes sh') = Some n \<and> blocked_until n = t + zone_block z)"
proof -
  have run_app: "record_run ngx z key (us @ [u]) s0 =
      (let (rs1, s1) = record_run ngx z key us s0; (r, s2) = errrate_record_locked ngx key u z s1
       in (rs1 @ [r], s2))" for us u s0
    by (induction us arbitrary: s0) (auto split: prod.splits)
  from assms(9) obtain rs1 s1 r where r: "record_run ngx z key ts sh = (rs1, s1)"
      "errrate_record_locked ngx key t z s1 = (r, sh')" "rs = rs1 @ [r]"
    unfolding run_app by (auto split: prod.splits)
  have z: "1 \<le> zone_threshold z" "1 \<le> zone_block z"
    using assms(5) by (auto simp: event_zone_ok_def)
  have "burst key [] (zone_nodes sh)" using assms(6) by (simp add: burst_def)
  from burst_run [OF assms(1,3) z assms(2,4) this _ _ r(1), of t] assms(7,8,10) r(3)
  have *: "rs1 = map (\<lambda>i. (NGX_OK, Suc i, 0)) [0..<length ts]" "zone_inv ngx s1"
    "rings_ok (zone_threshold z) (zone_nodes s1)" "burst key ts (zone_nodes s1)"
    by auto
  have "zone_inv ngx sh'" using zone_step_inv [OF assms(1) *(2), of "ZRecord key t" z] assms(3) r(2) by (simp add: op_ok_def)
  moreover have "r = (NGX_BUSY, zone_threshold z, t + zone_block z) \<and>
      (\<exists>n. find_node key (zone_nodes sh') = Some n \<and> blocked_until n = t + zone_block z)"
    using burst_step(2) [OF assms(1) *(2) assms(3) *(3) z(1) *(4) _ z(2) _ r(2)] assms(7,8,10) r(3)
    by auto
  ultimately show ?thesis using * r(3) by simp
qed

text \<open>
  Claim C12: an identity is blocked exactly at the threshold. For an identity the zone does not
  know, errors recorded within one window are counted one by one and answered \<open>NGX_OK\<close> until
  the threshold-th, which is answered \<open>NGX_BUSY\<close> with the end of the block; nothing blocks
  earlier and nothing later.
\<close>

theorem errors_block_exactly_at_threshold:
  assumes "zone_laws ngx" and "zone_inv ngx sh" and "length key < 65536"
    and "rings_ok (zone_threshold z) (zone_nodes sh)" and "event_zone_ok z"
    and "find_node key (zone_nodes sh) = None"
    and "length ts + 1 = zone_threshold z"
    and "\<forall>s \<in> set (ts @ [t]). 0 \<le> s \<and> s \<le> t \<and> t - zone_interval z < s"
    and "record_run ngx z key (ts @ [t]) sh = (rs, sh')" and "\<forall>r \<in> set rs. fst r \<noteq> NGX_ERROR"
  shows "rs = map (\<lambda>i. (NGX_OK, Suc i, 0)) [0..<length ts] @ [(NGX_BUSY, zone_threshold z, t + zone_block z)]"
  using burst_blocks [OF assms] by blast

theorem errors_block_exactly_at_threshold_witness:
  "fst (record_run ngx_shim (new_zone ''z'' 300 3600 3) ''a'' [100, 105, 110] fresh_shctx) =
     [(NGX_OK, 1, 0), (NGX_OK, 2, 0), (NGX_BUSY, 3, 3710)]"
proof -
  let ?z = "new_zone ''z'' 300 3600 3"
  obtain rs sh' where r: "record_run ngx_shim ?z ''a'' ([100, 105] @ [110]) fresh_shctx = (rs, sh')"
    by fastforce
  have "rs = map (\<lambda>i. (NGX_OK, Suc i, 0)) [0..<length [100, 105 :: int]]
      @ [(NGX_BUSY, zone_threshold ?z, 110 + zone_block ?z)]"
    using shim_run_ok [OF _ fresh_inv r]
    by (intro errors_block_exactly_at_threshold [OF ngx_shim_laws fresh_inv _ _ _ _ _ _ r])
      (simp_all add: rings_ok_def zone_nodes_def fresh_shctx_def find_node_def event_zone_ok_def
        new_zone_def)
  then show ?thesis using r by (simp add: new_zone_def eval_nat_numeral upt_rec)
qed

lemma softban_kept:
  assumes "zone_laws ngx" and "zone_inv ngx sh" and "length key < 65536"
    and "softban_set_locked ngx key now ttl z sh = (NGX_OK, sh1)"
    and "list_all op_ok ops" and "list_all (\<lambda>op. op_time op < now + ttl \<and> \<not> rebinds op key) ops"
    and "t < now + ttl"
  shows "fst (errrate_lookup_locked ngx key t z (fold (zone_step ngx z) ops sh1)) =
    (NGX_BUSY, zone_threshold z, now + ttl)"
proof -
  let ?n = "(focus ngx (zone_threshold z) key now
      (expire_nodes (zone_interval z) now NGX_SENTINEL_EXPIRE_BATCH (zone_nodes sh)))"
  let ?sh = "fold (zone_step ngx z) ops sh1"
  have s1: "zone_inv ngx sh1" "zone_nodes sh1 = softban_spec ngx z key now ttl (zone_nodes sh)"
    using softban_refines [OF assms(1-4)] by auto
  have "ban_of sh1 key = Some (now + ttl, cs_action ?n)"
    using focus_key [OF assms(3)] by (simp add: ban_of_def s1(2) softban_spec_def Let_def find_node_def)
  then have ban: "ban_of ?sh key = Some (now + ttl, cs_action ?n)"
    using zone_bans.run_keeps [of ngx sh1 ops key _ z] s1(1) assms(1,5,6) by simp
  have inv: "zone_inv ngx ?sh" using zone_bans.run_invar [of ngx sh1 ops z] s1(1) assms(1,5) by simp
  from ban obtain n where n: "find_node key (zone_nodes ?sh) = Some n" "blocked_until n = now + ttl"
    by (auto simp: ban_of_def)
  then have "find_node key (expire_nodes (zone_interval z) t NGX_SENTINEL_EXPIRE_BATCH (zone_nodes ?sh)) = Some n"
    using assms(7) by (intro expire_keeps) auto
  moreover obtain r sh' where res: "errrate_lookup_locked ngx key t z ?sh = (r, sh')" by fastforce
  ultimately show ?thesis
    using lookup_refines(2) [OF assms(1) inv assms(3) res] n assms(7)
    by (simp add: lookup_spec_def Let_def)
qed

text \<open>
  A soft ban outlives all other traffic. Once \<open>sentinel_shm_softban_set\<close> has answered
  \<open>NGX_OK\<close>, then after any sequence of operations on the zone before the ban's end, whatever
  they evict, that neither ban this identity again nor sweep the zone, a lookup of the identity
  before the end answers \<open>NGX_BUSY\<close> with that end.
\<close>

theorem softban_outlives_other_traffic:
  assumes "zone_laws ngx" and "zone_inv ngx sh" and "length key < 65536"
    and "softban_set_locked ngx key now ttl z sh = (NGX_OK, sh1)"
    and "list_all op_ok ops" and "list_all (\<lambda>op. op_time op < now + ttl \<and> \<not> rebinds op key) ops"
    and "t < now + ttl"
  shows "fst (errrate_lookup_locked ngx key t z (fold (zone_step ngx z) ops sh1)) =
    (NGX_BUSY, zone_threshold z, now + ttl)"
  by (rule softban_kept [OF assms])

theorem softban_outlives_other_traffic_witness:
  "fst (errrate_lookup_locked ngx_shim ''a'' 150 (new_zone ''z'' 300 3600 64)
     (fold (zone_step ngx_shim (new_zone ''z'' 300 3600 64)) [ZRecord ''b'' 120, ZLookup ''a'' 130]
       (snd (softban_set_locked ngx_shim ''a'' 100 60 (new_zone ''z'' 300 3600 64) fresh_shctx)))) =
   (NGX_BUSY, 64, 160)"
proof -
  let ?z = "new_zone ''z'' 300 3600 64"
  have s: "softban_set_locked ngx_shim ''a'' 100 60 ?z fresh_shctx =
      (NGX_OK, snd (softban_set_locked ngx_shim ''a'' 100 60 ?z fresh_shctx))"
    using shim_softban_ok [OF fresh_inv, of 60 "''a''" 100 ?z] by (simp add: prod_eq_iff)
  have "fst (errrate_lookup_locked ngx_shim ''a'' 150 ?z
     (fold (zone_step ngx_shim ?z) [ZRecord ''b'' 120, ZLookup ''a'' 130]
       (snd (softban_set_locked ngx_shim ''a'' 100 60 ?z fresh_shctx)))) =
      (NGX_BUSY, zone_threshold ?z, 100 + 60)"
    by (rule softban_outlives_other_traffic [OF ngx_shim_laws fresh_inv _ s])
      (simp_all add: op_ok_def)
  then show ?thesis by (simp add: new_zone_def)
qed

text \<open>
  Claim C14: what CrowdSec says about an address is what a lookup answers. After a successful
  upsert, and any operations before the decision expires that neither replace it nor sweep,
  a lookup before the expiry answers \<open>NGX_BUSY\<close> with the decision's action.
\<close>

theorem crowdsec_decision_round_trip:
  assumes "zone_laws ngx" and "zone_inv ngx sh" and "length key < 65536"
    and "crowdsec_upsert_locked ngx key expiry action g now pulled sh = (NGX_OK, sh1)"
    and "list_all op_ok ops" and "list_all (\<lambda>op. op_time op < expiry \<and> \<not> rebinds op key) ops"
    and "t < expiry"
  shows "fst (crowdsec_lookup_locked ngx key t z (fold (zone_step ngx z) ops sh1)) = (NGX_BUSY, action)"
proof -
  let ?sh = "fold (zone_step ngx z) ops sh1"
  have s1: "zone_inv ngx sh1" "zone_nodes sh1 = upsert_spec ngx key expiry action g now pulled (zone_nodes sh)"
    using upsert_refines [OF assms(1-4)] by auto
  have "ban_of sh1 key = Some (expiry, action)"
    using focus_key [OF assms(3)] by (simp add: ban_of_def s1(2) upsert_spec_def find_node_def)
  then have ban: "ban_of ?sh key = Some (expiry, action)"
    using zone_bans.run_keeps [of ngx sh1 ops key _ z] s1(1) assms(1,5,6) by simp
  have inv: "zone_inv ngx ?sh" using zone_bans.run_invar [of ngx sh1 ops z] s1(1) assms(1,5) by simp
  from ban obtain n where n: "find_node key (zone_nodes ?sh) = Some n" "blocked_until n = expiry"
      "cs_action n = action"
    by (auto simp: ban_of_def)
  then have "find_node key (expire_nodes (zone_interval z) t NGX_SENTINEL_EXPIRE_BATCH (zone_nodes ?sh)) = Some n"
    using assms(7) by (intro expire_keeps) auto
  moreover obtain r sh' where res: "crowdsec_lookup_locked ngx key t z ?sh = (r, sh')" by fastforce
  ultimately show ?thesis
    using cs_lookup_refines [OF assms(1) inv res] n assms(7)
    by (simp add: cs_lookup_spec_def Let_def)
qed

theorem crowdsec_decision_round_trip_witness:
  "fst (crowdsec_lookup_locked ngx_shim ''a'' 150 (new_zone ''c'' 600 0 0)
     (fold (zone_step ngx_shim (new_zone ''c'' 600 0 0)) [ZCsLookup ''b'' 120]
       (snd (crowdsec_upsert_locked ngx_shim ''a'' 200 CS_CAPTCHA 1 100 False fresh_shctx)))) =
   (NGX_BUSY, CS_CAPTCHA)"
proof -
  have s: "crowdsec_upsert_locked ngx_shim ''a'' 200 CS_CAPTCHA 1 100 False fresh_shctx =
      (NGX_OK, snd (crowdsec_upsert_locked ngx_shim ''a'' 200 CS_CAPTCHA 1 100 False fresh_shctx))"
    using shim_upsert_ok [OF fresh_inv, of "''a''" 200 CS_CAPTCHA 1 100 False] by (simp add: prod_eq_iff)
  show ?thesis
    by (rule crowdsec_decision_round_trip [OF ngx_shim_laws fresh_inv _ s]) (simp_all add: op_ok_def)
qed

text \<open>
  Claim C32: mark and sweep is exact. A sweep that removes fewer nodes than its batch leaves
  exactly the nodes of the given generation, in their LRU order; in every case it removes
  \<open>min batch stale\<close> nodes, none of the given generation, and leaves the zone well formed.
\<close>

theorem sweep_is_exact:
  assumes "zone_laws ngx" and "zone_inv ngx sh"
    and "sweep_loop ngx g batch (rev (sh_queue sh)) 0 sh = (d, sh')"
  shows "zone_inv ngx sh' \<and>
    d = min batch (length (filter (\<lambda>n. node_generation n \<noteq> g) (zone_nodes sh))) \<and>
    (d < batch \<longrightarrow> zone_nodes sh' = filter (\<lambda>n. node_generation n = g) (zone_nodes sh)) \<and>
    filter (\<lambda>n. node_generation n = g) (zone_nodes sh') =
      filter (\<lambda>n. node_generation n = g) (zone_nodes sh)"
proof -
  from sweep_all(6) [OF assms] obtain P where
    P: "zone_nodes sh' = filter P (zone_nodes sh)" "\<forall>n. node_generation n = g \<longrightarrow> P n" by blast
  have "filter (\<lambda>n. node_generation n = g) (zone_nodes sh') =
      filter (\<lambda>n. node_generation n = g) (zone_nodes sh)"
    unfolding P(1) filter_filter by (intro filter_cong) (use P(2) in auto)
  then show ?thesis using sweep_all [OF assms] by blast
qed

theorem sweep_is_exact_witness:
  "fst (sweep_loop ngx_shim 2 10 (rev (sh_queue fresh_shctx)) 0 fresh_shctx) = 0
   \<and> zone_inv ngx_shim (snd (sweep_loop ngx_shim 2 10 (rev (sh_queue fresh_shctx)) 0 fresh_shctx))"
proof -
  obtain d sh' where s: "sweep_loop ngx_shim 2 10 (rev (sh_queue fresh_shctx)) 0 fresh_shctx = (d, sh')"
    by fastforce
  from sweep_is_exact [OF ngx_shim_laws fresh_inv s] s show ?thesis
    by (simp add: zone_nodes_def fresh_shctx_def)
qed



text \<open>
  The velocity zone accepts a rate for which the size wraps. The setting
  \<open>rate=2305843009213693952\<close> is accepted, and the block of a node of that zone then has room for its key but for no slot
  of the ring at all, so the first recorded request is written behind the block.
\<close>

theorem velocity_rate_overflows_block:
  "set_velocity_params ngx_shim [''rate=2305843009213693952''] (new_zone ''v'' 10 3600 100) =
     Inr (new_zone ''v'' 10 3600 2305843009213693952)
   \<and> create_node_size ngx_shim (zone_threshold (new_zone ''v'' 10 3600 2305843009213693952)) 32 =
     sentinel_events_offset ngx_shim 32"
  using velocity_rate_evaluates by (simp add: create_node_size_def new_zone_def)

end
