(* ===== verification/Sentinel_Signals.thy ===== *)
theory Sentinel_Signals
  imports Sentinel_Table
begin

text \<open>
  The request signals that are computed from the request, the configuration and the event
  zones: \<^verbatim>\<open>sentinel_errrate.c\<close>, \<^verbatim>\<open>sentinel_velocity.c\<close>, \<^verbatim>\<open>sentinel_botua.c\<close>,
  \<^verbatim>\<open>sentinel_coherence.c\<close>, \<^verbatim>\<open>sentinel_header.c\<close>, \<^verbatim>\<open>sentinel_honeypot.c\<close>,
  \<^verbatim>\<open>sentinel_allowlist.c\<close>, \<^verbatim>\<open>sentinel_asn.c\<close>, \<^verbatim>\<open>sentinel_c2ip.c\<close> and the three
  fingerprint denylists \<^verbatim>\<open>sentinel_ja3sig.c\<close>, \<^verbatim>\<open>sentinel_ja4sig.c\<close>,
  \<^verbatim>\<open>sentinel_ja4tsig.c\<close>. Each signal writes its fields of \<open>inputs\<close>; the two that read a
  zone also return the main configuration, whose zone they have touched. The locale
  \<open>deny_signal\<close> is the contract the three denylists share.
\<close>

type_synonym request = ngx_http_request
type_synonym loc_conf = ngx_sentinel_loc_conf
type_synonym inputs = ngx_sentinel_inputs
type_synonym main_conf = ngx_sentinel_main_conf

text \<open>Call a zone operation on the zone at an index of one of the main configuration's arrays.\<close>

definition call_zone :: "(ngx_sentinel_zone option \<Rightarrow> 'r \<times> ngx_sentinel_zone option) \<Rightarrow> nat \<Rightarrow>
    ngx_sentinel_zone list \<Rightarrow> 'r \<times> ngx_sentinel_zone list" where
  "call_zone f i zs =
     (case f (if i < length zs then Some (zs ! i) else None) of
        (res, Some z) \<Rightarrow> (res, zs[i := z])
      | (res, None) \<Rightarrow> (res, zs))"

subsection \<open>Error rate and scanner paths\<close>

definition scanner_prefixes :: "string list" where
  "scanner_prefixes =
     [''/.env'', ''/.git'', ''/wp-login'', ''/wp-admin'', ''/.aws'', ''/phpinfo'']"

fun scanner_loop :: "ngx_api \<Rightarrow> string \<Rightarrow> string list \<Rightarrow> bool" where
  "scanner_loop ngx uri [] = False"
| "scanner_loop ngx uri (pfx # ps) =
     (if length uri \<ge> length pfx \<and> strncasecmp ngx uri pfx (length pfx) = 0 then True
      else scanner_loop ngx uri ps)"

definition sentinel_errrate_is_scanner_path :: "ngx_api \<Rightarrow> request \<Rightarrow> bool" where
  "sentinel_errrate_is_scanner_path ngx r = scanner_loop ngx (r_uri r) scanner_prefixes"

definition sentinel_errrate_signal :: "ngx_api \<Rightarrow> int \<Rightarrow> request \<Rightarrow> loc_conf \<Rightarrow>
    inputs \<times> main_conf \<Rightarrow> inputs \<times> main_conf" where
  "sentinel_errrate_signal ngx now r lcf st =
     (case st of (inp, mcf) \<Rightarrow>
      let inp = inp\<lparr>errrate_count := 0, errrate_blocked := False,
                    scanner_path := sentinel_errrate_is_scanner_path ngx r\<rparr>
      in case lcf_zone lcf of
           None \<Rightarrow> (inp, mcf)
         | Some i \<Rightarrow>
             if r_addr_text r = [] then (inp, mcf)
             else
               (case call_zone (\<lambda>z. sentinel_shm_errrate_lookup ngx z (sha256 ngx (r_addr_text r)) now)
                       i (mcf_zones mcf) of
                  ((rc, count, until), zs) \<Rightarrow>
                    if rc = NGX_ERROR then (inp, mcf\<lparr>mcf_zones := zs\<rparr>)
                    else (inp\<lparr>errrate_count := count, errrate_blocked := (rc = NGX_BUSY)\<rparr>,
                          mcf\<lparr>mcf_zones := zs\<rparr>)))"

subsection \<open>Velocity\<close>

definition sentinel_velocity_signal :: "ngx_api \<Rightarrow> int \<Rightarrow> request option \<Rightarrow> loc_conf option \<Rightarrow>
    inputs \<times> main_conf \<Rightarrow> inputs \<times> main_conf" where
  "sentinel_velocity_signal ngx now r lcf st =
     (case st of (inp, mcf) \<Rightarrow>
      let inp = inp\<lparr>velocity_exceeded := False\<rparr>
      in case (r, lcf) of
           (Some r, Some lcf) \<Rightarrow>
             (case zone_at (lcf_vel_zone lcf) of
                None \<Rightarrow> (inp, mcf)
              | Some i \<Rightarrow>
                  if r_addr_text r = [] then (inp, mcf)
                  else
                    (case call_zone (\<lambda>z. sentinel_shm_errrate_lookup ngx z (sha256 ngx (r_addr_text r)) now)
                            i (mcf_vel_zones mcf) of
                       ((rc, count, until), zs) \<Rightarrow>
                         if rc = NGX_ERROR then (inp, mcf\<lparr>mcf_vel_zones := zs\<rparr>)
                         else (inp\<lparr>velocity_exceeded := (rc = NGX_BUSY)\<rparr>,
                               mcf\<lparr>mcf_vel_zones := zs\<rparr>)))
         | _ \<Rightarrow> (inp, mcf))"

subsection \<open>User-Agent\<close>

definition good_ua_substrings :: "string list" where
  "good_ua_substrings =
     [''Googlebot'', ''Googlebot-Image'', ''Googlebot-News'', ''Googlebot-Video'', ''Bingbot'',
      ''Slurp'', ''DuckDuckBot'', ''Baiduspider'', ''YandexBot'', ''facebot'', ''ia_archiver'',
      ''UptimeRobot'', ''Pingdom'']"

definition bad_ua_substrings :: "string list" where
  "bad_ua_substrings =
     [''sqlmap'', ''nikto'', ''nmap'', ''masscan'', ''ZGrab'', ''zgrab'', ''Nuclei'', ''nuclei'',
      ''python-requests'', ''Go-http-client/1.1'', ''curl/7'', ''libwww-perl'', ''WPScan'',
      ''wpscan'', ''Acunetix'', ''acunetix'', ''Metasploit'', ''metasploit'', ''Burp'',
      ''dirbuster'', ''DirBuster'', ''gobuster'', ''ffuf'', ''feroxbuster'', ''WordPress/'']"

definition SENTINEL_BOT_UA_MIN_LEN :: nat where "SENTINEL_BOT_UA_MIN_LEN = 5"

text \<open>The search loop: \<open>i\<close> runs over the positions where the whole substring still fits.\<close>

function ua_loop :: "string \<Rightarrow> string \<Rightarrow> nat \<Rightarrow> bool" where
  "ua_loop ua sub i =
     (if i \<le> length ua - length sub then
        if ua ! i = sub ! 0 \<and> strncmp_eq (length sub) (drop i ua) sub then True
        else ua_loop ua sub (Suc i)
      else False)"
  by auto
termination
  by (relation "measure (\<lambda>(ua, sub, i). Suc (length ua - length sub) - i)") auto

declare ua_loop.simps [simp del]

definition ua_contains :: "string \<Rightarrow> string \<Rightarrow> bool" where
  "ua_contains ua sub =
     (if length sub = 0 \<or> length sub > length ua then False else ua_loop ua sub 0)"

text \<open>A table walk that stops at the first substring found.\<close>

fun ua_table :: "string \<Rightarrow> string list \<Rightarrow> bool" where
  "ua_table ua [] = False"
| "ua_table ua (sub # subs) = (if ua_contains ua sub then True else ua_table ua subs)"

definition sentinel_botua_signal :: "request \<Rightarrow> inputs \<Rightarrow> inputs" where
  "sentinel_botua_signal r inp =
     (let inp = inp\<lparr>bot_ua := False, known_good_ua := False\<rparr>
      in case r_user_agent r of
           None \<Rightarrow> inp\<lparr>bot_ua := True\<rparr>
         | Some ua \<Rightarrow>
             if length ua < SENTINEL_BOT_UA_MIN_LEN then inp\<lparr>bot_ua := True\<rparr>
             else if ua_table ua good_ua_substrings then inp\<lparr>known_good_ua := True\<rparr>
             else if ua_table ua bad_ua_substrings then inp\<lparr>bot_ua := True\<rparr>
             else inp)"

subsection \<open>Browser coherence\<close>

definition browser_ua_substrings :: "string list" where
  "browser_ua_substrings = [''Chrome/'', ''Firefox/'', ''Safari/'', ''Edg/'', ''Gecko/'']"

definition coh_ua_contains :: "string \<Rightarrow> string \<Rightarrow> bool" where
  "coh_ua_contains ua sub =
     (if length sub = 0 \<or> length sub > length ua then False else ua_loop ua sub 0)"

definition coh_accepts_gzip :: "request \<Rightarrow> bool" where
  "coh_accepts_gzip r =
     (case r_accept_encoding r of
        None \<Rightarrow> False
      | Some ae \<Rightarrow>
          if length ae = 0 then False
          else coh_ua_contains ae ''gzip'' \<or> coh_ua_contains ae ''br'')"

fun coh_looks_browser :: "string \<Rightarrow> string list \<Rightarrow> bool" where
  "coh_looks_browser ua [] = False"
| "coh_looks_browser ua (sub # subs) =
     (if coh_ua_contains ua sub then True else coh_looks_browser ua subs)"

definition has_value :: "string option \<Rightarrow> bool" where
  "has_value h = (case h of None \<Rightarrow> False | Some v \<Rightarrow> length v > 0)"

definition sentinel_coherence_signal :: "request option \<Rightarrow> inputs \<Rightarrow> inputs" where
  "sentinel_coherence_signal r inp =
     (let inp = inp\<lparr>ua_incoherent := False\<rparr>
      in case r of
           None \<Rightarrow> inp
         | Some r \<Rightarrow>
             (case r_user_agent r of
                None \<Rightarrow> inp
              | Some ua \<Rightarrow>
                  if \<not> coh_looks_browser ua browser_ua_substrings then inp
                  else
                    let has_accept = has_value (r_accept r);
                        has_accept_lang = has_value (r_accept_language r);
                        has_gzip = coh_accepts_gzip r;
                        modern_proto = r_http_version r \<ge> NGX_HTTP_VERSION_11
                    in if \<not> has_accept \<or> \<not> has_accept_lang \<or> \<not> has_gzip \<or> \<not> modern_proto
                       then inp\<lparr>ua_incoherent := True\<rparr> else inp))"

subsection \<open>Header anomalies\<close>

fun header_count_loop :: "ngx_api \<Rightarrow> string \<Rightarrow> ngx_table_elt list \<Rightarrow> nat \<Rightarrow> nat" where
  "header_count_loop ngx name [] n = n"
| "header_count_loop ngx name (h # hs) n =
     (if length (hdr_key h) = length name \<and> strncasecmp ngx (hdr_key h) name (length name) = 0
      then header_count_loop ngx name hs (n + 1) else header_count_loop ngx name hs n)"

definition header_count :: "ngx_api \<Rightarrow> request \<Rightarrow> string \<Rightarrow> nat" where
  "header_count ngx r name = header_count_loop ngx name (r_headers r) 0"

definition sentinel_header_signal :: "ngx_api \<Rightarrow> request option \<Rightarrow> inputs \<Rightarrow> inputs" where
  "sentinel_header_signal ngx r inp =
     (let inp = inp\<lparr>header_anomaly := False\<rparr>
      in case r of
           None \<Rightarrow> inp
         | Some r \<Rightarrow>
             if r_http_version r = NGX_HTTP_VERSION_11 \<and> r_host r = None
             then inp\<lparr>header_anomaly := True\<rparr>
             else if r_content_length r \<noteq> None \<and> r_transfer_encoding r \<noteq> None
             then inp\<lparr>header_anomaly := True\<rparr>
             else if header_count ngx r ''host'' > 1
             then inp\<lparr>header_anomaly := True\<rparr>
             else if r_user_agent r = None \<and> header_count ngx r ''accept'' = 0
             then inp\<lparr>header_anomaly := True\<rparr>
             else inp)"

subsection \<open>Honeypot and allowlist\<close>

fun honeypot_loop :: "string \<Rightarrow> string list \<Rightarrow> bool" where
  "honeypot_loop uri [] = False"
| "honeypot_loop uri (decoy # ds) =
     (if length uri \<ge> length decoy \<and> strncmp_eq (length decoy) uri decoy then True
      else honeypot_loop uri ds)"

definition sentinel_honeypot_signal :: "request option \<Rightarrow> loc_conf option \<Rightarrow> inputs \<Rightarrow> inputs" where
  "sentinel_honeypot_signal r lcf inp =
     (let inp = inp\<lparr>honeypot := False\<rparr>
      in case (r, lcf) of
           (Some r, Some lcf) \<Rightarrow>
             if length (lcf_decoy_paths lcf) = 0 then inp
             else if honeypot_loop (r_uri r) (lcf_decoy_paths lcf) then inp\<lparr>honeypot := True\<rparr>
             else inp
         | _ \<Rightarrow> inp)"

definition sentinel_allowlist_signal :: "ngx_api \<Rightarrow> request option \<Rightarrow> loc_conf option \<Rightarrow>
    inputs \<Rightarrow> inputs" where
  "sentinel_allowlist_signal ngx r lcf inp =
     (let inp = inp\<lparr>allowlisted := False\<rparr>
      in case (r, lcf) of
           (Some r, Some lcf) \<Rightarrow>
             if length (lcf_allow_cidrs lcf) = 0 then inp
             else
               (case r_sockaddr r of
                  None \<Rightarrow> inp
                | Some sa \<Rightarrow>
                    if cidr_match ngx sa (lcf_allow_cidrs lcf) then inp\<lparr>allowlisted := True\<rparr>
                    else inp)
         | _ \<Rightarrow> inp)"

subsection \<open>ASN and known command-and-control addresses\<close>

fun asn_loop :: "nat \<Rightarrow> nat list \<Rightarrow> bool" where
  "asn_loop parsed [] = False"
| "asn_loop parsed (a # as) = (if a = parsed then True else asn_loop parsed as)"

definition sentinel_asn_signal :: "ngx_api \<Rightarrow> request option \<Rightarrow> loc_conf option \<Rightarrow> inputs \<Rightarrow> inputs" where
  "sentinel_asn_signal ngx r lcf inp =
     (let inp = inp\<lparr>datacenter_asn := False\<rparr>
      in case (r, lcf) of
           (Some r, Some lcf) \<Rightarrow>
             (case lcf_asn_source lcf of
                None \<Rightarrow> inp
              | Some src \<Rightarrow>
                  if length (lcf_asn_list lcf) = 0 then inp
                  else
                    (case complex_value ngx r src of
                       None \<Rightarrow> inp
                     | Some val \<Rightarrow>
                         if length val = 0 then inp
                         else
                           (case atoi ngx val of
                              None \<Rightarrow> inp
                            | Some parsed \<Rightarrow>
                                if parsed \<le> 0 then inp
                                else if asn_loop (nat parsed) (lcf_asn_list lcf)
                                then inp\<lparr>datacenter_asn := True\<rparr> else inp)))
         | _ \<Rightarrow> inp)"

definition sentinel_c2ip_signal :: "ngx_api \<Rightarrow> request option \<Rightarrow> loc_conf option \<Rightarrow> inputs \<Rightarrow> inputs" where
  "sentinel_c2ip_signal ngx r lcf inp =
     (let inp = inp\<lparr>c2ip_flagged := False\<rparr>
      in case (r, lcf) of
           (Some r, Some lcf) \<Rightarrow>
             (case r_sockaddr r of
                None \<Rightarrow> inp
              | Some (AF_INET key) \<Rightarrow>
                  (case lcf_c2ip_tree lcf of
                     None \<Rightarrow> inp
                   | Some t \<Rightarrow> if radix32_find ngx t key then inp\<lparr>c2ip_flagged := True\<rparr> else inp)
              | Some (AF_INET6 addr) \<Rightarrow>
                  (case lcf_c2ip_tree6 lcf of
                     None \<Rightarrow> inp
                   | Some t \<Rightarrow> if radix128_find ngx t addr then inp\<lparr>c2ip_flagged := True\<rparr> else inp)
              | Some AF_UNIX \<Rightarrow> inp)
         | _ \<Rightarrow> inp)"

subsection \<open>Fingerprint denylists\<close>

fun deny_loop :: "ngx_api \<Rightarrow> string \<Rightarrow> string list \<Rightarrow> bool" where
  "deny_loop ngx val [] = False"
| "deny_loop ngx val (deny # ds) =
     (if length deny = length val \<and> strncasecmp ngx deny val (length val) = 0 then True
      else deny_loop ngx val ds)"

definition sentinel_ja3_signal :: "ngx_api \<Rightarrow> request option \<Rightarrow> loc_conf option \<Rightarrow> inputs \<Rightarrow> inputs" where
  "sentinel_ja3_signal ngx r lcf inp =
     (let inp = inp\<lparr>ja3_flagged := False\<rparr>
      in case (r, lcf) of
           (Some r, Some lcf) \<Rightarrow>
             (case lcf_ja3_source lcf of
                None \<Rightarrow> inp
              | Some src \<Rightarrow>
                  if length (lcf_ja3_list lcf) = 0 then inp
                  else
                    (case complex_value ngx r src of
                       None \<Rightarrow> inp
                     | Some val \<Rightarrow>
                         if length val = 0 then inp
                         else if deny_loop ngx val (lcf_ja3_list lcf)
                         then inp\<lparr>ja3_flagged := True\<rparr> else inp))
         | _ \<Rightarrow> inp)"

definition sentinel_ja4_signal :: "ngx_api \<Rightarrow> request option \<Rightarrow> loc_conf option \<Rightarrow> inputs \<Rightarrow> inputs" where
  "sentinel_ja4_signal ngx r lcf inp =
     (let inp = inp\<lparr>ja4_flagged := False\<rparr>
      in case (r, lcf) of
           (Some r, Some lcf) \<Rightarrow>
             (case lcf_ja4_source lcf of
                None \<Rightarrow> inp
              | Some src \<Rightarrow>
                  if length (lcf_ja4_list lcf) = 0 then inp
                  else
                    (case complex_value ngx r src of
                       None \<Rightarrow> inp
                     | Some val \<Rightarrow>
                         if length val = 0 then inp
                         else if deny_loop ngx val (lcf_ja4_list lcf)
                         then inp\<lparr>ja4_flagged := True\<rparr> else inp))
         | _ \<Rightarrow> inp)"

definition sentinel_ja4t_signal :: "ngx_api \<Rightarrow> request option \<Rightarrow> loc_conf option \<Rightarrow> inputs \<Rightarrow> inputs" where
  "sentinel_ja4t_signal ngx r lcf inp =
     (let inp = inp\<lparr>ja4t_flagged := False\<rparr>
      in case (r, lcf) of
           (Some r, Some lcf) \<Rightarrow>
             (case lcf_ja4t_source lcf of
                None \<Rightarrow> inp
              | Some src \<Rightarrow>
                  if length (lcf_ja4t_list lcf) = 0 then inp
                  else
                    (case complex_value ngx r src of
                       None \<Rightarrow> inp
                     | Some val \<Rightarrow>
                         if length val = 0 then inp
                         else if deny_loop ngx val (lcf_ja4t_list lcf)
                         then inp\<lparr>ja4t_flagged := True\<rparr> else inp))
         | _ \<Rightarrow> inp)"

subsection \<open>Case-insensitive comparison\<close>

lemma takeWhile_full: "length (takeWhile P xs) = length xs \<Longrightarrow> takeWhile P xs = xs"
  by (metis takeWhile_eq_take take_all_iff order_refl)

lemma strncasecmp_eq:
  assumes laws: "case_laws ngx" "memn2cmp_laws ngx"
    and len: "n \<le> length a" "length b = n" and nul: "NUL \<notin> set b"
  shows "strncasecmp ngx a b n = 0 \<longleftrightarrow> map (ngx_tolower ngx) (take n a) = map (ngx_tolower ngx) b"
proof -
  have b: "case_fold ngx n b = map (ngx_tolower ngx) b"
    using len(2) nul by (auto simp: case_fold_def intro!: arg_cong [where f = "map _"])
  have "strncasecmp ngx a b n = 0 \<longleftrightarrow> sgn (strncasecmp ngx a b n) = 0" by (simp add: sgn_0_0)
  also have "\<dots> \<longleftrightarrow> memn2cmp ngx (case_fold ngx n a) (case_fold ngx n b) = 0"
    using laws(1) by (simp add: case_laws_def sgn_0_0)
  also have "\<dots> \<longleftrightarrow> case_fold ngx n a = map (ngx_tolower ngx) b"
    using laws(2) by (simp add: memn2cmp_laws_def b)
  also have "\<dots> \<longleftrightarrow> map (ngx_tolower ngx) (take n a) = map (ngx_tolower ngx) b"
  proof
    assume e: "case_fold ngx n a = map (ngx_tolower ngx) b"
    have "length (takeWhile (\<lambda>c. c \<noteq> NUL) (take n a)) = length (take n a)"
      using arg_cong [OF e, of length] len by (simp add: case_fold_def)
    then show "map (ngx_tolower ngx) (take n a) = map (ngx_tolower ngx) b"
      using e by (simp add: case_fold_def takeWhile_full)
  next
    assume e: "map (ngx_tolower ngx) (take n a) = map (ngx_tolower ngx) b"
    have low: "ngx_tolower ngx c = NUL \<longleftrightarrow> c = NUL" for c
      using laws(1) by (simp add: case_laws_def)
    have "NUL \<notin> set (take n a)"
    proof
      assume "NUL \<in> set (take n a)"
      then have "ngx_tolower ngx NUL \<in> set (map (ngx_tolower ngx) (take n a))"
        by (simp only: set_map imageI)
      then have "ngx_tolower ngx NUL \<in> ngx_tolower ngx ` set b" by (simp only: e set_map)
      then obtain c where "c \<in> set b" "ngx_tolower ngx c = ngx_tolower ngx NUL"
        by (elim imageE) (simp only:)
      then show False using nul low [of NUL] low [of c] by simp
    qed
    then have "takeWhile (\<lambda>c. c \<noteq> NUL) (take n a) = take n a"
      unfolding takeWhile_eq_all_conv by blast
    then show "case_fold ngx n a = map (ngx_tolower ngx) b"
      using e unfolding case_fold_def by (simp only:)
  qed
  finally show ?thesis .
qed

text \<open>Two header names, or two fingerprints, that differ in case only.\<close>

definition same_name :: "ngx_api \<Rightarrow> string \<Rightarrow> string \<Rightarrow> bool" where
  "same_name ngx a b \<longleftrightarrow> map (ngx_tolower ngx) a = map (ngx_tolower ngx) b"

lemma same_name_length: "same_name ngx a b \<Longrightarrow> length a = length b"
  unfolding same_name_def by (metis length_map)

lemma strncasecmp_same_name:
  assumes "case_laws ngx" "memn2cmp_laws ngx" "NUL \<notin> set b"
  shows "length a = length b \<and> strncasecmp ngx a b (length b) = 0 \<longleftrightarrow> same_name ngx a b"
  using assms strncasecmp_eq [OF assms(1,2), of "length b" a b] same_name_length [of ngx a b]
  by (auto simp: same_name_def)

subsection \<open>Substring search\<close>

lemma ua_loop_iff:
  "NUL \<notin> set sub \<Longrightarrow> sub \<noteq> [] \<Longrightarrow> length sub \<le> length ua \<Longrightarrow>
     ua_loop ua sub i \<longleftrightarrow> (\<exists>j \<ge> i. j \<le> length ua - length sub \<and> prefix sub (drop j ua))"
proof (induction ua sub i rule: ua_loop.induct)
  case (1 ua sub i)
  show ?case
  proof (cases "i \<le> length ua - length sub")
    case True
    have "0 < length sub" using 1(3) by simp
    then have "i < length ua" using True 1(4) by linarith
    then have hd: "prefix sub (drop i ua) \<Longrightarrow> ua ! i = sub ! 0"
      using 1(3) by (auto simp: prefix_def nth_append dest!: arg_cong [where f = "\<lambda>l. l ! 0"])
    have step: "(\<exists>j \<ge> i. j \<le> length ua - length sub \<and> prefix sub (drop j ua)) \<longleftrightarrow>
        prefix sub (drop i ua) \<or> (\<exists>j \<ge> Suc i. j \<le> length ua - length sub \<and> prefix sub (drop j ua))"
      using True by (metis Suc_leD Suc_leI le_eq_less_or_eq)
    show ?thesis
    proof (cases "prefix sub (drop i ua)")
      case True
      then show ?thesis
        using hd step \<open>i \<le> length ua - length sub\<close> 1(2) unfolding ua_loop.simps [of ua sub i]
        by (simp add: strncmp_eq_prefix)
    next
      case False
      then show ?thesis
        using 1 step \<open>i \<le> length ua - length sub\<close> unfolding ua_loop.simps [of ua sub i]
        by (simp add: strncmp_eq_prefix)
    qed
  next
    case False
    then show ?thesis unfolding ua_loop.simps [of ua sub i] by auto
  qed
qed

lemma ua_contains_sublist:
  assumes "NUL \<notin> set sub"
  shows "ua_contains ua sub \<longleftrightarrow> sub \<noteq> [] \<and> sublist sub ua"
proof (cases "sub = [] \<or> length ua < length sub")
  case True
  then show ?thesis using sublist_length_le [of sub ua] by (auto simp: ua_contains_def)
next
  case False
  have "(\<exists>j. j \<le> length ua - length sub \<and> prefix sub (drop j ua)) \<longleftrightarrow> sublist sub ua"
  proof
    assume "\<exists>j. j \<le> length ua - length sub \<and> prefix sub (drop j ua)"
    then obtain j t where "drop j ua = sub @ t" by (auto simp: prefix_def)
    then have "ua = take j ua @ sub @ t" by (metis append_take_drop_id)
    then show "sublist sub ua" unfolding sublist_def by blast
  next
    assume "sublist sub ua"
    then obtain p t where "ua = p @ sub @ t" by (auto simp: sublist_def)
    then have "length p \<le> length ua - length sub \<and> prefix sub (drop (length p) ua)" by simp
    then show "\<exists>j. j \<le> length ua - length sub \<and> prefix sub (drop j ua)" by blast
  qed
  then show ?thesis using False assms by (simp add: ua_contains_def ua_loop_iff)
qed

lemma coh_ua_contains_eq [simp]: "coh_ua_contains = ua_contains"
  by (simp add: fun_eq_iff coh_ua_contains_def ua_contains_def)

text \<open>The tables hold non-empty strings without a zero byte.\<close>

definition c_strings :: "string list \<Rightarrow> bool" where
  "c_strings subs \<longleftrightarrow> list_all (\<lambda>s. s \<noteq> [] \<and> list_all (\<lambda>c. c \<noteq> NUL) s) subs"

lemma c_strings_tables:
  "c_strings good_ua_substrings" "c_strings bad_ua_substrings" "c_strings browser_ua_substrings"
  by (simp_all add: c_strings_def good_ua_substrings_def bad_ua_substrings_def
      browser_ua_substrings_def NUL_def)

lemma ua_table_iff: "c_strings subs \<Longrightarrow> ua_table ua subs \<longleftrightarrow> (\<exists>s \<in> set subs. sublist s ua)"
proof (induction subs)
  case (Cons s subs)
  then have "NUL \<notin> set s" "s \<noteq> []" by (auto simp: c_strings_def list_all_iff)
  then show ?case using Cons by (auto simp: ua_contains_sublist c_strings_def)
qed simp

lemma coh_looks_browser_eq: "coh_looks_browser ua subs = ua_table ua subs"
  by (induction subs) auto

subsection \<open>The loops as list predicates\<close>

lemma scanner_loop_iff:
  "scanner_loop ngx uri ps \<longleftrightarrow>
     (\<exists>p \<in> set ps. length p \<le> length uri \<and> strncasecmp ngx uri p (length p) = 0)"
  by (induction ps) auto

lemma honeypot_loop_iff:
  "honeypot_loop uri ds \<longleftrightarrow> (\<exists>d \<in> set ds. length d \<le> length uri \<and> strncmp_eq (length d) uri d)"
  by (induction ds) auto

lemma asn_loop_iff [simp]: "asn_loop a as \<longleftrightarrow> a \<in> set as"
  by (induction as) auto

lemma deny_loop_iff:
  "deny_loop ngx val ds \<longleftrightarrow>
     (\<exists>d \<in> set ds. length d = length val \<and> strncasecmp ngx d val (length val) = 0)"
  by (induction ds) auto

lemma header_count_loop_filter:
  "header_count_loop ngx name hs n =
     n + length (filter (\<lambda>h. length (hdr_key h) = length name \<and>
                             strncasecmp ngx (hdr_key h) name (length name) = 0) hs)"
  by (induction hs arbitrary: n) auto

lemma header_count_same_name:
  assumes "case_laws ngx" "memn2cmp_laws ngx" "NUL \<notin> set name"
  shows "header_count ngx r name = length (filter (\<lambda>h. same_name ngx (hdr_key h) name) (r_headers r))"
  by (simp add: header_count_def header_count_loop_filter strncasecmp_same_name [OF assms])

subsection \<open>Denylists: one contract, three signals\<close>

text \<open>A denylist signal sets one flag, exactly when the configured variable resolves to a
  non-empty value that a listed fingerprint matches.\<close>

locale deny_signal =
  fixes signal :: "ngx_api \<Rightarrow> request option \<Rightarrow> loc_conf option \<Rightarrow> inputs \<Rightarrow> inputs"
    and flag :: "inputs \<Rightarrow> bool"
    and source :: "loc_conf \<Rightarrow> string option"
    and denied :: "loc_conf \<Rightarrow> string list"
  assumes null_args: "ro = None \<or> lo = None \<Longrightarrow> \<not> flag (signal ngx ro lo inp)"
    and flag_iff: "flag (signal ngx (Some r) (Some l) inp) \<longleftrightarrow>
      (\<exists>src val. source l = Some src \<and> complex_value ngx r src = Some val \<and> val \<noteq> [] \<and>
                 deny_loop ngx val (denied l))"
begin

lemma fails_open:
  assumes "source l = None \<or> denied l = [] \<or> (\<forall>src. complex_value ngx r src = None)"
  shows "\<not> flag (signal ngx (Some r) (Some l) inp)"
  using assms by (auto simp: flag_iff)

lemma flags_denied_value:
  assumes laws: "case_laws ngx" "memn2cmp_laws ngx"
    and src: "source l = Some src" "complex_value ngx r src = Some val" "NUL \<notin> set val"
  shows "flag (signal ngx (Some r) (Some l) inp) \<longleftrightarrow>
     val \<noteq> [] \<and> (\<exists>d \<in> set (denied l). same_name ngx d val)"
  using src strncasecmp_same_name [OF laws src(3)] by (auto simp: flag_iff deny_loop_iff)

end

interpretation ja3: deny_signal sentinel_ja3_signal ja3_flagged lcf_ja3_source lcf_ja3_list
  by unfold_locales (auto simp: sentinel_ja3_signal_def Let_def split: option.split)

interpretation ja4: deny_signal sentinel_ja4_signal ja4_flagged lcf_ja4_source lcf_ja4_list
  by unfold_locales (auto simp: sentinel_ja4_signal_def Let_def split: option.split)

interpretation ja4t: deny_signal sentinel_ja4t_signal ja4t_flagged lcf_ja4t_source lcf_ja4t_list
  by unfold_locales (auto simp: sentinel_ja4t_signal_def Let_def split: option.split)

subsection \<open>Closed forms\<close>

text \<open>Each signal overwrites its own fields and nothing else.\<close>

lemma botua_closed [signal_simps]:
  "sentinel_botua_signal r inp =
     inp\<lparr>bot_ua := bot_ua (sentinel_botua_signal r zero_inputs),
         known_good_ua := known_good_ua (sentinel_botua_signal r zero_inputs)\<rparr>"
  by (auto simp: sentinel_botua_signal_def Let_def split: option.split)

lemma header_closed [signal_simps]:
  "sentinel_header_signal ngx r inp =
     inp\<lparr>header_anomaly := header_anomaly (sentinel_header_signal ngx r zero_inputs)\<rparr>"
  by (auto simp: sentinel_header_signal_def Let_def split: option.split)

lemma honeypot_closed [signal_simps]:
  "sentinel_honeypot_signal r l inp =
     inp\<lparr>honeypot := honeypot (sentinel_honeypot_signal r l zero_inputs)\<rparr>"
  by (auto simp: sentinel_honeypot_signal_def Let_def split: option.split)

lemma allowlist_closed [signal_simps]:
  "sentinel_allowlist_signal ngx r l inp =
     inp\<lparr>allowlisted := allowlisted (sentinel_allowlist_signal ngx r l zero_inputs)\<rparr>"
  by (auto simp: sentinel_allowlist_signal_def Let_def split: option.split)

lemma asn_closed [signal_simps]:
  "sentinel_asn_signal ngx r l inp =
     inp\<lparr>datacenter_asn := datacenter_asn (sentinel_asn_signal ngx r l zero_inputs)\<rparr>"
  by (auto simp: sentinel_asn_signal_def Let_def split: option.split)

lemma c2ip_closed [signal_simps]:
  "sentinel_c2ip_signal ngx r l inp =
     inp\<lparr>c2ip_flagged := c2ip_flagged (sentinel_c2ip_signal ngx r l zero_inputs)\<rparr>"
  by (auto simp: sentinel_c2ip_signal_def Let_def split: option.split sockaddr.split)

lemma ja3_closed [signal_simps]:
  "sentinel_ja3_signal ngx r l inp =
     inp\<lparr>ja3_flagged := ja3_flagged (sentinel_ja3_signal ngx r l zero_inputs)\<rparr>"
  by (auto simp: sentinel_ja3_signal_def Let_def split: option.split)

lemma ja4_closed [signal_simps]:
  "sentinel_ja4_signal ngx r l inp =
     inp\<lparr>ja4_flagged := ja4_flagged (sentinel_ja4_signal ngx r l zero_inputs)\<rparr>"
  by (auto simp: sentinel_ja4_signal_def Let_def split: option.split)

lemma ja4t_closed [signal_simps]:
  "sentinel_ja4t_signal ngx r l inp =
     inp\<lparr>ja4t_flagged := ja4t_flagged (sentinel_ja4t_signal ngx r l zero_inputs)\<rparr>"
  by (auto simp: sentinel_ja4t_signal_def Let_def split: option.split)

lemma coherence_closed [signal_simps]:
  "sentinel_coherence_signal r inp =
     inp\<lparr>ua_incoherent := ua_incoherent (sentinel_coherence_signal r zero_inputs)\<rparr>"
  by (auto simp: sentinel_coherence_signal_def Let_def split: option.split)

subsection \<open>What the signals mean\<close>

lemma coherence_iff:
  "ua_incoherent (sentinel_coherence_signal (Some r) inp) \<longleftrightarrow>
     (\<exists>ua. r_user_agent r = Some ua \<and> (\<exists>b \<in> set browser_ua_substrings. sublist b ua)) \<and>
     \<not> (has_value (r_accept r) \<and> has_value (r_accept_language r) \<and> coh_accepts_gzip r \<and>
        1001 \<le> r_http_version r)"
  by (simp add: sentinel_coherence_signal_def Let_def coh_looks_browser_eq NGX_HTTP_VERSION_11_def
      ua_table_iff c_strings_tables split: option.split)

text \<open>The User-Agent is classified by substring: a request is a declared crawler exactly
  when its User-Agent has at least five bytes and contains a name of the good table; it is a
  bot exactly when the header is missing, shorter than five bytes, or contains a name of the
  bad table and none of the good table. The two flags are never set together.\<close>

theorem user_agent_classification:
  "(known_good_ua (sentinel_botua_signal r inp) \<longleftrightarrow>
      (\<exists>ua. r_user_agent r = Some ua \<and> 5 \<le> length ua \<and>
            (\<exists>g \<in> set good_ua_substrings. sublist g ua))) \<and>
   (bot_ua (sentinel_botua_signal r inp) \<longleftrightarrow>
      (case r_user_agent r of
         None \<Rightarrow> True
       | Some ua \<Rightarrow> length ua < 5 \<or>
           \<not> (\<exists>g \<in> set good_ua_substrings. sublist g ua) \<and> (\<exists>b \<in> set bad_ua_substrings. sublist b ua))) \<and>
   \<not> (known_good_ua (sentinel_botua_signal r inp) \<and> bot_ua (sentinel_botua_signal r inp))"
  by (auto simp: sentinel_botua_signal_def Let_def SENTINEL_BOT_UA_MIN_LEN_def ua_table_iff
      c_strings_tables split: option.split)

text \<open>Claim C39: a request that claims a mainstream browser is flagged incoherent when any one of
  Accept, Accept-Language, gzip or br in Accept-Encoding and HTTP/1.1 is missing, and a request
  that has all four, a Host header once, a Content-Length or a Transfer-Encoding but not both,
  and names no tool, raises neither the bot, nor the header, nor the coherence signal.\<close>

theorem honest_browser_raises_no_signal:
  assumes laws: "case_laws ngx" "memn2cmp_laws ngx"
    and ua: "r_user_agent r = Some ua" "b \<in> set browser_ua_substrings" "sublist b ua" "5 \<le> length ua"
    and no_tool: "\<not> (\<exists>t \<in> set bad_ua_substrings. sublist t ua)"
    and shape: "r_host r \<noteq> None" "r_content_length r = None \<or> r_transfer_encoding r = None"
      "length (filter (\<lambda>h. same_name ngx (hdr_key h) ''host'') (r_headers r)) \<le> 1"
  shows "\<not> bot_ua (sentinel_botua_signal r inp) \<and>
         \<not> header_anomaly (sentinel_header_signal ngx (Some r) inp) \<and>
         (ua_incoherent (sentinel_coherence_signal (Some r) inp) \<longleftrightarrow>
           \<not> (has_value (r_accept r) \<and> has_value (r_accept_language r) \<and> coh_accepts_gzip r \<and>
              1001 \<le> r_http_version r))"
proof (intro conjI)
  show "\<not> bot_ua (sentinel_botua_signal r inp)"
    using ua(1,4) no_tool
    by (simp add: sentinel_botua_signal_def Let_def SENTINEL_BOT_UA_MIN_LEN_def ua_table_iff
        c_strings_tables)
  have "NUL \<notin> set ''host''" by (simp add: NUL_def)
  then show "\<not> header_anomaly (sentinel_header_signal ngx (Some r) inp)"
    using shape ua(1)
    by (auto simp: sentinel_header_signal_def Let_def header_count_same_name [OF laws])
  show "ua_incoherent (sentinel_coherence_signal (Some r) inp) \<longleftrightarrow>
           \<not> (has_value (r_accept r) \<and> has_value (r_accept_language r) \<and> coh_accepts_gzip r \<and>
              1001 \<le> r_http_version r)"
    using ua(1,2,3) by (auto simp: coherence_iff)
qed

definition browser_request :: ngx_http_request where
  "browser_request =
     \<lparr>r_uri = ''/'', r_method = HTTP_GET, r_http_version = 1001,
      r_headers = [\<lparr>hdr_hash = 1, hdr_key = ''Host'', hdr_value = ''example.org''\<rparr>],
      r_host = Some ''example.org'', r_content_length = None, r_transfer_encoding = None,
      r_user_agent = Some ''Chrome/120'', r_accept = Some ''text/html'',
      r_accept_language = Some ''en'', r_accept_encoding = Some ''gzip'', r_cookie = [], r_args = [],
      r_addr_text = ''192.0.2.1'', r_sockaddr = Some (AF_INET 3221225985),
      r_err_status = 0, r_out_status = 200\<rparr>"

theorem honest_browser_raises_no_signal_witness:
  "\<not> bot_ua (sentinel_botua_signal browser_request zero_inputs) \<and>
   \<not> header_anomaly (sentinel_header_signal ngx_shim (Some browser_request) zero_inputs) \<and>
   \<not> ua_incoherent (sentinel_coherence_signal (Some browser_request) zero_inputs)"
proof -
  have laws: "case_laws ngx_shim" "memn2cmp_laws ngx_shim"
    using ngx_shim_case ngx_shim_laws by (auto simp: zone_laws_def)
  have ua: "r_user_agent browser_request = Some ''Chrome/120''" by (simp add: browser_request_def)
  have b: "''Chrome/'' \<in> set browser_ua_substrings" "sublist ''Chrome/'' ''Chrome/120''"
    by (simp_all add: browser_ua_substrings_def)
  have t: "\<not> (\<exists>t \<in> set bad_ua_substrings. sublist t ''Chrome/120'')"
    by code_simp
  have s: "r_host browser_request \<noteq> None" "r_content_length browser_request = None"
    "length (filter (\<lambda>h. same_name ngx_shim (hdr_key h) ''host'') (r_headers browser_request)) \<le> 1"
    by (simp_all add: browser_request_def)
  have g: "coh_accepts_gzip browser_request"
    using ua_contains_sublist [of "''gzip''" "''gzip''"]
    by (simp add: coh_accepts_gzip_def browser_request_def NUL_def)
  have v: "has_value (r_accept browser_request)" "has_value (r_accept_language browser_request)"
    "1001 \<le> r_http_version browser_request"
    by (simp_all add: has_value_def browser_request_def)
  show ?thesis
    using honest_browser_raises_no_signal [OF laws ua b _ t s(1) disjI1 [OF s(2)] s(3)] g v by simp
qed

text \<open>A TLS or TCP fingerprint signal (JA3, JA4, JA4T) is raised exactly when the
  configured variable resolves to a non-empty value that equals, letter case aside, an entry of
  the location's denylist; without a source, a list or a resolvable value it stays off.\<close>

theorem fingerprint_denylists_match_exactly:
  assumes laws: "case_laws ngx" "memn2cmp_laws ngx"
    and v3: "lcf_ja3_source l = Some s3" "complex_value ngx r s3 = Some v3" "NUL \<notin> set v3"
    and v4: "lcf_ja4_source l = Some s4" "complex_value ngx r s4 = Some v4" "NUL \<notin> set v4"
    and vt: "lcf_ja4t_source l = Some st" "complex_value ngx r st = Some vt" "NUL \<notin> set vt"
  shows "(ja3_flagged (sentinel_ja3_signal ngx (Some r) (Some l) inp) \<longleftrightarrow>
            v3 \<noteq> [] \<and> (\<exists>d \<in> set (lcf_ja3_list l). same_name ngx d v3)) \<and>
         (ja4_flagged (sentinel_ja4_signal ngx (Some r) (Some l) inp) \<longleftrightarrow>
            v4 \<noteq> [] \<and> (\<exists>d \<in> set (lcf_ja4_list l). same_name ngx d v4)) \<and>
         (ja4t_flagged (sentinel_ja4t_signal ngx (Some r) (Some l) inp) \<longleftrightarrow>
            vt \<noteq> [] \<and> (\<exists>d \<in> set (lcf_ja4t_list l). same_name ngx d vt))"
  using ja3.flags_denied_value [OF laws v3] ja4.flags_denied_value [OF laws v4]
    ja4t.flags_denied_value [OF laws vt] by auto

theorem fingerprint_denylists_match_exactly_witness:
  "\<exists>l. ja3_flagged (sentinel_ja3_signal ngx_shim (Some browser_request) (Some l) zero_inputs) \<and>
       \<not> ja4_flagged (sentinel_ja4_signal ngx_shim (Some browser_request) (Some l) zero_inputs) \<and>
       \<not> ja4t_flagged (sentinel_ja4t_signal ngx_shim (Some browser_request) (Some l) zero_inputs)"
proof -
  define l where "l = default_loc_conf
    \<lparr>lcf_ja3_source := Some ''AB'', lcf_ja3_list := [''aB''], lcf_ja4_source := Some ''t13'',
     lcf_ja4_list := [''q13''], lcf_ja4t_source := Some [], lcf_ja4t_list := [''x'']\<rparr>"
  have laws: "case_laws ngx_shim" "memn2cmp_laws ngx_shim"
    using ngx_shim_case ngx_shim_laws by (auto simp: zone_laws_def)
  have v: "complex_value ngx_shim browser_request s = Some s" for s by (simp add: ngx_shim_def)
  have low: "same_name ngx_shim a b = (map shim_tolower a = map shim_tolower b)" for a b
    by (simp add: same_name_def ngx_shim_def)
  have c: "same_name ngx_shim ''aB'' ''AB''" "\<not> same_name ngx_shim ''q13'' ''t13''"
    unfolding low by code_simp+
  show ?thesis
    using fingerprint_denylists_match_exactly
      [OF laws _ v _ _ v _ _ v, of l "''AB''" "''t13''" "[]" zero_inputs]
    by (intro exI [of _ l]) (simp add: l_def NUL_def c)
qed

end
