(* ===== verification/Sentinel_Feed.thy ===== *)
theory Sentinel_Feed
  imports Sentinel_Signals "HOL-Library.Multiset"
begin

text \<open>
  \<^verbatim>\<open>src/sentinel_feed.c\<close>: the CrowdSec feed. The parser validates header, trailer, record count
  and CRC before it touches the zone, then marks every decision with a new generation and sweeps
  the rest; the loader tick gates on the file's age and size; the request path looks a client up.
  Both passes over the body walk the same lines, so the byte scans become recursion over
  \<open>feed_lines\<close>. Dropping and retaking the mutex between batches has no effect inside one worker;
  the interleaving of two workers is treated explicitly at the end, where the parser's three
  phases are steps of their own.
\<close>

subsection \<open>Byte scans\<close>

definition NL :: char where "NL = CHR 0x0A"
definition CR :: char where "CR = CHR 0x0D"

definition sentinel_feed_digest :: "ngx_api \<Rightarrow> string \<Rightarrow> string" where
  "sentinel_feed_digest ngx text = sha256 ngx text"

definition sentinel_feed_action :: "string \<Rightarrow> cs_action_tier" where
  "sentinel_feed_action p =
     (if length p = 3 \<and> strncmp_eq 3 p ''ban'' then CS_BAN
      else if length p = 7 \<and> strncmp_eq 7 p ''captcha'' then CS_CAPTCHA
      else if length p = 8 \<and> strncmp_eq 8 p ''throttle'' then CS_THROTTLE
      else CS_NONE)"

text \<open>The empty string stands for the returned length 0.\<close>

definition sentinel_feed_canon_ip :: "ngx_api \<Rightarrow> string \<Rightarrow> string" where
  "sentinel_feed_canon_ip ngx p =
     (if length p = 0 \<or> length p \<ge> 64 then []
      else if memchr CHR ''/'' p \<noteq> None then []
      else
        case inet_addr ngx p of
          Some v4 \<Rightarrow> inet_ntop ngx v4
        | None \<Rightarrow>
            (case inet6_addr ngx p of
               Some v6 \<Rightarrow> inet6_ntop ngx v6
             | None \<Rightarrow> []))"

definition hex_value :: "char \<Rightarrow> 32 word option" where
  "hex_value c =
     (let n = of_char c :: nat
      in if 48 \<le> n \<and> n \<le> 57 then Some (of_nat (n - 48))
         else if 97 \<le> n \<and> n \<le> 102 then Some (of_nat (n - 97 + 10))
         else if 65 \<le> n \<and> n \<le> 70 then Some (of_nat (n - 65 + 10))
         else None)"

fun trailer_crc :: "string \<Rightarrow> 32 word \<Rightarrow> 32 word option" where
  "trailer_crc [] file_crc = Some file_crc"
| "trailer_crc (c # p) file_crc =
     (case hex_value c of
        None \<Rightarrow> None
      | Some v \<Rightarrow> trailer_crc p (or (push_bit 4 file_crc) v))"

definition sentinel_feed_check_trailer :: "ngx_api \<Rightarrow> string \<Rightarrow> nat \<Rightarrow> 32 word \<Rightarrow> ngx_rc" where
  "sentinel_feed_check_trailer ngx trailer cnt crc =
     (if length trailer < length ''%%EOF 0 0'' then NGX_DECLINED
      else if \<not> strncmp_eq 6 trailer ''%%EOF '' then NGX_DECLINED
      else
        let p = drop 6 trailer
        in case memchr CHR '' '' p of
             None \<Rightarrow> NGX_DECLINED
           | Some i \<Rightarrow>
               if i = 0 then NGX_DECLINED
               else
                 (case atoi ngx (take i p) of
                    None \<Rightarrow> NGX_DECLINED
                  | Some n \<Rightarrow>
                      if n \<noteq> int cnt then NGX_DECLINED
                      else
                        let q = drop (Suc i) p
                        in if q = [] then NGX_DECLINED
                           else
                             (case trailer_crc q 0 of
                                None \<Rightarrow> NGX_DECLINED
                              | Some file_crc \<Rightarrow> if file_crc = crc then NGX_OK else NGX_DECLINED)))"

subsection \<open>Lines\<close>

text \<open>The bytes up to the next newline and what follows it (\<open>None\<close>: no newline).\<close>

definition cut_line :: "string \<Rightarrow> string \<times> string option" where
  "cut_line p =
     (case memchr NL p of None \<Rightarrow> (p, None) | Some i \<Rightarrow> (take i p, Some (drop (Suc i) p)))"

text \<open>The search for the trailer line: the body before it, and everything from it on.\<close>

function locate_trailer :: "string \<Rightarrow> (string \<times> string) option" where
  "locate_trailer q =
     (if q = [] then None
      else
        case cut_line q of (line, rest) \<Rightarrow>
        if length line \<ge> 6 \<and> strncmp_eq 6 q ''%%EOF '' then Some ([], q)
        else
          case rest of
            None \<Rightarrow> None
          | Some q' \<Rightarrow> map_option (\<lambda>(body, t). (line @ [NL] @ body, t)) (locate_trailer q'))"
  by auto
termination
  by (relation "measure length") (auto simp: cut_line_def split: option.splits)

declare locate_trailer.simps [simp del]

text \<open>The lines the two passes see: \<open>memchr\<close> over the body up to the trailer.\<close>

function feed_lines :: "string \<Rightarrow> string list" where
  "feed_lines p =
     (if p = [] then []
      else case cut_line p of
             (line, None) \<Rightarrow> [line]
           | (line, Some p') \<Rightarrow> line # feed_lines p')"
  by auto
termination
  by (relation "measure length") (auto simp: cut_line_def split: option.splits)

declare feed_lines.simps [simp del]

definition strip_cr :: "string \<Rightarrow> string" where
  "strip_cr line = (if length line > 0 \<and> last line = CR then butlast line else line)"

text \<open>A blank or comment line is neither a decision nor malformed.\<close>

definition feed_ignored :: "string \<Rightarrow> bool" where
  "feed_ignored line \<longleftrightarrow> length line = 0 \<or> hd line = CHR ''#'' \<or> strip_cr line = []"

definition feed_fields :: "string \<Rightarrow> (string \<times> string \<times> string) option" where
  "feed_fields line =
     (case memchr CHR '' '' line of
        None \<Rightarrow> None
      | Some i \<Rightarrow>
          let f2 = drop (Suc i) line
          in case memchr CHR '' '' f2 of
               None \<Rightarrow> None
             | Some j \<Rightarrow>
                 let f3 = drop (Suc j) f2
                 in if f3 = [] then None else Some (take i line, take j f2, f3))"

text \<open>The decision of a line: canonical address, action and expiry; \<open>None\<close> is a malformed line.\<close>

definition feed_decision :: "ngx_api \<Rightarrow> string \<Rightarrow> (string \<times> cs_action_tier \<times> int) option" where
  "feed_decision ngx line =
     (case feed_fields (strip_cr line) of
        None \<Rightarrow> None
      | Some (f1, f2, f3) \<Rightarrow>
          let canon = sentinel_feed_canon_ip ngx f1
          in if length canon = 0 then None
             else
               let act = sentinel_feed_action f2
               in if act = CS_NONE then None
                  else
                    (case atoi ngx f3 of
                       None \<Rightarrow> None
                     | Some expiry \<Rightarrow> Some (canon, act, expiry)))"

subsection \<open>The parser\<close>

text \<open>The counting pass: accepted and malformed lines.\<close>

fun feed_count :: "ngx_api \<Rightarrow> string list \<Rightarrow> nat \<times> nat \<Rightarrow> nat \<times> nat" where
  "feed_count ngx [] st = st"
| "feed_count ngx (line # ls) (cnt, malformed) =
     (if feed_ignored line then feed_count ngx ls (cnt, malformed)
      else if feed_decision ngx line = None then feed_count ngx ls (cnt, malformed + 1)
      else feed_count ngx ls (cnt + 1, malformed))"

text \<open>The validation: the body of an acceptable feed, or the code to return.\<close>

definition feed_validate :: "ngx_api \<Rightarrow> string \<Rightarrow> ngx_rc + string" where
  "feed_validate ngx data =
     (if data = [] then Inl NGX_DECLINED
      else
        case cut_line data of (hl, rest) \<Rightarrow>
        if length hl \<noteq> length NGX_SENTINEL_FEED_HEADER \<or>
           \<not> strncmp_eq (length NGX_SENTINEL_FEED_HEADER) data NGX_SENTINEL_FEED_HEADER
        then Inl NGX_DECLINED
        else
          case rest of
            None \<Rightarrow> Inl NGX_DECLINED
          | Some p \<Rightarrow>
              (case locate_trailer p of
                 None \<Rightarrow> Inl NGX_DECLINED
               | Some (body, trailer) \<Rightarrow>
                   let crc = crc32_long ngx body;
                       (cnt, malformed) = feed_count ngx (feed_lines body) (0, 0);
                       tline = strip_cr (fst (cut_line trailer))
                   in if sentinel_feed_check_trailer ngx tline cnt crc \<noteq> NGX_OK
                      then Inl NGX_DECLINED
                      else if malformed > 0 \<and>
                              malformed * NGX_SENTINEL_FEED_MALFORMED_DENOM > cnt + malformed
                      then Inl NGX_DECLINED
                      else Inr body))"

text \<open>The apply pass up to the first failed insertion; the count of applied decisions.\<close>

fun feed_apply :: "ngx_api \<Rightarrow> int \<Rightarrow> int \<Rightarrow> 64 word \<Rightarrow> string list \<Rightarrow> nat \<Rightarrow> ngx_sentinel_zone option \<Rightarrow>
    nat \<times> ngx_sentinel_zone option" where
  "feed_apply ngx default_ttl now generation [] applied zone = (applied, zone)"
| "feed_apply ngx default_ttl now generation (line # ls) applied zone =
     (if feed_ignored line then feed_apply ngx default_ttl now generation ls applied zone
      else
        case feed_decision ngx line of
          None \<Rightarrow> feed_apply ngx default_ttl now generation ls applied zone
        | Some (canon, act, expiry) \<Rightarrow>
            let exp = (if expiry = 0 then now + default_ttl else expiry)
            in if exp \<le> now then feed_apply ngx default_ttl now generation ls applied zone
               else
                 (case sentinel_shm_crowdsec_upsert ngx zone (sentinel_feed_digest ngx canon) exp act
                         generation now False of
                    (rc, zone') \<Rightarrow>
                      if rc \<noteq> NGX_OK then (applied, zone')
                      else feed_apply ngx default_ttl now generation ls (applied + 1) zone'))"

definition queue_len :: "ngx_sentinel_zone option \<Rightarrow> nat" where
  "queue_len zone =
     (case zone of
        None \<Rightarrow> 0
      | Some z \<Rightarrow> (case zone_sh z of None \<Rightarrow> 0 | Some sh \<Rightarrow> length (sh_queue sh)))"

lemma sweep_loop_shrinks:
  assumes "sweep_loop ngx g batch q d sh = (d', sh')" "mset q \<subseteq># mset (sh_queue sh)"
  shows "length (sh_queue sh') + d' = length (sh_queue sh) + d"
  using assms
proof (induction q arbitrary: d sh)
  case (Cons a q)
  have a: "a \<in> set (sh_queue sh)" using Cons(3) by (auto dest: mset_subset_eqD)
  then have pos: "0 < length (sh_queue sh)" by (cases "sh_queue sh") auto
  have q: "mset q \<subseteq># mset (remove1 a (sh_queue sh))" using Cons(3) by (simp add: insert_subset_eq_iff)
  moreover have "mset (remove1 a (sh_queue sh)) \<subseteq># mset (sh_queue sh)" by simp
  ultimately have "mset q \<subseteq># mset (sh_queue sh)" by (rule subset_mset.trans)
  then show ?case
    using Cons(1) [of "d + 1" "remove_node ngx a sh"] Cons(1) [of d sh] Cons(2) q a pos
    by (auto simp: remove_node_def length_remove1 split: if_splits)
qed simp

lemma sweep_shrinks:
  assumes "sentinel_shm_crowdsec_sweep ngx zone g batch = (d, zone')" "d \<noteq> 0"
  shows "queue_len zone' < queue_len zone"
proof -
  from assms obtain z sh where z: "zone = Some z" "zone_sh z = Some sh"
    by (auto simp: sentinel_shm_crowdsec_sweep_def on_zone_def split: option.splits)
  obtain d1 sh' where s: "sweep_loop ngx g batch (rev (sh_queue sh)) 0 sh = (d1, sh')" by fastforce
  have "length (sh_queue sh') + d1 = length (sh_queue sh)" using sweep_loop_shrinks [OF s] by simp
  then show ?thesis using assms z s
    by (auto simp: sentinel_shm_crowdsec_sweep_def on_zone_def queue_len_def)
qed

text \<open>The sweep loop runs until a batch removes nothing; every other round shortens the queue.\<close>

function feed_sweep :: "ngx_api \<Rightarrow> 64 word \<Rightarrow> ngx_sentinel_zone option \<Rightarrow> ngx_sentinel_zone option" where
  "feed_sweep ngx generation zone =
     (case sentinel_shm_crowdsec_sweep ngx zone generation NGX_SENTINEL_FEED_APPLY_BATCH of
        (d, zone') \<Rightarrow> if d = 0 then zone' else feed_sweep ngx generation zone')"
  by auto
termination
  by (relation "measure (\<lambda>(ngx, generation, zone). queue_len zone)")
    (auto dest: sweep_shrinks [OF sym])

declare feed_sweep.simps [simp del]

definition feed_bump :: "ngx_sentinel_zone \<Rightarrow> ngx_sentinel_shctx \<Rightarrow> 64 word \<times> ngx_sentinel_zone" where
  "feed_bump z sh =
     (let sh = sh\<lparr>sh_generation := sh_generation sh + 1\<rparr>
      in (sh_generation sh, z\<lparr>zone_sh := Some sh\<rparr>))"

definition sentinel_feed_parse :: "ngx_api \<Rightarrow> ngx_sentinel_zone option \<Rightarrow> string \<Rightarrow> int \<Rightarrow> int \<Rightarrow>
    ngx_rc \<times> ngx_sentinel_zone option" where
  "sentinel_feed_parse ngx zone data default_ttl now =
     (case zone of
        None \<Rightarrow> (NGX_ERROR, None)
      | Some z \<Rightarrow>
          (case zone_sh z of
             None \<Rightarrow> (NGX_ERROR, Some z)
           | Some sh \<Rightarrow>
               (case feed_validate ngx data of
                  Inl rc \<Rightarrow> (rc, Some z)
                | Inr body \<Rightarrow>
                    let (generation, z) = feed_bump z sh;
                        (applied, zone) = feed_apply ngx default_ttl now generation (feed_lines body) 0 (Some z)
                    in (NGX_OK, feed_sweep ngx generation zone))))"

subsection \<open>The loader tick\<close>

record sentinel_feed_timer =
  t_lcf :: loc_conf
  t_last_mtime :: int
  t_missing_logged :: bool
  t_stale_logged :: bool

text \<open>What the tick sees of the file system: \<open>stat\<close> (mtime and size, \<open>None\<close> on failure), whether the
  transient pool, the descriptor and the buffer could be obtained, and the bytes read
  (\<open>None\<close> is \<open>NGX_ERROR\<close>).\<close>

record feed_io =
  io_stat :: "(int \<times> nat) option"
  io_pool :: bool
  io_open :: bool
  io_buf :: bool
  io_read :: "string option"

definition sentinel_feed_do_load :: "ngx_api \<Rightarrow> feed_io \<Rightarrow> int \<Rightarrow> sentinel_feed_timer \<Rightarrow> main_conf \<Rightarrow>
    sentinel_feed_timer \<times> main_conf" where
  "sentinel_feed_do_load ngx io now t mcf =
     (let lcf = t_lcf t
      in case zone_at (lcf_cs_zone lcf) of
           None \<Rightarrow> (t, mcf)
         | Some i \<Rightarrow>
             if length (lcf_cs_feed lcf) = 0 then (t, mcf)
             else
               (case io_stat io of
                  None \<Rightarrow> (t\<lparr>t_missing_logged := True\<rparr>, mcf)
                | Some (mtime, fsize) \<Rightarrow>
                    let t = t\<lparr>t_missing_logged := False\<rparr>
                    in if now - mtime > lcf_cs_stale_after lcf then (t\<lparr>t_stale_logged := True\<rparr>, mcf)
                       else
                         let t = t\<lparr>t_stale_logged := False\<rparr>
                         in if t_last_mtime t \<noteq> 0 \<and> mtime = t_last_mtime t then (t, mcf)
                            else if fsize = 0 then (t, mcf)
                            else if int fsize > lcf_cs_max_bytes lcf then (t, mcf)
                            else if \<not> io_pool io \<or> \<not> io_open io \<or> \<not> io_buf io then (t, mcf)
                            else
                              (case io_read io of
                                 None \<Rightarrow> (t, mcf)
                               | Some buf \<Rightarrow>
                                   if length buf < fsize then (t, mcf)
                                   else
                                     (case call_zone (\<lambda>z. sentinel_feed_parse ngx z (take fsize buf)
                                               (lcf_cs_default_ttl lcf) now) i (mcf_cs_zones mcf) of
                                        (rc, zs) \<Rightarrow>
                                          (if rc = NGX_OK then t\<lparr>t_last_mtime := mtime\<rparr> else t,
                                           mcf\<lparr>mcf_cs_zones := zs\<rparr>)))))"

text \<open>The timer re-arms itself with the returned delay in milliseconds unless the worker exits.\<close>

definition sentinel_feed_timer_handler :: "ngx_api \<Rightarrow> feed_io \<Rightarrow> bool \<Rightarrow> int \<Rightarrow> sentinel_feed_timer \<Rightarrow>
    main_conf \<Rightarrow> sentinel_feed_timer \<times> main_conf \<times> int option" where
  "sentinel_feed_timer_handler ngx io exiting now t mcf =
     (case sentinel_feed_do_load ngx io now t mcf of
        (t, mcf) \<Rightarrow> (t, mcf, if exiting then None else Some (lcf_cs_interval (t_lcf t) * 1000)))"

subsection \<open>Arming the timers\<close>

text \<open>nginx's location tree: a node's exact and inclusive locations and its three subtrees.\<close>

datatype location_tree =
    LNone
  | LNode "loc_conf option" "loc_conf option" location_tree location_tree location_tree

definition SENTINEL_FEED_MAX_TIMERS :: nat where "SENTINEL_FEED_MAX_TIMERS = 256"

text \<open>Two locations feed the same table when zone and path agree; the bytes of the path are
  compared with \<open>strncmp\<close>. Location configurations are values here, so the pointer test
  \<open>existing[i] == lcf\<close> is subsumed by the second one.\<close>

definition same_feed :: "loc_conf \<Rightarrow> loc_conf \<Rightarrow> bool" where
  "same_feed e l \<longleftrightarrow>
     lcf_cs_zone e = lcf_cs_zone l \<and> length (lcf_cs_feed e) = length (lcf_cs_feed l) \<and>
     strncmp_eq (length (lcf_cs_feed l)) (lcf_cs_feed e) (lcf_cs_feed l)"

definition sentinel_feed_add :: "loc_conf option \<Rightarrow> loc_conf list \<Rightarrow> loc_conf list" where
  "sentinel_feed_add lcf out =
     (case lcf of
        None \<Rightarrow> out
      | Some l \<Rightarrow>
          if length (lcf_cs_feed l) = 0 \<or> zone_at (lcf_cs_zone l) = None then out
          else if list_ex (\<lambda>e. same_feed e l) out then out
          else out @ [l])"

fun sentinel_feed_collect_loc :: "location_tree \<Rightarrow> loc_conf list \<Rightarrow> loc_conf list" where
  "sentinel_feed_collect_loc LNone out = out"
| "sentinel_feed_collect_loc (LNode exact inclusive l t r) out =
     (let out = sentinel_feed_add exact out;
          out = sentinel_feed_add inclusive out;
          out = sentinel_feed_collect_loc l out;
          out = sentinel_feed_collect_loc t out
      in sentinel_feed_collect_loc r out)"

text \<open>Only the static locations of each server are walked.\<close>

fun sentinel_feed_collect :: "location_tree list \<Rightarrow> loc_conf list \<Rightarrow> loc_conf list" where
  "sentinel_feed_collect [] out = out"
| "sentinel_feed_collect (static_locations # servers) out =
     sentinel_feed_collect servers (sentinel_feed_collect_loc static_locations out)"

text \<open>Each collected location gets a timer with zeroed state, armed for one second.\<close>

definition sentinel_crowdsec_init_process :: "location_tree list \<Rightarrow> (sentinel_feed_timer \<times> int) list" where
  "sentinel_crowdsec_init_process servers =
     map (\<lambda>l. (\<lparr>t_lcf = l, t_last_mtime = 0, t_missing_logged = False, t_stale_logged = False\<rparr>, 1000))
       (take SENTINEL_FEED_MAX_TIMERS (sentinel_feed_collect servers []))"

subsection \<open>The request path\<close>

definition sentinel_crowdsec_signal :: "ngx_api \<Rightarrow> int \<Rightarrow> request \<Rightarrow> loc_conf \<Rightarrow>
    inputs \<times> main_conf \<Rightarrow> inputs \<times> main_conf" where
  "sentinel_crowdsec_signal ngx now r lcf st =
     (case st of (inp, mcf) \<Rightarrow>
      let inp = inp\<lparr>crowdsec_hit := False, crowdsec_action := CS_NONE\<rparr>
      in case zone_at (lcf_cs_zone lcf) of
           None \<Rightarrow> (inp, mcf)
         | Some i \<Rightarrow>
             if r_addr_text r = [] then (inp, mcf)
             else
               (case call_zone (\<lambda>z. sentinel_shm_crowdsec_lookup ngx z
                         (sentinel_feed_digest ngx (r_addr_text r)) now) i (mcf_cs_zones mcf) of
                  ((rc, act), zs) \<Rightarrow>
                    let mcf = mcf\<lparr>mcf_cs_zones := zs\<rparr>
                    in if rc = NGX_ERROR then (inp, mcf)
                       else if rc = NGX_BUSY
                       then (inp\<lparr>crowdsec_hit := True, crowdsec_action := act\<rparr>, mcf)
                       else (inp, mcf)))"

subsection \<open>What a body says\<close>

text \<open>The ban a line asks for: key, expiry and action; \<open>None\<close> for a line that is ignored,
  malformed or already expired.\<close>

definition line_ban :: "ngx_api \<Rightarrow> int \<Rightarrow> int \<Rightarrow> string \<Rightarrow> (string \<times> int \<times> cs_action_tier) option" where
  "line_ban ngx default_ttl now line =
     (if feed_ignored line then None
      else
        case feed_decision ngx line of
          None \<Rightarrow> None
        | Some (canon, act, expiry) \<Rightarrow>
            let exp = (if expiry = 0 then now + default_ttl else expiry)
            in if exp \<le> now then None else Some (sha256 ngx canon, exp, act))"

definition feed_bans :: "ngx_api \<Rightarrow> int \<Rightarrow> int \<Rightarrow> string list \<Rightarrow> (string \<times> int \<times> cs_action_tier) list" where
  "feed_bans ngx default_ttl now ls = List.map_filter (line_ban ngx default_ttl now) ls"

lemma feed_bans_simps [simp]:
  "feed_bans ngx ttl now [] = []"
  "feed_bans ngx ttl now (l # ls) =
     (case line_ban ngx ttl now l of None \<Rightarrow> [] | Some b \<Rightarrow> [b]) @ feed_bans ngx ttl now ls"
  by (simp_all add: feed_bans_def List.map_filter_def split: option.split)

text \<open>The apply loop as a walk over the bans.\<close>

lemma feed_apply_Cons:
  "feed_apply ngx ttl now g (l # ls) n zone =
     (case line_ban ngx ttl now l of
        None \<Rightarrow> feed_apply ngx ttl now g ls n zone
      | Some (key, exp, act) \<Rightarrow>
          (case sentinel_shm_crowdsec_upsert ngx zone key exp act g now False of
             (rc, zone') \<Rightarrow> if rc \<noteq> NGX_OK then (n, zone') else feed_apply ngx ttl now g ls (n + 1) zone'))"
  by (auto simp: line_ban_def Let_def sentinel_feed_digest_def split: option.split)

text \<open>Every key of a ban is a SHA-256 digest.\<close>

lemma line_ban_key:
  assumes "digest_laws ngx" "line_ban ngx ttl now l = Some (key, exp, act)"
  shows "length key < 65536" "now < exp"
proof -
  obtain canon where "key = sha256 ngx canon" "now < exp"
    using assms(2) by (auto simp: line_ban_def Let_def split: if_splits option.splits)
  then show "length key < 65536" "now < exp" using assms(1) by (simp_all add: digest_laws_def)
qed

text \<open>A zone whose context is mapped.\<close>

definition holds :: "ngx_sentinel_zone option \<Rightarrow> ngx_sentinel_shctx \<Rightarrow> bool" where
  "holds zone sh \<longleftrightarrow> (\<exists>z. zone = Some z \<and> zone_sh z = Some sh)"

lemma holds_Some [simp]: "holds (Some z) sh \<longleftrightarrow> zone_sh z = Some sh"
  by (simp add: holds_def)

lemma upsert_zone:
  assumes "holds zone sh"
    and "sentinel_shm_crowdsec_upsert ngx zone key exp act g now pulled = (rc, zone')"
  obtains sh' where "crowdsec_upsert_locked ngx key exp act g now pulled sh = (rc, sh')" "holds zone' sh'"
  using assms by (auto simp: holds_def sentinel_shm_crowdsec_upsert_def on_zone_def split: prod.splits)

lemma feed_apply_inv:
  assumes laws: "zone_laws ngx" "digest_laws ngx"
  shows "holds zone sh \<Longrightarrow> zone_inv ngx sh \<Longrightarrow> feed_apply ngx ttl now g ls n zone = (m, zone') \<Longrightarrow>
     \<exists>sh'. holds zone' sh' \<and> zone_inv ngx sh' \<and> sh_generation sh' = sh_generation sh"
proof (induction ls arbitrary: n zone sh)
  case (Cons l ls)
  show ?case
  proof (cases "line_ban ngx ttl now l")
    case None
    then show ?thesis using Cons.IH [OF Cons.prems(1,2)] Cons.prems(3) by (simp add: feed_apply_Cons del: feed_apply.simps)
  next
    case (Some b)
    obtain key exp act where b: "b = (key, exp, act)" by (cases b)
    obtain rc zone1 where u: "sentinel_shm_crowdsec_upsert ngx zone key exp act g now False = (rc, zone1)"
      by fastforce
    from upsert_zone [OF Cons.prems(1) u] obtain s1
      where s1: "crowdsec_upsert_locked ngx key exp act g now False sh = (rc, s1)" "holds zone1 s1" by blast
    note r = upsert_refines [OF laws(1) Cons.prems(2) line_ban_key(1) [OF laws(2) Some [unfolded b]] s1(1)]
    have e: "feed_apply ngx ttl now g (l # ls) n zone =
        (if rc \<noteq> NGX_OK then (n, zone1) else feed_apply ngx ttl now g ls (n + 1) zone1)"
      by (simp add: feed_apply_Cons Some b u del: feed_apply.simps)
    show ?thesis
    proof (cases "rc = NGX_OK")
      case True
      then have "feed_apply ngx ttl now g ls (n + 1) zone1 = (m, zone')" using e Cons.prems(3) by simp
      from Cons.IH [OF s1(2) _ this] show ?thesis using r by auto
    next
      case False
      then have "zone' = zone1" using e Cons.prems(3) by simp
      then show ?thesis using s1(2) r by auto
    qed
  qed
qed auto

text \<open>The zone's slab has room for another node.\<close>

definition slab_room :: "ngx_api \<Rightarrow> bool" where
  "slab_room ngx \<longleftrightarrow> (\<forall>sh n. zone_inv ngx sh \<longrightarrow> slab_calloc ngx sh n \<noteq> None)"

lemma upsert_succeeds:
  assumes "slab_room ngx" "zone_inv ngx sh" "crowdsec_upsert_locked ngx key exp act g now pulled sh = (rc, sh')"
  shows "rc = NGX_OK"
proof -
  obtain a where "slab_calloc ngx sh (node_sizeof ngx + of_nat (length key)) = Some a"
    using assms(1,2) unfolding slab_room_def by blast
  then have "upsert_node ngx key now sh \<noteq> None"
    by (auto simp: upsert_node_def Let_def sentinel_shm_crowdsec_create_def split: option.splits)
  then show ?thesis using assms(3) by (auto simp: crowdsec_upsert_locked_def split: prod.splits)
qed

text \<open>A key's entry is the decision (expiry and action) of the given generation.\<close>

definition carries :: "ngx_sentinel_node list \<Rightarrow> string \<Rightarrow> 64 word \<Rightarrow> int \<times> cs_action_tier \<Rightarrow> bool" where
  "carries ns key g d \<longleftrightarrow>
     (\<exists>n. find_node key ns = Some n \<and> node_generation n = g \<and> (blocked_until n, cs_action n) = d)"

lemma find_upsert:
  assumes "length key < 65536"
  shows "find_node k (upsert_spec ngx key exp act g now pulled ns) =
     (if k = key then Some ((focus ngx 0 key now ns)
        \<lparr>blocked_until := exp, cs_action := act, node_generation := g, redis_pulled := pulled, last_seen := now\<rparr>)
      else find_node k ns)"
  unfolding upsert_spec_def
  by (rule find_node_Cons_others) (simp add: focus_key [OF assms])

lemma feed_apply_bans:
  assumes laws: "zone_laws ngx" "digest_laws ngx" "slab_room ngx"
  shows "holds zone sh \<Longrightarrow> zone_inv ngx sh \<Longrightarrow> feed_apply ngx ttl now g ls n zone = (m, zone') \<Longrightarrow>
     \<exists>sh'. holds zone' sh' \<and>
       (\<forall>key. case map_of (rev (feed_bans ngx ttl now ls)) key of
                None \<Rightarrow> find_node key (zone_nodes sh') = find_node key (zone_nodes sh)
              | Some d \<Rightarrow> carries (zone_nodes sh') key g d)"
proof (induction ls arbitrary: n zone sh)
  case (Cons l ls)
  show ?case
  proof (cases "line_ban ngx ttl now l")
    case None
    then show ?thesis using Cons.IH [OF Cons.prems(1,2)] Cons.prems(3) by (simp add: feed_apply_Cons del: feed_apply.simps)
  next
    case (Some b)
    obtain key exp act where b: "b = (key, exp, act)" by (cases b)
    note len = line_ban_key(1) [OF laws(2) Some [unfolded b]]
    obtain rc zone1 where u: "sentinel_shm_crowdsec_upsert ngx zone key exp act g now False = (rc, zone1)"
      by fastforce
    from upsert_zone [OF Cons.prems(1) u] obtain s1
      where s1: "crowdsec_upsert_locked ngx key exp act g now False sh = (rc, s1)" "holds zone1 s1" by blast
    have ok: "rc = NGX_OK" by (rule upsert_succeeds [OF laws(3) Cons.prems(2) s1(1)])
    have r: "zone_inv ngx s1" "zone_nodes s1 = upsert_spec ngx key exp act g now False (zone_nodes sh)"
      using upsert_refines [OF laws(1) Cons.prems(2) len s1(1)] ok by auto
    have "feed_apply ngx ttl now g ls (n + 1) zone1 = (m, zone')"
      using Cons.prems(3) by (simp add: feed_apply_Cons Some b u ok del: feed_apply.simps)
    from Cons.IH [OF s1(2) r(1) this] obtain sh' where sh': "holds zone' sh'"
      "\<And>k. case map_of (rev (feed_bans ngx ttl now ls)) k of
                None \<Rightarrow> find_node k (zone_nodes sh') = find_node k (zone_nodes s1)
              | Some d \<Rightarrow> carries (zone_nodes sh') k g d" by blast
    have "case map_of (rev (feed_bans ngx ttl now (l # ls))) k of
                None \<Rightarrow> find_node k (zone_nodes sh') = find_node k (zone_nodes sh)
              | Some d \<Rightarrow> carries (zone_nodes sh') k g d" for k
      using sh'(2) [of k] Some b
      by (auto simp: r(2) find_upsert [OF len] carries_def map_add_def split: option.splits)
    then show ?thesis using sh'(1) by blast
  qed
qed auto

text \<open>The sweep loop leaves exactly the nodes of the generation.\<close>

lemma sweep_keeps_generation:
  assumes "zone_laws ngx" "zone_inv ngx sh"
    and "sweep_loop ngx g batch (rev (sh_queue sh)) 0 sh = (d, sh')"
  shows "filter (\<lambda>n. node_generation n = g) (zone_nodes sh') = filter (\<lambda>n. node_generation n = g) (zone_nodes sh)"
proof -
  from sweep_all(6) [OF assms] obtain P where
    P: "zone_nodes sh' = filter P (zone_nodes sh)" "\<forall>n. node_generation n = g \<longrightarrow> P n" by blast
  show ?thesis unfolding P(1) filter_filter by (intro filter_cong) (use P(2) in auto)
qed

lemma feed_sweep_spec:
  assumes laws: "zone_laws ngx"
  shows "holds zone sh \<Longrightarrow> zone_inv ngx sh \<Longrightarrow>
     \<exists>sh'. holds (feed_sweep ngx g zone) sh' \<and> zone_inv ngx sh' \<and> sh_generation sh' = sh_generation sh \<and>
       zone_nodes sh' = filter (\<lambda>n. node_generation n = g) (zone_nodes sh)"
proof (induction "queue_len zone" arbitrary: zone sh rule: less_induct)
  case less
  obtain z where z: "zone = Some z" "zone_sh z = Some sh" using less.prems(1) by (auto simp: holds_def)
  obtain d s1 where s: "sweep_loop ngx g 256 (rev (sh_queue sh)) 0 sh = (d, s1)" by fastforce
  let ?zone1 = "Some (z\<lparr>zone_sh := Some s1\<rparr>)"
  have sw: "sentinel_shm_crowdsec_sweep ngx zone g NGX_SENTINEL_FEED_APPLY_BATCH = (d, ?zone1)"
    by (simp add: sentinel_shm_crowdsec_sweep_def on_zone_def z s NGX_SENTINEL_FEED_APPLY_BATCH_def)
  note a = sweep_all [OF laws less.prems(2) s]
  show ?case
  proof (cases "d = 0")
    case True
    then have "feed_sweep ngx g zone = ?zone1" using sw by (simp add: feed_sweep.simps)
    then show ?thesis using a(1,2,4) True by auto
  next
    case False
    then have e: "feed_sweep ngx g zone = feed_sweep ngx g ?zone1" using sw by (simp add: feed_sweep.simps [of ngx g zone])
    have "queue_len ?zone1 < queue_len zone" by (rule sweep_shrinks [OF sw False])
    from less.hyps [OF this, of s1] show ?thesis
      using a(1,2) sweep_keeps_generation [OF laws less.prems(2) s] by (simp add: e)
  qed
qed

lemma find_node_filter:
  assumes "distinct (map node_key ns)"
  shows "find_node key (filter P ns) =
     (case find_node key ns of None \<Rightarrow> None | Some n \<Rightarrow> if P n then Some n else None)"
  using assms
proof (induction ns)
  case (Cons m ns)
  have "node_key m \<notin> node_key ` set ns" using Cons.prems by simp
  then have "find_node (node_key m) (filter P ns) = None" by (auto simp: find_node_None rev_image_eqI)
  then show ?case using Cons by (auto simp: find_node_def)
qed (simp add: find_node_def)

lemma generation_update [simp]:
  "zone_nodes (sh\<lparr>sh_generation := g\<rparr>) = zone_nodes sh" "zone_inv ngx (sh\<lparr>sh_generation := g\<rparr>) = zone_inv ngx sh"
  by (simp_all add: zone_nodes_def zone_inv_def node_of_def)

lemma validate_code: "feed_validate ngx data = Inl rc \<Longrightarrow> rc = NGX_DECLINED"
  by (auto simp: feed_validate_def Let_def split: if_splits prod.splits option.splits)

text \<open>The three phases of an accepted load.\<close>

lemma parse_phases:
  assumes "holds zone sh" "sentinel_feed_parse ngx zone data ttl now = (NGX_OK, zone')"
  obtains body zone1 applied zone2 where
    "feed_validate ngx data = Inr body" "holds zone1 (sh\<lparr>sh_generation := sh_generation sh + 1\<rparr>)"
    "feed_apply ngx ttl now (sh_generation sh + 1) (feed_lines body) 0 zone1 = (applied, zone2)"
    "zone' = feed_sweep ngx (sh_generation sh + 1) zone2"
proof -
  obtain z where z: "zone = Some z" "zone_sh z = Some sh" using assms(1) by (auto simp: holds_def)
  let ?z = "z\<lparr>zone_sh := Some (sh\<lparr>sh_generation := sh_generation sh + 1\<rparr>)\<rparr>"
  obtain body where body: "feed_validate ngx data = Inr body"
    using assms(2) z validate_code [of ngx data]
    by (cases "feed_validate ngx data") (auto simp: sentinel_feed_parse_def)
  obtain applied zone2 where
    ap: "feed_apply ngx ttl now (sh_generation sh + 1) (feed_lines body) 0 (Some ?z) = (applied, zone2)"
    by fastforce
  have "zone' = feed_sweep ngx (sh_generation sh + 1) zone2"
    using assms(2) z body ap by (simp add: sentinel_feed_parse_def feed_bump_def Let_def)
  with body ap show thesis by (intro that [of body "Some ?z" applied zone2]) simp_all
qed

lemma parse_generation:
  assumes laws: "zone_laws ngx" "digest_laws ngx" and z: "holds zone sh" "zone_inv ngx sh"
    and ok: "sentinel_feed_parse ngx zone data ttl now = (NGX_OK, zone')"
  shows "\<exists>sh'. holds zone' sh' \<and> zone_inv ngx sh' \<and> sh_generation sh' = sh_generation sh + 1 \<and>
    list_all (\<lambda>n. node_generation n = sh_generation sh + 1) (zone_nodes sh')"
proof -
  from parse_phases [OF z(1) ok] obtain body zone1 applied zone2 where
    ph: "holds zone1 (sh\<lparr>sh_generation := sh_generation sh + 1\<rparr>)"
      "feed_apply ngx ttl now (sh_generation sh + 1) (feed_lines body) 0 zone1 = (applied, zone2)"
      "zone' = feed_sweep ngx (sh_generation sh + 1) zone2" by metis
  from feed_apply_inv [OF laws ph(1) _ ph(2)] z(2) obtain s2
    where s2: "holds zone2 s2" "zone_inv ngx s2" "sh_generation s2 = sh_generation sh + 1" by auto
  from feed_sweep_spec [OF laws(1) s2(1,2), of "sh_generation sh + 1"] show ?thesis
    using s2(3) ph(3) by (auto simp: list_all_iff)
qed

subsection \<open>Reading back a written feed\<close>

text \<open>The documented grammar as a printer: what a sidecar writes for a list of decisions
  (address, action, expiry), with \<open>crc\<close> the hexadecimal digits it puts in the trailer.\<close>

fun action_token :: "cs_action_tier \<Rightarrow> string" where
  "action_token CS_CAPTCHA = ''captcha''"
| "action_token CS_THROTTLE = ''throttle''"
| "action_token _ = ''ban''"

definition print_decision :: "ngx_api \<Rightarrow> string \<times> cs_action_tier \<times> int \<Rightarrow> string" where
  "print_decision ngx d =
     (case d of (ip, act, expiry) \<Rightarrow> ip @ '' '' @ action_token act @ '' '' @ sprint_int ngx expiry)"

definition print_body :: "ngx_api \<Rightarrow> (string \<times> cs_action_tier \<times> int) list \<Rightarrow> string" where
  "print_body ngx ds = concat (map (\<lambda>d. print_decision ngx d @ [NL]) ds)"

definition print_feed :: "ngx_api \<Rightarrow> (string \<times> cs_action_tier \<times> int) list \<Rightarrow> string \<Rightarrow> string" where
  "print_feed ngx ds crc =
     NGX_SENTINEL_FEED_HEADER @ [NL] @ print_body ngx ds @
     ''%%EOF '' @ sprint_int ngx (int (length ds)) @ '' '' @ crc @ [NL]"

text \<open>A decision that can be written: a host address without separators, one of the three
  actions, a printable expiry.\<close>

definition printable :: "ngx_api \<Rightarrow> string \<times> cs_action_tier \<times> int \<Rightarrow> bool" where
  "printable ngx d =
     (case d of (ip, act, expiry) \<Rightarrow>
        set ip \<inter> {CHR '' '', CHR ''#'', CHR ''%'', NL} = {} \<and> sentinel_feed_canon_ip ngx ip \<noteq> [] \<and>
        act \<in> {CS_BAN, CS_CAPTCHA, CS_THROTTLE} \<and> 0 \<le> expiry \<and> expiry < 2 ^ 63)"

text \<open>\<open>ngx_atoi\<close> reads back what \<open>%i\<close> prints.\<close>

definition atoi_law :: "ngx_api \<Rightarrow> bool" where
  "atoi_law ngx \<longleftrightarrow> (\<forall>n. 0 \<le> n \<longrightarrow> n < 2 ^ 63 \<longrightarrow> atoi ngx (sprint_int ngx n) = Some n)"

lemma printed_digits:
  assumes "decimal_laws ngx" "atoi_law ngx" "0 \<le> n" "n < 2 ^ 63" "atoi ngx [] = None"
  shows "sprint_int ngx n \<noteq> []" "CHR '' '' \<notin> set (sprint_int ngx n)" "NL \<notin> set (sprint_int ngx n)"
    "CR \<notin> set (sprint_int ngx n)"
proof -
  have d: "set (sprint_int ngx n) \<subseteq> set ''0123456789''" using assms(1,3) by (simp add: decimal_laws_def)
  show "sprint_int ngx n \<noteq> []" using assms(2,3,4,5) unfolding atoi_law_def by (metis option.distinct(1))
  show "CHR '' '' \<notin> set (sprint_int ngx n)" "NL \<notin> set (sprint_int ngx n)" "CR \<notin> set (sprint_int ngx n)"
    using d by (auto simp: NL_def CR_def)
qed

lemma action_roundtrip:
  assumes "act \<in> {CS_BAN, CS_CAPTCHA, CS_THROTTLE}"
  shows "sentinel_feed_action (action_token act) = act" "CHR '' '' \<notin> set (action_token act)" "NL \<notin> set (action_token act)"
  using assms by (auto simp: sentinel_feed_action_def NL_def)

lemma cut_line_NL: "NL \<notin> set a \<Longrightarrow> cut_line (a @ NL # b) = (a, Some b)"
  by (simp add: cut_line_def memchr_append_notin)

lemma feed_lines_NL: "NL \<notin> set a \<Longrightarrow> feed_lines (a @ NL # b) = a # feed_lines b"
  by (simp add: feed_lines.simps [of "a @ NL # b"] cut_line_NL)

lemma feed_lines_print:
  "list_all (\<lambda>d. NL \<notin> set (print_decision ngx d)) ds \<Longrightarrow>
     feed_lines (print_body ngx ds) = map (print_decision ngx) ds"
  by (induction ds) (simp_all add: print_body_def feed_lines_NL feed_lines.simps [of "[]"])

lemma locate_print:
  assumes "list_all (\<lambda>d. NL \<notin> set (print_decision ngx d) \<and> hd (print_decision ngx d) \<noteq> CHR ''%'' \<and>
             print_decision ngx d \<noteq> []) ds"
    and "NL \<notin> set t"
  shows "locate_trailer (print_body ngx ds @ ''%%EOF '' @ t @ [NL]) = Some (print_body ngx ds, ''%%EOF '' @ t @ [NL])"
  using assms(1)
proof (induction ds)
  case Nil
  have "cut_line ((''%%EOF '' @ t) @ NL # []) = (''%%EOF '' @ t, Some [])"
    by (rule cut_line_NL) (use assms(2) in \<open>simp add: NL_def\<close>)
  moreover have "strncmp_eq 6 (''%%EOF '' @ t @ [NL]) ''%%EOF ''"
    by (rule strncmp_eq_append) (simp_all add: NUL_def)
  ultimately show ?case by (subst locate_trailer.simps) (simp add: print_body_def)
next
  case (Cons d ds)
  define l where "l = print_decision ngx d"
  define r where "r = print_body ngx ds @ ''%%EOF '' @ t @ [NL]"
  obtain c l' where c: "l = c # l'" "c \<noteq> CHR ''%''" using Cons.prems by (cases l) (auto simp: l_def)
  have e: "print_body ngx (d # ds) @ ''%%EOF '' @ t @ [NL] = l @ NL # r"
    by (simp add: print_body_def l_def r_def)
  have cut: "cut_line (l @ NL # r) = (l, Some r)" using Cons.prems by (intro cut_line_NL) (simp add: l_def)
  have ne: "\<not> strncmp_eq 6 (l @ NL # r) ''%%EOF ''" using c by (simp add: eval_nat_numeral)
  have "locate_trailer r = Some (print_body ngx ds, ''%%EOF '' @ t @ [NL])"
    using Cons by (simp add: r_def)
  then have "locate_trailer (l @ NL # r) = Some (l @ [NL] @ print_body ngx ds, ''%%EOF '' @ t @ [NL])"
    using ne by (simp add: locate_trailer.simps [of "l @ NL # r"] cut)
  then show ?case unfolding e by (simp add: print_body_def l_def)
qed

lemma print_decision_line:
  assumes laws: "decimal_laws ngx" "atoi_law ngx" "atoi ngx [] = None" and ok: "printable ngx (ip, act, expiry)"
  defines "l \<equiv> print_decision ngx (ip, act, expiry)"
  shows "NL \<notin> set l" "hd l \<noteq> CHR ''%''" "l \<noteq> []" "\<not> feed_ignored l"
    "feed_decision ngx l = Some (sentinel_feed_canon_ip ngx ip, act, expiry)"
proof -
  let ?e = "sprint_int ngx expiry"
  have ip: "ip \<noteq> []" "CHR '' '' \<notin> set ip" "NL \<notin> set ip" "hd ip \<noteq> CHR ''#''" "hd ip \<noteq> CHR ''%''"
    using ok by (cases ip; auto simp: printable_def sentinel_feed_canon_ip_def)+
  have e: "?e \<noteq> []" "CHR '' '' \<notin> set ?e" "NL \<notin> set ?e" "CR \<notin> set ?e" and at: "atoi ngx ?e = Some expiry"
    using printed_digits [OF laws(1,2) _ _ laws(3), of expiry] ok laws(2) by (auto simp: printable_def atoi_law_def)
  have act: "sentinel_feed_action (action_token act) = act" "CHR '' '' \<notin> set (action_token act)"
    "NL \<notin> set (action_token act)" "act \<noteq> CS_NONE"
    using action_roundtrip [of act] ok by (auto simp: printable_def)
  have l: "l = ip @ CHR '' '' # action_token act @ CHR '' '' # ?e" by (simp add: l_def print_decision_def)
  show "NL \<notin> set l" using ip e act by (simp add: l NL_def)
  show "hd l \<noteq> CHR ''%''" "l \<noteq> []" using ip by (simp_all add: l)
  have "last l = last ?e" using e(1) by (simp add: l)
  then have "last l \<noteq> CR" using e(1,4) by (metis last_in_set)
  then have cr: "strip_cr l = l" by (simp add: strip_cr_def)
  show "\<not> feed_ignored l" using ip(1,4) by (simp add: feed_ignored_def cr) (simp add: l)
  have "feed_fields l = Some (ip, action_token act, ?e)"
    using ip(2) act(2) e(1) by (simp add: feed_fields_def l memchr_append_notin Let_def)
  moreover have "sentinel_feed_canon_ip ngx ip \<noteq> []" using ok by (simp add: printable_def)
  ultimately show "feed_decision ngx l = Some (sentinel_feed_canon_ip ngx ip, act, expiry)"
    using act at by (simp add: feed_decision_def cr Let_def)
qed

lemma feed_count_print:
  assumes "list_all (\<lambda>l. \<not> feed_ignored l \<and> feed_decision ngx l \<noteq> None) ls"
  shows "feed_count ngx ls (c, m) = (c + length ls, m)"
  using assms by (induction ls arbitrary: c) auto

lemma check_trailer_print:
  assumes "decimal_laws ngx" "atoi_law ngx" "atoi ngx [] = None" "int n < 2 ^ 63"
    and "crc \<noteq> []" "trailer_crc crc 0 = Some v"
  shows "sentinel_feed_check_trailer ngx (''%%EOF '' @ sprint_int ngx (int n) @ '' '' @ crc) n v = NGX_OK"
proof -
  let ?n = "sprint_int ngx (int n)"
  have n: "?n \<noteq> []" "CHR '' '' \<notin> set ?n" "atoi ngx ?n = Some (int n)"
    using printed_digits [OF assms(1,2) _ assms(4,3)] assms(2,4) by (auto simp: atoi_law_def)
  have "strncmp_eq 6 (''%%EOF '' @ ?n @ '' '' @ crc) ''%%EOF ''"
    by (rule strncmp_eq_append) (simp_all add: NUL_def)
  moreover have "0 < length ?n" "0 < length crc" using n(1) assms(5) by auto
  then have "\<not> length ?n + length crc < Suc (Suc 0)" by linarith
  ultimately show ?thesis
    using n assms(5,6) by (simp add: sentinel_feed_check_trailer_def memchr_append_notin Let_def)
qed

text \<open>Splitting a string where the searches stop.\<close>

lemma cut_line_Some: "cut_line p = (l, Some r) \<Longrightarrow> p = l @ NL # r"
proof -
  assume "cut_line p = (l, Some r)"
  then obtain i where i: "memchr NL p = Some i" "l = take i p" "r = drop (Suc i) p"
    by (auto simp: cut_line_def split: option.splits)
  then show ?thesis using memchr_Some [OF i(1)] id_take_nth_drop [of i p] by metis
qed

lemma strncmp_eof: "strncmp_eq 6 q ''%%EOF '' \<longleftrightarrow> prefix ''%%EOF '' q"
proof -
  have l: "length ''%%EOF '' = 6" by simp
  have n: "NUL \<notin> set ''%%EOF ''" by (simp add: NUL_def)
  show ?thesis using strncmp_eq_prefix [OF n, of q] unfolding l .
qed

lemma locate_trailer_Some: "locate_trailer q = Some (b, t) \<Longrightarrow> q = b @ t \<and> prefix ''%%EOF '' t"
proof (induction q arbitrary: b t rule: locate_trailer.induct)
  case (1 q)
  note pre = strncmp_eof [of q]
  obtain l r where c: "cut_line q = (l, r)" by fastforce
  show ?case
  proof (cases "length l \<ge> 6 \<and> strncmp_eq 6 q ''%%EOF ''")
    case True
    then show ?thesis
      using 1(2) c pre by (simp add: locate_trailer.simps [of q] split: if_splits)
  next
    case False
    then obtain q' b' where q': "r = Some q'" "locate_trailer q' = Some (b', t)" "b = l @ [NL] @ b'" "q \<noteq> []"
      using 1(2) c by (auto simp: locate_trailer.simps [of q] split: if_splits option.splits)
    have "q' = b' @ t \<and> prefix ''%%EOF '' t" using 1(1) q' c False by simp
    then show ?thesis using cut_line_Some [of q l q'] c q' by simp
  qed
qed

lemma check_trailer_OK:
  assumes "sentinel_feed_check_trailer ngx t n v = NGX_OK"
  shows "\<exists>c h. t = ''%%EOF '' @ c @ '' '' @ h \<and> atoi ngx c = Some (int n) \<and> trailer_crc h 0 = Some v"
proof -
  have "strncmp_eq 6 t ''%%EOF ''" using assms by (simp add: sentinel_feed_check_trailer_def split: if_splits)
  then obtain p where p: "t = ''%%EOF '' @ p" by (auto simp: strncmp_eof prefix_def)
  obtain i where i: "memchr CHR '' '' p = Some i" "atoi ngx (take i p) = Some (int n)"
      "trailer_crc (drop (Suc i) p) 0 = Some v"
    using assms by (auto simp: sentinel_feed_check_trailer_def p Let_def split: if_splits option.splits)
  have "p = take i p @ '' '' @ drop (Suc i) p"
    using memchr_Some [OF i(1)] id_take_nth_drop [of i p] by simp
  then show ?thesis using i p by metis
qed

lemma feed_validate_Inr:
  assumes "feed_validate ngx data = Inr body"
  obtains tail c h cnt malformed where
    "data = NGX_SENTINEL_FEED_HEADER @ [NL] @ body @ tail"
    "strip_cr (fst (cut_line tail)) = ''%%EOF '' @ c @ '' '' @ h"
    "feed_count ngx (feed_lines body) (0, 0) = (cnt, malformed)"
    "atoi ngx c = Some (int cnt)" "trailer_crc h 0 = Some (crc32_long ngx body)"
    "malformed = 0 \<or> 4 * malformed \<le> cnt + malformed"
proof -
  obtain hl p where c1: "cut_line data = (hl, Some p)" "length hl = length NGX_SENTINEL_FEED_HEADER"
      "strncmp_eq (length NGX_SENTINEL_FEED_HEADER) data NGX_SENTINEL_FEED_HEADER"
    using assms by (auto simp: feed_validate_def split: if_splits prod.splits option.splits)
  obtain tail where loc: "locate_trailer p = Some (body, tail)"
    using assms c1 by (auto simp: feed_validate_def Let_def split: if_splits prod.splits option.splits)
  obtain cnt malformed where fc: "feed_count ngx (feed_lines body) (0, 0) = (cnt, malformed)" by fastforce
  have ok: "sentinel_feed_check_trailer ngx (strip_cr (fst (cut_line tail))) cnt (crc32_long ngx body) = NGX_OK"
    "malformed = 0 \<or> malformed * 4 \<le> cnt + malformed"
    using assms c1 loc fc
    by (auto simp: feed_validate_def Let_def NGX_SENTINEL_FEED_MALFORMED_DENOM_def split: if_splits)
  have "data = hl @ NL # p" by (rule cut_line_Some [OF c1(1)])
  moreover have "NUL \<notin> set NGX_SENTINEL_FEED_HEADER" by (simp add: NUL_def NGX_SENTINEL_FEED_HEADER_def)
  ultimately have "hl = NGX_SENTINEL_FEED_HEADER"
    using c1(2,3) strncmp_eq_prefix [of NGX_SENTINEL_FEED_HEADER data] by (auto simp: prefix_def append_eq_append_conv)
  then have "data = NGX_SENTINEL_FEED_HEADER @ [NL] @ body @ tail"
    using \<open>data = hl @ NL # p\<close> locate_trailer_Some [OF loc] by simp
  moreover from check_trailer_OK [OF ok(1)] obtain c h where
    "strip_cr (fst (cut_line tail)) = ''%%EOF '' @ c @ '' '' @ h" "atoi ngx c = Some (int cnt)"
    "trailer_crc h 0 = Some (crc32_long ngx body)" by blast
  ultimately show thesis using that fc ok(2) by (metis mult.commute)
qed

lemma printed_feed_accepted:
  assumes laws: "decimal_laws ngx" "atoi_law ngx" "atoi ngx [] = None"
    and ds: "list_all (printable ngx) ds" "int (length ds) < 2 ^ 63"
    and crc: "crc \<noteq> []" "NL \<notin> set crc" "CR \<notin> set crc" "trailer_crc crc 0 = Some (crc32_long ngx (print_body ngx ds))"
  shows "feed_validate ngx (print_feed ngx ds crc) = Inr (print_body ngx ds) \<and>
    map (feed_decision ngx) (feed_lines (print_body ngx ds)) =
      map (\<lambda>(ip, act, expiry). Some (sentinel_feed_canon_ip ngx ip, act, expiry)) ds"
proof -
  note line = print_decision_line [OF laws]
  have good: "list_all (\<lambda>d. NL \<notin> set (print_decision ngx d) \<and> hd (print_decision ngx d) \<noteq> CHR ''%'' \<and>
      print_decision ngx d \<noteq> []) ds"
    using ds(1) line(1-3) by (auto simp: list_all_iff)
  then have fl: "feed_lines (print_body ngx ds) = map (print_decision ngx) ds"
    by (intro feed_lines_print) (auto simp: list_all_iff)
  have dec: "feed_decision ngx (print_decision ngx d) = (\<lambda>(ip, act, expiry). Some (sentinel_feed_canon_ip ngx ip, act, expiry)) d
      \<and> \<not> feed_ignored (print_decision ngx d)" if "d \<in> set ds" for d
    using ds(1) that line(4,5) by (cases d) (auto simp: list_all_iff)
  have "feed_count ngx (map (print_decision ngx) ds) (0, 0) = (0 + length (map (print_decision ngx) ds), 0)"
    by (rule feed_count_print) (auto simp: list_all_iff dec split: prod.split)
  then have fc: "feed_count ngx (feed_lines (print_body ngx ds)) (0, 0) = (length ds, 0)" by (simp add: fl)
  define t where "t = sprint_int ngx (int (length ds)) @ '' '' @ crc"
  have n: "NL \<notin> set (sprint_int ngx (int (length ds)))"
    using printed_digits(3) [OF laws(1,2) _ ds(2) laws(3)] by simp
  then have tNL: "NL \<notin> set t" using crc(2) by (simp add: t_def NL_def)
  have tc: "strip_cr (''%%EOF '' @ t) = ''%%EOF '' @ t"
  proof -
    have "last crc \<noteq> CR" using crc(1,3) by (metis last_in_set)
    then show ?thesis using crc(1) by (simp add: strip_cr_def t_def)
  qed
  have cut: "cut_line (''%%EOF '' @ t @ [NL]) = (''%%EOF '' @ t, Some [])"
    using cut_line_NL [of "''%%EOF '' @ t" "[]"] tNL by (simp add: NL_def)
  have tr: "sentinel_feed_check_trailer ngx (''%%EOF '' @ t) (length ds) (crc32_long ngx (print_body ngx ds)) = NGX_OK"
    unfolding t_def by (rule check_trailer_print [OF laws ds(2) crc(1,4)])
  let ?r = "print_body ngx ds @ ''%%EOF '' @ t @ [NL]"
  have data: "print_feed ngx ds crc = NGX_SENTINEL_FEED_HEADER @ NL # ?r" by (simp add: print_feed_def t_def)
  have "NL \<notin> set NGX_SENTINEL_FEED_HEADER" by (simp add: NL_def NGX_SENTINEL_FEED_HEADER_def)
  then have cut1: "cut_line (print_feed ngx ds crc) = (NGX_SENTINEL_FEED_HEADER, Some ?r)"
    unfolding data by (rule cut_line_NL)
  have hd: "strncmp_eq (length NGX_SENTINEL_FEED_HEADER) (print_feed ngx ds crc) NGX_SENTINEL_FEED_HEADER"
    unfolding data by (rule strncmp_eq_append) (simp_all add: NUL_def NGX_SENTINEL_FEED_HEADER_def)
  have "feed_validate ngx (print_feed ngx ds crc) = Inr (print_body ngx ds)"
    unfolding feed_validate_def cut1 prod.case option.case locate_print [OF good tNL] Let_def fc cut fst_conv tc tr
    using hd by (simp add: data)
  moreover have "map (feed_decision ngx) (feed_lines (print_body ngx ds)) =
      map (\<lambda>(ip, act, expiry). Some (sentinel_feed_canon_ip ngx ip, act, expiry)) ds"
    using dec by (simp add: fl)
  ultimately show ?thesis by blast
qed

lemma parse_accepts:
  assumes "holds zone sh" "feed_validate ngx data = Inr body"
  obtains zone' where "sentinel_feed_parse ngx zone data ttl now = (NGX_OK, zone')"
proof -
  have "fst (sentinel_feed_parse ngx zone data ttl now) = NGX_OK"
    using assms by (auto simp: holds_def sentinel_feed_parse_def Let_def split: prod.splits)
  then show thesis by (metis that prod.collapse)
qed

subsection \<open>A sample feed\<close>

text \<open>An implementation that knows one address and whose checksum is the length, for the
  witnesses.\<close>

definition feed_shim :: ngx_api where
  "feed_shim = ngx_shim\<lparr>
     inet_addr := (\<lambda>s. if s = ''192.0.2.1'' then Some 3221225985 else None),
     inet_ntop := (\<lambda>a. ''192.0.2.1''),
     crc32_long := (\<lambda>s. of_nat (length s))\<rparr>"

lemma feed_shim_laws:
  shows "zone_laws feed_shim" and "digest_laws feed_shim" and "decimal_laws feed_shim" and "atoi_law feed_shim"
    and "atoi feed_shim [] = None" and "slab_room feed_shim"
proof -
  have f: "memn2cmp feed_shim = memn2cmp ngx_shim" "rb_fixup feed_shim = rb_fixup ngx_shim"
    "rb_delete feed_shim = rb_delete ngx_shim" "slab_calloc feed_shim = slab_calloc ngx_shim"
    by (simp_all add: feed_shim_def)
  show "zone_laws feed_shim"
    using ngx_shim_laws unfolding zone_laws_def memn2cmp_laws_def rbtree_laws_def slab_laws_def f .
  show "digest_laws feed_shim" using ngx_shim_digest by (simp add: digest_laws_def feed_shim_def)
  show d: "decimal_laws feed_shim" using ngx_shim_decimal by (simp add: decimal_laws_def feed_shim_def)
  have "atoi feed_shim = atotm feed_shim" by (simp add: feed_shim_def ngx_shim_def)
  then show "atoi_law feed_shim" using d by (simp add: decimal_laws_def atoi_law_def)
  show "atoi feed_shim [] = None" by (simp add: feed_shim_def ngx_shim_def shim_atoi_def)
  show "slab_room feed_shim"
    unfolding slab_room_def
  proof (intro allI impI)
    fix sh n assume "zone_inv feed_shim sh"
    then show "slab_calloc feed_shim sh n \<noteq> None"
      using shim_slab_Some [of feed_shim sh n] by (simp add: feed_shim_def)
  qed
qed

lemma sample_canon: "sentinel_feed_canon_ip feed_shim ''192.0.2.1'' = ''192.0.2.1''"
  by (simp add: sentinel_feed_canon_ip_def feed_shim_def)

lemma sample_printable: "list_all (printable feed_shim) [(''192.0.2.1'', CS_BAN, 0)]"
  using sample_canon by (simp add: printable_def NL_def)

lemma sample_crc: "trailer_crc ''10'' 0 = Some (crc32_long feed_shim (print_body feed_shim [(''192.0.2.1'', CS_BAN, 0)]))"
proof -
  have "shim_decimal 0 = ''0''" by (simp add: shim_decimal.simps shim_digit_def)
  then show ?thesis
    by (simp add: feed_shim_def ngx_shim_def print_body_def print_decision_def hex_value_def Let_def)
qed

lemma sample_accepted:
  "feed_validate feed_shim (print_feed feed_shim [(''192.0.2.1'', CS_BAN, 0)] ''10'') =
     Inr (print_body feed_shim [(''192.0.2.1'', CS_BAN, 0)])"
  "feed_lines (print_body feed_shim [(''192.0.2.1'', CS_BAN, 0)]) = [print_decision feed_shim (''192.0.2.1'', CS_BAN, 0)]"
  "line_ban feed_shim 3600 1000 (print_decision feed_shim (''192.0.2.1'', CS_BAN, 0)) =
     Some (sha256 feed_shim ''192.0.2.1'', 4600, CS_BAN)"
proof -
  show "feed_validate feed_shim (print_feed feed_shim [(''192.0.2.1'', CS_BAN, 0)] ''10'') =
     Inr (print_body feed_shim [(''192.0.2.1'', CS_BAN, 0)])"
    using printed_feed_accepted [OF feed_shim_laws(3-5) sample_printable _ _ _ _ sample_crc]
    by (simp add: NL_def CR_def)
  have p: "printable feed_shim (''192.0.2.1'', CS_BAN, 0)" using sample_printable by simp
  note l = print_decision_line [OF feed_shim_laws(3-5) p]
  show "feed_lines (print_body feed_shim [(''192.0.2.1'', CS_BAN, 0)]) = [print_decision feed_shim (''192.0.2.1'', CS_BAN, 0)]"
    using feed_lines_print [of feed_shim "[(''192.0.2.1'', CS_BAN, 0)]"] l(1) by simp
  show "line_ban feed_shim 3600 1000 (print_decision feed_shim (''192.0.2.1'', CS_BAN, 0)) =
     Some (sha256 feed_shim ''192.0.2.1'', 4600, CS_BAN)"
    using l(4,5) sample_canon by (simp add: line_ban_def)
qed

definition sample_zone :: ngx_sentinel_zone where
  "sample_zone = \<lparr>zone_name = ''cs'', zone_interval = 60, zone_block = 0, zone_threshold = 0,
                  zone_sh = Some fresh_shctx\<rparr>"

lemma sample_zone_sh [simp]: "zone_sh sample_zone = Some fresh_shctx" "zone_nodes fresh_shctx = []"
  by (simp_all add: sample_zone_def zone_nodes_def fresh_shctx_def)

subsection \<open>Properties\<close>

text \<open>
  Claim C16: an accepted feed replaces the table. After a load that returns \<open>NGX_OK\<close>, while the
  slab has room, the ban of every key is the last unexpired decision of the feed for it: keys
  the feed does not name have no ban any more, whatever the table held before.
\<close>

theorem accepted_feed_is_the_table:
  assumes laws: "zone_laws ngx" "digest_laws ngx" "slab_room ngx"
    and z: "holds zone sh" "zone_inv ngx sh"
    and new: "\<forall>n \<in> set (zone_nodes sh). node_generation n \<noteq> sh_generation sh + 1"
    and ok: "sentinel_feed_parse ngx zone data ttl now = (NGX_OK, zone')"
  shows "\<exists>body sh'. feed_validate ngx data = Inr body \<and> holds zone' sh' \<and> zone_inv ngx sh' \<and>
    ban_of sh' = map_of (rev (feed_bans ngx ttl now (feed_lines body)))"
proof -
  let ?g = "sh_generation sh + 1"
  from parse_phases [OF z(1) ok] obtain body zone1 applied zone2 where
    ph: "feed_validate ngx data = Inr body" "holds zone1 (sh\<lparr>sh_generation := ?g\<rparr>)"
      "feed_apply ngx ttl now ?g (feed_lines body) 0 zone1 = (applied, zone2)"
      "zone' = feed_sweep ngx ?g zone2" by metis
  have i1: "zone_inv ngx (sh\<lparr>sh_generation := ?g\<rparr>)" using z(2) by simp
  from feed_apply_inv [OF laws(1,2) ph(2) i1 ph(3)] obtain s2
    where s2: "holds zone2 s2" "zone_inv ngx s2" by auto
  from feed_apply_bans [OF laws ph(2) i1 ph(3)] s2(1) have all: "\<forall>key. case map_of
      (rev (feed_bans ngx ttl now (feed_lines body))) key of
      None \<Rightarrow> find_node key (zone_nodes s2) = find_node key (zone_nodes (sh\<lparr>sh_generation := ?g\<rparr>))
    | Some d \<Rightarrow> carries (zone_nodes s2) key ?g d" by (auto simp: holds_def)
  have bans: "case map_of (rev (feed_bans ngx ttl now (feed_lines body))) key of
      None \<Rightarrow> find_node key (zone_nodes s2) = find_node key (zone_nodes sh)
    | Some d \<Rightarrow> carries (zone_nodes s2) key ?g d" for key
    using spec [OF all, of key] unfolding generation_update .
  from feed_sweep_spec [OF laws(1) s2, of ?g] obtain sh' where sh': "holds zone' sh'" "zone_inv ngx sh'"
    "zone_nodes sh' = filter (\<lambda>n. node_generation n = ?g) (zone_nodes s2)" using ph(4) by auto
  have "ban_of sh' key = map_of (rev (feed_bans ngx ttl now (feed_lines body))) key" for key
  proof (cases "map_of (rev (feed_bans ngx ttl now (feed_lines body))) key")
    case None
    then have "find_node key (zone_nodes s2) = find_node key (zone_nodes sh)" using bans [of key] by simp
    then show ?thesis
      using None new distinct_zone_keys [OF zone_lawsD(1) [OF laws(1)] s2(2)] find_node_key [of key "zone_nodes sh"]
      by (auto simp: ban_of_def sh'(3) find_node_filter split: option.split)
  next
    case (Some d)
    then show ?thesis
      using bans [of key] distinct_zone_keys [OF zone_lawsD(1) [OF laws(1)] s2(2)]
      by (auto simp: ban_of_def sh'(3) find_node_filter carries_def)
  qed
  then show ?thesis using ph(1) sh'(1,2) by blast
qed

theorem accepted_feed_is_the_table_witness:
  "\<exists>zone' sh'. sentinel_feed_parse feed_shim (Some sample_zone)
       (print_feed feed_shim [(''192.0.2.1'', CS_BAN, 0)] ''10'') 3600 1000 = (NGX_OK, zone') \<and>
     holds zone' sh' \<and> ban_of sh' (sha256 feed_shim ''192.0.2.1'') = Some (4600, CS_BAN)"
proof -
  have h: "holds (Some sample_zone) fresh_shctx" by simp
  obtain zone' where ok: "sentinel_feed_parse feed_shim (Some sample_zone)
      (print_feed feed_shim [(''192.0.2.1'', CS_BAN, 0)] ''10'') 3600 1000 = (NGX_OK, zone')"
    using parse_accepts [OF h sample_accepted(1)] by blast
  from accepted_feed_is_the_table [OF feed_shim_laws(1,2,6) h fresh_inv _ ok] obtain sh' where
    "holds zone' sh'" "ban_of sh' = map_of (rev (feed_bans feed_shim 3600 1000
       (feed_lines (print_body feed_shim [(''192.0.2.1'', CS_BAN, 0)]))))"
    using sample_accepted(1) by auto
  then show ?thesis using ok by (auto simp: sample_accepted(2,3))
qed

text \<open>
  Claim C17: a feed is verified before it is applied. A load changes the zone only if the data
  starts with the version line, ends in a trailer whose record count is the number of valid
  decision lines and whose CRC is that of exactly the bytes between the two, and at most a
  quarter of the decision lines are malformed; otherwise the zone is left as it was.
\<close>

theorem unverified_feed_changes_nothing:
  "sentinel_feed_parse ngx zone data ttl now = (rc, zone') \<Longrightarrow>
   zone' = zone \<or>
   rc = NGX_OK \<and>
   (\<exists>body tail c h cnt malformed.
      data = NGX_SENTINEL_FEED_HEADER @ [NL] @ body @ tail \<and>
      strip_cr (fst (cut_line tail)) = ''%%EOF '' @ c @ '' '' @ h \<and>
      feed_count ngx (feed_lines body) (0, 0) = (cnt, malformed) \<and>
      atoi ngx c = Some (int cnt) \<and> trailer_crc h 0 = Some (crc32_long ngx body) \<and>
      (malformed = 0 \<or> 4 * malformed \<le> cnt + malformed))"
proof (cases "\<exists>z sh body. zone = Some z \<and> zone_sh z = Some sh \<and> feed_validate ngx data = Inr body")
  case True
  assume p: "sentinel_feed_parse ngx zone data ttl now = (rc, zone')"
  from True obtain z sh body where z: "zone = Some z" "zone_sh z = Some sh" "feed_validate ngx data = Inr body"
    by blast
  then have "rc = NGX_OK" using p by (auto simp: sentinel_feed_parse_def Let_def split: prod.splits)
  moreover from feed_validate_Inr [OF z(3)] obtain tail c h cnt malformed where
    "data = NGX_SENTINEL_FEED_HEADER @ [NL] @ body @ tail"
    "strip_cr (fst (cut_line tail)) = ''%%EOF '' @ c @ '' '' @ h"
    "feed_count ngx (feed_lines body) (0, 0) = (cnt, malformed)"
    "atoi ngx c = Some (int cnt)" "trailer_crc h 0 = Some (crc32_long ngx body)"
    "malformed = 0 \<or> 4 * malformed \<le> cnt + malformed" by blast
  ultimately show ?thesis by blast
next
  case False
  assume p: "sentinel_feed_parse ngx zone data ttl now = (rc, zone')"
  have "zone' = zone"
  proof (cases "feed_validate ngx data")
    case (Inl e)
    then show ?thesis using p by (auto simp: sentinel_feed_parse_def split: option.splits)
  next
    case (Inr body)
    then show ?thesis using p False by (auto simp: sentinel_feed_parse_def split: option.splits)
  qed
  then show ?thesis by simp
qed

theorem unverified_feed_changes_nothing_witness:
  "snd (sentinel_feed_parse feed_shim (Some sample_zone) ''203.0.113.7 ban 0'' 3600 1000) = Some sample_zone"
proof -
  obtain rc zone' where p: "sentinel_feed_parse feed_shim (Some sample_zone) ''203.0.113.7 ban 0'' 3600 1000 = (rc, zone')"
    by fastforce
  from unverified_feed_changes_nothing [OF p] show ?thesis
    using p by (auto simp: NGX_SENTINEL_FEED_HEADER_def)
qed

text \<open>
  Claim C18: a feed written in the documented grammar is accepted and read back. For writable
  decisions, fewer than \<open>2^63\<close> of them, and the CRC of the body in the trailer, validation
  succeeds with that body, and every line is read as the decision it was printed from, its
  address in canonical form.
\<close>

theorem written_feed_is_read_back:
  assumes laws: "decimal_laws ngx" "atoi_law ngx" "atoi ngx [] = None"
    and ds: "list_all (printable ngx) ds" "int (length ds) < 2 ^ 63"
    and crc: "crc \<noteq> []" "NL \<notin> set crc" "CR \<notin> set crc" "trailer_crc crc 0 = Some (crc32_long ngx (print_body ngx ds))"
  shows "feed_validate ngx (print_feed ngx ds crc) = Inr (print_body ngx ds) \<and>
    map (feed_decision ngx) (feed_lines (print_body ngx ds)) =
      map (\<lambda>(ip, act, expiry). Some (sentinel_feed_canon_ip ngx ip, act, expiry)) ds"
  by (rule printed_feed_accepted [OF assms])

theorem written_feed_is_read_back_witness:
  "feed_validate feed_shim (print_feed feed_shim [(''192.0.2.1'', CS_BAN, 0)] ''10'') =
     Inr (print_body feed_shim [(''192.0.2.1'', CS_BAN, 0)]) \<and>
   map (feed_decision feed_shim) (feed_lines (print_body feed_shim [(''192.0.2.1'', CS_BAN, 0)])) =
     [Some (''192.0.2.1'', CS_BAN, 0)]"
  using written_feed_is_read_back [OF feed_shim_laws(3-5), of "[(''192.0.2.1'', CS_BAN, 0)]" "''10''"]
    sample_printable sample_crc sample_canon
  by (simp add: NL_def CR_def)

text \<open>
  Two workers that load the same feed at the same time can wipe the table. Worker A
  takes a generation and applies the feed; worker B runs a complete load; when A then sweeps
  with its own, older generation, every decision B has restamped is removed and the table is
  empty, while both workers have seen \<open>NGX_OK\<close> and will not reload before the file changes.
\<close>

theorem overlapping_loads_empty_the_table:
  assumes laws: "zone_laws ngx" "digest_laws ngx" and z: "zone_sh z = Some sh" "zone_inv ngx sh"
    and A1: "feed_bump z sh = (gA, zA)"
    and A2: "feed_apply ngx ttl nowA gA ls 0 (Some zA) = (applied, zone1)"
    and B: "sentinel_feed_parse ngx zone1 data ttl nowB = (NGX_OK, zone2)"
  shows "\<exists>sh'. holds (feed_sweep ngx gA zone2) sh' \<and> zone_nodes sh' = []"
proof -
  have zA: "holds (Some zA) (sh\<lparr>sh_generation := gA\<rparr>)"
    using A1 by (auto simp: feed_bump_def Let_def)
  from feed_apply_inv [OF laws zA _ A2] z(2) obtain s1
    where s1: "holds zone1 s1" "zone_inv ngx s1" "sh_generation s1 = gA" by auto
  from parse_generation [OF laws s1(1,2) B] obtain s2
    where s2: "holds zone2 s2" "zone_inv ngx s2" "list_all (\<lambda>n. node_generation n = gA + 1) (zone_nodes s2)"
    using s1(3) by auto
  have "filter (\<lambda>n. node_generation n = gA) (zone_nodes s2) = []"
    using s2(3) by (auto simp: list_all_iff filter_empty_conv)
  then show ?thesis using feed_sweep_spec [OF laws(1) s2(1,2), of gA] by auto
qed

theorem overlapping_loads_empty_the_table_witness:
  "\<exists>gA zA applied zone1 zone2 sh'.
     feed_bump sample_zone fresh_shctx = (gA, zA) \<and>
     feed_apply feed_shim 3600 1000 gA [print_decision feed_shim (''192.0.2.1'', CS_BAN, 0)] 0 (Some zA) = (applied, zone1) \<and>
     sentinel_feed_parse feed_shim zone1 (print_feed feed_shim [(''192.0.2.1'', CS_BAN, 0)] ''10'') 3600 1000 = (NGX_OK, zone2) \<and>
     holds (feed_sweep feed_shim gA zone2) sh' \<and> zone_nodes sh' = []"
proof -
  obtain gA zA where A1: "feed_bump sample_zone fresh_shctx = (gA, zA)" by fastforce
  obtain applied zone1 where A2: "feed_apply feed_shim 3600 1000 gA
      [print_decision feed_shim (''192.0.2.1'', CS_BAN, 0)] 0 (Some zA) = (applied, zone1)" by fastforce
  have "holds (Some zA) (fresh_shctx\<lparr>sh_generation := gA\<rparr>)" using A1 by (auto simp: feed_bump_def Let_def)
  from feed_apply_inv [OF feed_shim_laws(1,2) this _ A2] obtain s1 where "holds zone1 s1" by auto
  from parse_accepts [OF this sample_accepted(1)] obtain zone2 where B: "sentinel_feed_parse feed_shim zone1
      (print_feed feed_shim [(''192.0.2.1'', CS_BAN, 0)] ''10'') 3600 1000 = (NGX_OK, zone2)" by blast
  show ?thesis
    using overlapping_loads_empty_the_table [OF feed_shim_laws(1,2) sample_zone_sh(1) fresh_inv A1 A2 B] A1 A2 B
    by blast
qed

end
