(* ===== verification/Sentinel_Redis.thy ===== *)
theory Sentinel_Redis
  imports Sentinel_Ring Sentinel_Feed
begin

text \<open>
  \<^verbatim>\<open>src/sentinel_redis.c\<close>: the per-worker Redis client that publishes local bans and pulls the
  bans of its peers. hiredis and the event loop are outside the repository: what they answer in
  one event is the record \<open>redis_env\<close>, the commands handed to \<open>redisAsyncCommand\<close> are collected in
  \<open>rw_sent\<close>, and hiredis's callbacks are the events of the step relation \<open>redis_reach\<close>.
  \<open>redisAsyncFree\<close> is its effect on the module's state: the context is gone and the nginx
  connection is detached. The socket adapter (\<open>add_read\<close> and its siblings) is in
  \<^verbatim>\<open>Sentinel_Adapter\<close>.
\<close>

definition NGX_SENTINEL_REDIS_BACKOFF_MIN_MS :: nat where "NGX_SENTINEL_REDIS_BACKOFF_MIN_MS = 500"
definition NGX_SENTINEL_REDIS_BACKOFF_MAX_MS :: nat where "NGX_SENTINEL_REDIS_BACKOFF_MAX_MS = 30000"
definition NGX_SENTINEL_REDIS_SCAN_COUNT :: nat where "NGX_SENTINEL_REDIS_SCAN_COUNT = 256"

datatype sentinel_redis_state = REDIS_DOWN | REDIS_CONNECTING | REDIS_UP

record sentinel_redis_ctx =
  rd_lcf :: loc_conf
  rd_cs_zone :: nat
  rd_push :: "string option"
  rd_ac :: bool
  rd_conn :: bool
  rd_state :: sentinel_redis_state
  rd_backoff :: nat
  rd_timer :: "nat option"
  rd_scan_cursor :: "64 word"
  rd_pull_inflight :: bool
  rd_auth_pending :: bool

text \<open>Commands: the SCAN pattern is a C string built in a fixed buffer and \<open>None\<close> when the buffer
  has no terminator; a GET carries the address copied for its reply.\<close>

datatype redis_cmd =
    AUTH string
  | SCAN "64 word" "string option" nat
  | GET string string
  | SET string string int

datatype redis_reply = RString string | RArray "redis_reply option list" | RError string | ROther

record redis_env =
  ev_now :: int
  ev_exiting :: bool
  ev_alloc :: bool
  ev_accept :: "redis_cmd \<Rightarrow> bool"
  ev_connect :: bool
  ev_attach :: bool
  ev_strlen :: nat

text \<open>The worker: the client's context (\<open>None\<close>: feature off), the zones, the shared rings by zone
  name, the commands sent.\<close>

record redis_world =
  rw_ctx :: "sentinel_redis_ctx option"
  rw_mcf :: main_conf
  rw_rings :: "string \<Rightarrow> ngx_sentinel_ring option"
  rw_sent :: "redis_cmd list"

subsection \<open>Small parsers\<close>

fun cursor_loop :: "string \<Rightarrow> 64 word \<Rightarrow> 64 word" where
  "cursor_loop [] v = v"
| "cursor_loop (c # s) v =
     (let n = of_char c :: nat
      in if n < 48 \<or> n > 57 then v
         else if v > (- 1) div 10 then 0
         else cursor_loop s (v * 10 + of_nat (n - 48)))"

definition sentinel_redis_parse_cursor :: "string \<Rightarrow> 64 word" where
  "sentinel_redis_parse_cursor s = cursor_loop s 0"

definition sentinel_redis_action :: "string \<Rightarrow> cs_action_tier" where
  "sentinel_redis_action s =
     (if length s = 3 \<and> strncmp_eq 3 s ''ban'' then CS_BAN
      else if length s = 7 \<and> strncmp_eq 7 s ''captcha'' then CS_CAPTCHA
      else if length s = 8 \<and> strncmp_eq 8 s ''throttle'' then CS_THROTTLE
      else CS_BAN)"

fun sentinel_redis_action_str :: "cs_action_tier \<Rightarrow> string" where
  "sentinel_redis_action_str CS_CAPTCHA = ''captcha''"
| "sentinel_redis_action_str CS_THROTTLE = ''throttle''"
| "sentinel_redis_action_str _ = ''ban''"

subsection \<open>Connection lifecycle\<close>

definition sentinel_redis_schedule_reconnect :: "redis_env \<Rightarrow> sentinel_redis_ctx \<Rightarrow> sentinel_redis_ctx" where
  "sentinel_redis_schedule_reconnect env rc =
     (if ev_exiting env then rc
      else
        let rc = (if rd_backoff rc < NGX_SENTINEL_REDIS_BACKOFF_MIN_MS
                  then rc\<lparr>rd_backoff := NGX_SENTINEL_REDIS_BACKOFF_MIN_MS\<rparr> else rc);
            rc = rc\<lparr>rd_timer := Some (rd_backoff rc)\<rparr>;
            rc = rc\<lparr>rd_backoff := rd_backoff rc * 2\<rparr>
        in if rd_backoff rc > NGX_SENTINEL_REDIS_BACKOFF_MAX_MS
           then rc\<lparr>rd_backoff := NGX_SENTINEL_REDIS_BACKOFF_MAX_MS\<rparr> else rc)"

definition sentinel_redis_ev_cleanup :: "sentinel_redis_ctx \<Rightarrow> sentinel_redis_ctx" where
  "sentinel_redis_ev_cleanup rc = (if \<not> rd_conn rc then rc else rc\<lparr>rd_conn := False\<rparr>)"

definition sentinel_redis_teardown :: "sentinel_redis_ctx \<Rightarrow> sentinel_redis_ctx" where
  "sentinel_redis_teardown rc =
     (let ac = rd_ac rc;
          rc = rc\<lparr>rd_state := REDIS_DOWN, rd_pull_inflight := False, rd_auth_pending := False,
                  rd_scan_cursor := 0\<rparr>
      in if ac then sentinel_redis_ev_cleanup (rc\<lparr>rd_ac := False\<rparr>)
         else if rd_conn rc then sentinel_redis_ev_cleanup rc
         else rc)"

definition sentinel_redis_on_connect :: "redis_env \<Rightarrow> bool \<Rightarrow> sentinel_redis_ctx \<Rightarrow> sentinel_redis_ctx" where
  "sentinel_redis_on_connect env ok rc =
     (if \<not> ok
      then sentinel_redis_schedule_reconnect env (sentinel_redis_teardown (rc\<lparr>rd_ac := False\<rparr>))
      else rc\<lparr>rd_state := REDIS_UP, rd_backoff := NGX_SENTINEL_REDIS_BACKOFF_MIN_MS\<rparr>)"

definition sentinel_redis_on_disconnect :: "redis_env \<Rightarrow> sentinel_redis_ctx \<Rightarrow> sentinel_redis_ctx" where
  "sentinel_redis_on_disconnect env rc =
     sentinel_redis_schedule_reconnect env (sentinel_redis_teardown (rc\<lparr>rd_ac := False\<rparr>))"

definition sentinel_redis_auth_reply :: "redis_env \<Rightarrow> redis_reply option \<Rightarrow> sentinel_redis_ctx \<Rightarrow>
    sentinel_redis_ctx" where
  "sentinel_redis_auth_reply env reply rc =
     (let rc = rc\<lparr>rd_auth_pending := False\<rparr>
      in case reply of
           None \<Rightarrow> sentinel_redis_schedule_reconnect env (sentinel_redis_teardown rc)
         | Some (RError e) \<Rightarrow> sentinel_redis_schedule_reconnect env (sentinel_redis_teardown rc)
         | _ \<Rightarrow> rc)"

text \<open>Whether the descriptor is valid and a connection slot is free comes from outside.\<close>

definition sentinel_redis_attach :: "redis_env \<Rightarrow> sentinel_redis_ctx \<Rightarrow> ngx_rc \<times> sentinel_redis_ctx" where
  "sentinel_redis_attach env rc =
     (if \<not> ev_attach env then (NGX_ERROR, rc) else (NGX_OK, rc\<lparr>rd_conn := True\<rparr>))"

definition sentinel_redis_connect :: "redis_env \<Rightarrow> sentinel_redis_ctx \<Rightarrow> redis_cmd list \<Rightarrow>
    sentinel_redis_ctx \<times> redis_cmd list" where
  "sentinel_redis_connect env rc sent =
     (if rd_state rc \<noteq> REDIS_DOWN then (rc, sent)
      else if \<not> ev_connect env then (sentinel_redis_schedule_reconnect env rc, sent)
      else
        let rc = rc\<lparr>rd_ac := True, rd_state := REDIS_CONNECTING\<rparr>
        in case sentinel_redis_attach env rc of
             (arc, rc) \<Rightarrow>
               if arc \<noteq> NGX_OK
               then (sentinel_redis_schedule_reconnect env (rc\<lparr>rd_ac := False, rd_state := REDIS_DOWN\<rparr>), sent)
               else
                 let pw = str_of (lcf_redis_password (rd_lcf rc))
                 in if length pw > 0 then
                      let rc = rc\<lparr>rd_auth_pending := True\<rparr>
                      in if \<not> ev_accept env (AUTH pw)
                         then (sentinel_redis_schedule_reconnect env (sentinel_redis_teardown rc), sent)
                         else (rc, sent @ [AUTH pw])
                    else (rc, sent))"

subsection \<open>Pull\<close>

text \<open>The C string in a buffer, if it is terminated there.\<close>

definition c_string :: "string \<Rightarrow> string option" where
  "c_string buf = (if NUL \<in> set buf then Some (takeWhile (\<lambda>c. c \<noteq> NUL) buf) else None)"

definition sentinel_redis_pull_step :: "redis_env \<Rightarrow> sentinel_redis_ctx \<Rightarrow> redis_cmd list \<Rightarrow>
    sentinel_redis_ctx \<times> redis_cmd list" where
  "sentinel_redis_pull_step env rc sent =
     (if \<not> rd_ac rc \<or> rd_state rc \<noteq> REDIS_UP then (rc\<lparr>rd_pull_inflight := False\<rparr>, sent)
      else
        let match_buf = take (ev_strlen env + 64) (str_of (lcf_redis_prefix (rd_lcf rc)) @ '':ban:*'' @ [NUL]);
            cmd = SCAN (rd_scan_cursor rc) (c_string match_buf) NGX_SENTINEL_REDIS_SCAN_COUNT
        in if \<not> ev_accept env cmd then (rc\<lparr>rd_pull_inflight := False\<rparr>, sent)
           else (rc, sent @ [cmd]))"

text \<open>The GETs for the keys of one SCAN page; the address is the key's suffix.\<close>

fun scan_keys :: "redis_env \<Rightarrow> nat \<Rightarrow> redis_reply option list \<Rightarrow> redis_cmd list \<Rightarrow> redis_cmd list" where
  "scan_keys env plen [] sent = sent"
| "scan_keys env plen (k # ks) sent =
     (case k of
        Some (RString s) \<Rightarrow>
          if length s \<le> plen then scan_keys env plen ks sent
          else
            let iplen = length s - plen
            in if iplen = 0 \<or> iplen \<ge> ev_strlen env then scan_keys env plen ks sent
               else if \<not> ev_alloc env then scan_keys env plen ks sent
               else
                 let cmd = GET (takeWhile (\<lambda>c. c \<noteq> NUL) s) (drop plen s)
                 in if \<not> ev_accept env cmd then scan_keys env plen ks sent
                    else scan_keys env plen ks (sent @ [cmd])
      | _ \<Rightarrow> scan_keys env plen ks sent)"

definition sentinel_redis_scan_reply :: "redis_env \<Rightarrow> redis_reply option \<Rightarrow> sentinel_redis_ctx \<Rightarrow>
    redis_cmd list \<Rightarrow> sentinel_redis_ctx \<times> redis_cmd list" where
  "sentinel_redis_scan_reply env reply rc sent =
     (case reply of
        Some (RArray [cur, keys]) \<Rightarrow>
          let rc = (case cur of
                      Some (RString s) \<Rightarrow> rc\<lparr>rd_scan_cursor := sentinel_redis_parse_cursor s\<rparr>
                    | _ \<Rightarrow> rc\<lparr>rd_scan_cursor := 0\<rparr>);
              plen = length (str_of (lcf_redis_prefix (rd_lcf rc))) + length '':ban:'';
              sent = (case keys of Some (RArray ks) \<Rightarrow> scan_keys env plen ks sent | _ \<Rightarrow> sent)
          in if rd_scan_cursor rc \<noteq> 0 then sentinel_redis_pull_step env rc sent
             else (rc\<lparr>rd_pull_inflight := False\<rparr>, sent)
      | _ \<Rightarrow> (rc\<lparr>rd_pull_inflight := False\<rparr>, sent))"

text \<open>A pulled ban carries the zone's current generation.\<close>

definition upsert_pulled :: "ngx_api \<Rightarrow> string \<Rightarrow> int \<Rightarrow> cs_action_tier \<Rightarrow> int \<Rightarrow>
    ngx_sentinel_zone option \<Rightarrow> ngx_rc \<times> ngx_sentinel_zone option" where
  "upsert_pulled ngx key expiry act now zone =
     sentinel_shm_crowdsec_upsert ngx zone key expiry act
       (case zone of
          None \<Rightarrow> 0
        | Some z \<Rightarrow> (case zone_sh z of None \<Rightarrow> 0 | Some sh \<Rightarrow> sh_generation sh)) now True"

definition sentinel_redis_get_reply :: "ngx_api \<Rightarrow> redis_env \<Rightarrow> string \<Rightarrow> redis_reply option \<Rightarrow>
    sentinel_redis_ctx option \<Rightarrow> main_conf \<Rightarrow> main_conf" where
  "sentinel_redis_get_reply ngx env ipcopy reply ctx mcf =
     (let ip = takeWhile (\<lambda>c. c \<noteq> NUL) ipcopy
      in case (ctx, reply) of
           (Some rc, Some (RString s)) \<Rightarrow>
             if length s = 0 then mcf
             else
               (case memchr CHR '' '' s of
                  None \<Rightarrow> mcf
                | Some i \<Rightarrow>
                    let act = sentinel_redis_action (take i s)
                    in case atoi ngx (drop (Suc i) s) of
                         None \<Rightarrow> mcf
                       | Some e \<Rightarrow>
                           if e \<le> ev_now env then mcf
                           else
                             mcf\<lparr>mcf_cs_zones :=
                               snd (call_zone (upsert_pulled ngx (sha256 ngx ip) e act (ev_now env))
                                      (rd_cs_zone rc) (mcf_cs_zones mcf))\<rparr>)
         | _ \<Rightarrow> mcf)"

subsection \<open>Push\<close>

definition redis_key :: "redis_env \<Rightarrow> string \<Rightarrow> string \<Rightarrow> string" where
  "redis_key env pfx ip = take (ev_strlen env + 64) (pfx @ '':ban:'' @ ip)"

definition redis_value :: "ngx_api \<Rightarrow> cs_action_tier \<Rightarrow> int \<Rightarrow> string" where
  "redis_value ngx act expiry = take 64 (sentinel_redis_action_str act @ '' '' @ sprint_int ngx expiry)"

text \<open>The drain loop. Every round takes an entry off the ring, so the number of pending entries
  bounds it.\<close>

function flush_loop :: "ngx_api \<Rightarrow> redis_env \<Rightarrow> string \<Rightarrow> nat \<Rightarrow> ngx_sentinel_ring \<Rightarrow> redis_cmd list \<Rightarrow>
    ngx_sentinel_ring \<times> redis_cmd list" where
  "flush_loop ngx env pfx drained push sent =
     (case redis_take push of
        None \<Rightarrow> (push, sent)
      | Some (e, push') \<Rightarrow>
          if length (push_ip e) = 0 \<or> length (push_ip e) \<ge> ev_strlen env
          then flush_loop ngx env pfx drained push' sent
          else
            let ttl = push_expiry e - ev_now env
            in if ttl \<le> 0 then flush_loop ngx env pfx drained push' sent
               else
                 let cmd = SET (redis_key env pfx (push_ip e))
                               (redis_value ngx (push_action e) (push_expiry e)) (signed_take_bit 31 ttl)
                 in if \<not> ev_accept env cmd then (push', sent)
                    else if drained + 1 \<ge> NGX_SENTINEL_REDIS_PUSH_RING then (push', sent @ [cmd])
                    else flush_loop ngx env pfx (drained + 1) push' (sent @ [cmd]))"
  by auto

lemma redis_take_count: "redis_take push = Some (e, push') \<Longrightarrow> ring_count push' < ring_count push"
  using take_count by (fastforce simp: redis_take_def)

termination flush_loop
  by (relation "measure (\<lambda>(ngx, env, pfx, drained, push, sent). ring_count push)")
    (auto dest: redis_take_count)

declare flush_loop.simps [simp del]

definition sentinel_redis_flush_push :: "ngx_api \<Rightarrow> redis_env \<Rightarrow> sentinel_redis_ctx \<Rightarrow>
    (string \<Rightarrow> ngx_sentinel_ring option) \<Rightarrow> redis_cmd list \<Rightarrow>
    (string \<Rightarrow> ngx_sentinel_ring option) \<times> redis_cmd list" where
  "sentinel_redis_flush_push ngx env rc rings sent =
     (case rd_push rc of
        None \<Rightarrow> (rings, sent)
      | Some nm \<Rightarrow>
          (case rings nm of
             None \<Rightarrow> (rings, sent)
           | Some push \<Rightarrow>
               if \<not> rd_ac rc \<or> rd_state rc \<noteq> REDIS_UP then (rings, sent)
               else
                 (case flush_loop ngx env (str_of (lcf_redis_prefix (rd_lcf rc))) 0 push sent of
                    (push, sent) \<Rightarrow> (rings(nm \<mapsto> push), sent))))"

text \<open>Two locations share a ring when they name the same shared zone.\<close>

definition sentinel_redis_enqueue_ban :: "nat \<Rightarrow> sentinel_redis_ctx option \<Rightarrow> loc_conf \<Rightarrow> string \<Rightarrow>
    cs_action_tier \<Rightarrow> int \<Rightarrow> (string \<Rightarrow> ngx_sentinel_ring option) \<Rightarrow> (string \<Rightarrow> ngx_sentinel_ring option)" where
  "sentinel_redis_enqueue_ban strlen ctx lcf ip act expiry rings =
     (case ctx of
        None \<Rightarrow> rings
      | Some rc \<Rightarrow>
          (case rd_push rc of
             None \<Rightarrow> rings
           | Some nm \<Rightarrow>
               if lcf_redis_push_zone lcf \<noteq> Some nm then rings
               else if length ip = 0 \<or> length ip \<ge> strlen then rings
               else
                 (case rings nm of
                    None \<Rightarrow> rings
                  | Some push \<Rightarrow>
                      rings(nm \<mapsto> redis_put \<lparr>push_ip = ip, push_action = act, push_expiry = expiry\<rparr> push))))"

subsection \<open>Timer and start-up\<close>

definition sentinel_redis_timer_handler :: "ngx_api \<Rightarrow> redis_env \<Rightarrow> sentinel_redis_ctx \<Rightarrow>
    (string \<Rightarrow> ngx_sentinel_ring option) \<Rightarrow> redis_cmd list \<Rightarrow>
    sentinel_redis_ctx \<times> (string \<Rightarrow> ngx_sentinel_ring option) \<times> redis_cmd list" where
  "sentinel_redis_timer_handler ngx env rc rings sent =
     (let (rc, rings, sent) =
        (case rd_state rc of
           REDIS_DOWN \<Rightarrow> (case sentinel_redis_connect env rc sent of (rc, sent) \<Rightarrow> (rc, rings, sent))
         | REDIS_CONNECTING \<Rightarrow> (rc, rings, sent)
         | REDIS_UP \<Rightarrow>
             if rd_auth_pending rc then (rc, rings, sent)
             else
               (case sentinel_redis_flush_push ngx env rc rings sent of
                  (rings, sent) \<Rightarrow>
                    if \<not> rd_pull_inflight rc then
                      (case sentinel_redis_pull_step env (rc\<lparr>rd_pull_inflight := True, rd_scan_cursor := 0\<rparr>) sent of
                         (rc, sent) \<Rightarrow> (rc, rings, sent))
                    else (rc, rings, sent)))
      in if \<not> ev_exiting env \<and> (rd_state rc = REDIS_UP \<or> rd_state rc = REDIS_CONNECTING)
         then (rc\<lparr>rd_timer := Some (nat (lcf_redis_interval (rd_lcf rc)) * 1000)\<rparr>, rings, sent)
         else (rc, rings, sent))"

text \<open>\<open>data\<close>: the ring inherited on reload; \<open>pool_data\<close>: the ring of an existing segment; \<open>alloc\<close>:
  whether the slab can give a zeroed block.\<close>

definition sentinel_redis_init_zone :: "ngx_sentinel_ring option \<Rightarrow> bool \<Rightarrow> ngx_sentinel_ring option \<Rightarrow>
    bool \<Rightarrow> ngx_rc \<times> ngx_sentinel_ring option" where
  "sentinel_redis_init_zone data shm_exists pool_data alloc =
     (case data of
        Some d \<Rightarrow> (NGX_OK, Some d)
      | None \<Rightarrow>
          if shm_exists then (NGX_OK, pool_data)
          else if \<not> alloc then (NGX_ERROR, None)
          else (NGX_OK, Some (ring_zero NGX_SENTINEL_REDIS_PUSH_RING)))"

definition redis_location :: "loc_conf option \<Rightarrow> bool" where
  "redis_location lcf =
     (case lcf of
        None \<Rightarrow> False
      | Some l \<Rightarrow> length (lcf_redis_host l) > 0 \<and> zone_at (lcf_cs_zone l) \<noteq> None)"

fun sentinel_redis_scan_loc :: "location_tree \<Rightarrow> loc_conf option" where
  "sentinel_redis_scan_loc LNone = None"
| "sentinel_redis_scan_loc (LNode exact inclusive l t r) =
     (if redis_location exact then exact
      else if redis_location inclusive then inclusive
      else
        case sentinel_redis_scan_loc l of
          Some found \<Rightarrow> Some found
        | None \<Rightarrow>
            (case sentinel_redis_scan_loc t of
               Some found \<Rightarrow> Some found
             | None \<Rightarrow> sentinel_redis_scan_loc r))"

text \<open>A server is its own location configuration and its static locations.\<close>

fun sentinel_redis_find_loc :: "(loc_conf option \<times> location_tree) list \<Rightarrow> loc_conf option" where
  "sentinel_redis_find_loc [] = None"
| "sentinel_redis_find_loc ((srv, static_locations) # servers) =
     (if redis_location srv then srv
      else
        case sentinel_redis_scan_loc static_locations of
          Some found \<Rightarrow> Some found
        | None \<Rightarrow> sentinel_redis_find_loc servers)"

definition sentinel_redis_init_process :: "(loc_conf option \<times> location_tree) list \<Rightarrow> bool \<Rightarrow>
    (string \<Rightarrow> ngx_sentinel_ring option) \<Rightarrow> sentinel_redis_ctx option" where
  "sentinel_redis_init_process servers alloc rings =
     (case sentinel_redis_find_loc servers of
        None \<Rightarrow> None
      | Some lcf \<Rightarrow>
          if \<not> alloc then None
          else
            (case zone_at (lcf_cs_zone lcf) of
               None \<Rightarrow> None
             | Some zi \<Rightarrow>
                 Some \<lparr>rd_lcf = lcf, rd_cs_zone = zi,
                       rd_push = (case lcf_redis_push_zone lcf of
                                    None \<Rightarrow> None
                                  | Some nm \<Rightarrow> (case rings nm of None \<Rightarrow> None | Some d \<Rightarrow> Some nm)),
                       rd_ac = False, rd_conn = False, rd_state = REDIS_DOWN,
                       rd_backoff = NGX_SENTINEL_REDIS_BACKOFF_MIN_MS, rd_timer = Some 1000,
                       rd_scan_cursor = 0, rd_pull_inflight = False, rd_auth_pending = False\<rparr>))"

subsection \<open>The worker as a step relation\<close>

text \<open>One event of the worker while it is not exiting: the timer fires, hiredis calls back on a
  live context (or with no reply, when it drops pending commands), a request enqueues a ban.\<close>

inductive redis_step :: "ngx_api \<Rightarrow> redis_world \<Rightarrow> redis_world \<Rightarrow> bool" for ngx where
  timer: "rw_ctx w = Some rc \<Longrightarrow> rd_timer rc \<noteq> None \<Longrightarrow> \<not> ev_exiting env \<Longrightarrow>
    sentinel_redis_timer_handler ngx env (rc\<lparr>rd_timer := None\<rparr>) (rw_rings w) (rw_sent w) = (rc', rings, sent) \<Longrightarrow>
    redis_step ngx w (w\<lparr>rw_ctx := Some rc', rw_rings := rings, rw_sent := sent\<rparr>)"
| connected: "rw_ctx w = Some rc \<Longrightarrow> rd_state rc = REDIS_CONNECTING \<Longrightarrow> \<not> ev_exiting env \<Longrightarrow>
    redis_step ngx w (w\<lparr>rw_ctx := Some (sentinel_redis_on_connect env ok rc)\<rparr>)"
| disconnected: "rw_ctx w = Some rc \<Longrightarrow> rd_ac rc \<Longrightarrow> \<not> ev_exiting env \<Longrightarrow>
    redis_step ngx w (w\<lparr>rw_ctx := Some (sentinel_redis_on_disconnect env rc)\<rparr>)"
| auth_reply: "rw_ctx w = Some rc \<Longrightarrow> \<not> ev_exiting env \<Longrightarrow>
    redis_step ngx w (w\<lparr>rw_ctx := Some (sentinel_redis_auth_reply env reply rc)\<rparr>)"
| scan_reply: "rw_ctx w = Some rc \<Longrightarrow> reply = None \<or> rd_ac rc \<Longrightarrow>
    sentinel_redis_scan_reply env reply rc (rw_sent w) = (rc', sent) \<Longrightarrow>
    redis_step ngx w (w\<lparr>rw_ctx := Some rc', rw_sent := sent\<rparr>)"
| get_reply: "redis_step ngx w (w\<lparr>rw_mcf := sentinel_redis_get_reply ngx env ip reply (rw_ctx w) (rw_mcf w)\<rparr>)"
| enqueue: "redis_step ngx w
    (w\<lparr>rw_rings := sentinel_redis_enqueue_ban strlen (rw_ctx w) lcf ip act expiry (rw_rings w)\<rparr>)"

inductive redis_reach :: "ngx_api \<Rightarrow> redis_world \<Rightarrow> redis_world \<Rightarrow> bool" for ngx where
  stay: "redis_reach ngx w w"
| event: "redis_reach ngx w w' \<Longrightarrow> redis_step ngx w' w'' \<Longrightarrow> redis_reach ngx w w''"

text \<open>The context's invariant: connected states are those with a context, work is in flight only
  when up, the backoff is in range, and the timer is armed.\<close>

definition redis_ok :: "sentinel_redis_ctx \<Rightarrow> bool" where
  "redis_ok rc \<longleftrightarrow>
     (rd_state rc = REDIS_DOWN \<longleftrightarrow> \<not> rd_ac rc) \<and>
     (rd_conn rc \<longrightarrow> rd_ac rc) \<and>
     (rd_pull_inflight rc \<longrightarrow> rd_state rc = REDIS_UP) \<and>
     (rd_auth_pending rc \<longrightarrow> rd_ac rc) \<and>
     500 \<le> rd_backoff rc \<and> rd_backoff rc \<le> 30000 \<and> rd_timer rc \<noteq> None"

lemmas redis_consts = NGX_SENTINEL_REDIS_BACKOFF_MIN_MS_def NGX_SENTINEL_REDIS_BACKOFF_MAX_MS_def

lemma schedule_fields [simp]:
  "rd_state (sentinel_redis_schedule_reconnect env rc) = rd_state rc"
  "rd_ac (sentinel_redis_schedule_reconnect env rc) = rd_ac rc"
  "rd_conn (sentinel_redis_schedule_reconnect env rc) = rd_conn rc"
  "rd_pull_inflight (sentinel_redis_schedule_reconnect env rc) = rd_pull_inflight rc"
  "rd_auth_pending (sentinel_redis_schedule_reconnect env rc) = rd_auth_pending rc"
  by (simp_all add: sentinel_redis_schedule_reconnect_def Let_def)

lemma schedule_arms:
  assumes "\<not> ev_exiting env"
  shows "rd_timer (sentinel_redis_schedule_reconnect env rc) = Some (max 500 (rd_backoff rc))"
    "rd_backoff (sentinel_redis_schedule_reconnect env rc) = min 30000 (2 * max 500 (rd_backoff rc))"
  using assms by (auto simp: sentinel_redis_schedule_reconnect_def Let_def redis_consts)

lemma teardown_fields [simp]:
  "rd_state (sentinel_redis_teardown rc) = REDIS_DOWN"
  "\<not> rd_ac (sentinel_redis_teardown rc)" "\<not> rd_conn (sentinel_redis_teardown rc)"
  "\<not> rd_pull_inflight (sentinel_redis_teardown rc)" "\<not> rd_auth_pending (sentinel_redis_teardown rc)"
  "rd_backoff (sentinel_redis_teardown rc) = rd_backoff rc"
  by (auto simp: sentinel_redis_teardown_def sentinel_redis_ev_cleanup_def Let_def)

lemma reconnect_ok:
  assumes "\<not> ev_exiting env" "rd_state rc = REDIS_DOWN" "\<not> rd_ac rc" "\<not> rd_conn rc"
    "\<not> rd_pull_inflight rc" "\<not> rd_auth_pending rc"
  shows "redis_ok (sentinel_redis_schedule_reconnect env rc)"
  using assms by (simp add: redis_ok_def schedule_arms)

lemma pull_step_fields:
  assumes "sentinel_redis_pull_step env rc sent = (rc', sent')"
  shows "\<exists>b. rc' = rc\<lparr>rd_pull_inflight := b\<rparr>" "rd_pull_inflight rc' \<longrightarrow> rd_pull_inflight rc \<and> rd_state rc = REDIS_UP"
proof -
  have "rc' = rc \<and> rd_state rc = REDIS_UP \<or> rc' = rc\<lparr>rd_pull_inflight := False\<rparr>"
    using assms by (auto simp: sentinel_redis_pull_step_def Let_def split: if_splits)
  then show "\<exists>b. rc' = rc\<lparr>rd_pull_inflight := b\<rparr>" "rd_pull_inflight rc' \<longrightarrow> rd_pull_inflight rc \<and> rd_state rc = REDIS_UP"
    by (auto intro: exI [of _ "rd_pull_inflight rc"])
qed

lemma connect_ok:
  assumes "redis_ok (rc\<lparr>rd_timer := Some d\<rparr>)" "\<not> ev_exiting env"
    and "sentinel_redis_connect env rc sent = (rc', sent')" "rd_state rc = REDIS_DOWN"
  shows "if rd_state rc' = REDIS_DOWN then redis_ok rc' else redis_ok (rc'\<lparr>rd_timer := Some d'\<rparr>)"
proof -
  have rc: "\<not> rd_ac rc" "\<not> rd_conn rc" "\<not> rd_pull_inflight rc" "\<not> rd_auth_pending rc"
    "500 \<le> rd_backoff rc" "rd_backoff rc \<le> 30000"
    using assms(1,4) by (auto simp: redis_ok_def)
  let ?up = "rc\<lparr>rd_ac := True, rd_state := REDIS_CONNECTING\<rparr>"
  show ?thesis
  proof (cases "ev_connect env \<and> ev_attach env")
    case False
    then have "rc' = sentinel_redis_schedule_reconnect env rc \<or>
        rc' = sentinel_redis_schedule_reconnect env (?up\<lparr>rd_ac := False, rd_state := REDIS_DOWN\<rparr>)"
      using assms(3,4) by (auto simp: sentinel_redis_connect_def sentinel_redis_attach_def Let_def split: if_splits)
    then show ?thesis using assms(2,4) rc by (auto intro: reconnect_ok)
  next
    case True
    let ?c = "?up\<lparr>rd_conn := True\<rparr>"
    have "rc' = ?c \<or> rc' = ?c\<lparr>rd_auth_pending := True\<rparr> \<or>
        rc' = sentinel_redis_schedule_reconnect env (sentinel_redis_teardown (?c\<lparr>rd_auth_pending := True\<rparr>))"
      using assms(3,4) True
      by (auto simp: sentinel_redis_connect_def sentinel_redis_attach_def Let_def split: if_splits)
    then show ?thesis using assms(2) rc by (auto intro!: reconnect_ok simp: redis_ok_def [of "_\<lparr>rd_timer := _\<rparr>"])
  qed
qed

lemma timer_ok:
  assumes ok: "redis_ok rc" and ex: "\<not> ev_exiting env"
    and res: "sentinel_redis_timer_handler ngx env (rc\<lparr>rd_timer := None\<rparr>) rings sent = (rc', rings', sent')"
  shows "redis_ok rc'"
proof -
  obtain d where d: "rd_timer rc = Some d" using ok by (auto simp: redis_ok_def)
  let ?rc = "rc\<lparr>rd_timer := None\<rparr>" and ?d = "\<lambda>rc. Some (nat (lcf_redis_interval (rd_lcf rc)) * 1000)"
  have ok': "redis_ok (?rc\<lparr>rd_timer := Some d\<rparr>)" using ok d by (simp add: redis_ok_def)
  show ?thesis
  proof (cases "rd_state rc")
    case REDIS_DOWN
    obtain rc1 s1 where c: "sentinel_redis_connect env ?rc sent = (rc1, s1)" by fastforce
    have "rc' = (if rd_state rc1 = REDIS_UP \<or> rd_state rc1 = REDIS_CONNECTING then rc1\<lparr>rd_timer := ?d rc1\<rparr> else rc1)"
      using res REDIS_DOWN ex by (auto simp: sentinel_redis_timer_handler_def c split: if_splits)
    then show ?thesis
      using connect_ok [OF ok' ex c] REDIS_DOWN by (cases "rd_state rc1") auto
  next
    case REDIS_CONNECTING
    then have "rc' = ?rc\<lparr>rd_timer := ?d rc\<rparr>" using res ex by (simp add: sentinel_redis_timer_handler_def)
    then show ?thesis using ok by (simp add: redis_ok_def)
  next
    case REDIS_UP
    show ?thesis
    proof (cases "rd_auth_pending rc")
      case True
      then have "rc' = ?rc\<lparr>rd_timer := ?d rc\<rparr>"
        using res ex REDIS_UP by (simp add: sentinel_redis_timer_handler_def)
      then show ?thesis using ok by (simp add: redis_ok_def)
    next
      case False
      obtain rs s1 where f: "sentinel_redis_flush_push ngx env ?rc rings sent = (rs, s1)" by fastforce
      obtain rc1 s2 where p: "sentinel_redis_pull_step env (?rc\<lparr>rd_pull_inflight := True, rd_scan_cursor := 0\<rparr>) s1 = (rc1, s2)"
        by fastforce
      obtain b where "rc1 = ?rc\<lparr>rd_scan_cursor := 0, rd_pull_inflight := b\<rparr>"
        using pull_step_fields(1) [OF p] by auto
      then show ?thesis
        using res ex REDIS_UP False f p ok
        by (cases "rd_pull_inflight rc") (auto simp: sentinel_redis_timer_handler_def redis_ok_def)
    qed
  qed
qed

lemma scan_reply_ok:
  assumes "redis_ok rc" "sentinel_redis_scan_reply env reply rc sent = (rc', sent')"
  shows "redis_ok rc'"
proof -
  have "\<exists>b c. rc' = rc\<lparr>rd_scan_cursor := c, rd_pull_inflight := b\<rparr> \<and> (b \<longrightarrow> rd_pull_inflight rc)"
  proof (cases "\<exists>cur keys. reply = Some (RArray [cur, keys])")
    case True
    then obtain cur keys where r: "reply = Some (RArray [cur, keys])" by blast
    let ?c = "case cur of Some (RString s) \<Rightarrow> sentinel_redis_parse_cursor s | _ \<Rightarrow> 0"
    have c: "(case cur of Some (RString s) \<Rightarrow> rc\<lparr>rd_scan_cursor := sentinel_redis_parse_cursor s\<rparr>
        | _ \<Rightarrow> rc\<lparr>rd_scan_cursor := 0\<rparr>) = rc\<lparr>rd_scan_cursor := ?c\<rparr>"
      by (simp split: option.split redis_reply.split)
    define cc where "cc = ?c"
    define s1 where "s1 = (case keys of Some (RArray ks) \<Rightarrow>
        scan_keys env (length (str_of (lcf_redis_prefix (rd_lcf (rc\<lparr>rd_scan_cursor := cc\<rparr>)))) + length '':ban:'') ks sent
      | _ \<Rightarrow> sent)"
    have s1: "(if cc \<noteq> 0 then sentinel_redis_pull_step env (rc\<lparr>rd_scan_cursor := cc\<rparr>) s1
        else (rc\<lparr>rd_scan_cursor := cc, rd_pull_inflight := False\<rparr>, s1)) = (rc', sent')"
      using assms(2) unfolding sentinel_redis_scan_reply_def r s1_def
      by (simp only: option.simps redis_reply.simps list.simps c Let_def cc_def [symmetric] sentinel_redis_ctx.select_convs sentinel_redis_ctx.update_convs) (simp split: if_splits)
    then show ?thesis
      using pull_step_fields [of env "rc\<lparr>rd_scan_cursor := cc\<rparr>" s1 rc' sent'] s1 by (auto split: if_splits)
  next
    case False
    then have "rc' = rc\<lparr>rd_scan_cursor := rd_scan_cursor rc, rd_pull_inflight := False\<rparr>"
      using assms(2) by (auto simp: sentinel_redis_scan_reply_def split: option.splits redis_reply.splits list.splits)
    then show ?thesis by blast
  qed
  then show ?thesis using assms(1) by (auto simp: redis_ok_def)
qed

lemma redis_step_ok:
  assumes "redis_step ngx w w'" "\<forall>rc. rw_ctx w = Some rc \<longrightarrow> redis_ok rc"
  shows "\<forall>rc. rw_ctx w' = Some rc \<longrightarrow> redis_ok rc"
  using assms
proof (cases rule: redis_step.cases)
  case (timer rc env rc' rings sent)
  then show ?thesis using timer_ok assms(2) by auto
next
  case (connected rc env ok)
  have "redis_ok (sentinel_redis_on_connect env ok rc)"
  proof (cases ok)
    case True
    then show ?thesis
      using connected assms(2) by (auto simp: sentinel_redis_on_connect_def redis_ok_def redis_consts)
  next
    case False
    then show ?thesis using connected by (simp add: sentinel_redis_on_connect_def reconnect_ok)
  qed
  then show ?thesis using connected by simp
next
  case (disconnected rc env)
  then show ?thesis by (auto simp: sentinel_redis_on_disconnect_def intro: reconnect_ok)
next
  case (auth_reply rc env reply)
  have rc: "redis_ok rc" using auth_reply assms(2) by simp
  have "redis_ok (sentinel_redis_auth_reply env reply rc)"
  proof (cases "reply = None \<or> (\<exists>e. reply = Some (RError e))")
    case True
    then show ?thesis using auth_reply by (auto simp: sentinel_redis_auth_reply_def reconnect_ok)
  next
    case False
    then have "sentinel_redis_auth_reply env reply rc = rc\<lparr>rd_auth_pending := False\<rparr>"
      by (auto simp: sentinel_redis_auth_reply_def Let_def split: option.split redis_reply.split)
    then show ?thesis using rc by (simp add: redis_ok_def)
  qed
  then show ?thesis using auth_reply by simp
next
  case (scan_reply rc reply env rc' sent)
  then show ?thesis using scan_reply_ok assms(2) by auto
qed auto


inductive_cases redis_reachE: "redis_reach ngx w w'"

lemma reach_trans: "redis_reach ngx w' w'' \<Longrightarrow> redis_reach ngx w w' \<Longrightarrow> redis_reach ngx w w''"
  by (induction rule: redis_reach.induct) (auto intro: redis_reach.event)

lemma reach_one: "redis_step ngx w w' \<Longrightarrow> redis_reach ngx w w'"
  by (rule redis_reach.event [OF redis_reach.stay])

text \<open>No event turns the feature off, and every event keeps the invariant.\<close>

lemma reach_ok:
  assumes "redis_reach ngx w w'" "rw_ctx w = Some rc" "redis_ok rc"
  shows "\<exists>rc'. rw_ctx w' = Some rc' \<and> redis_ok rc'"
  using assms
proof (induction rule: redis_reach.induct)
  case (event w w' w'')
  then obtain rc' where rc': "rw_ctx w' = Some rc'" "redis_ok rc'" by blast
  have "rw_ctx w'' \<noteq> None" using event.hyps(2) rc'(1) by (cases rule: redis_step.cases) auto
  then show ?case using redis_step_ok [OF event.hyps(2)] rc' by auto
qed simp

lemma init_ok: "sentinel_redis_init_process servers alloc rings = Some rc \<Longrightarrow> redis_ok rc"
  by (auto simp: sentinel_redis_init_process_def redis_ok_def redis_consts split: option.splits if_splits)

text \<open>An event in which everything succeeds.\<close>

definition good_event :: redis_env where
  "good_event = \<lparr>ev_now = 0, ev_exiting = False, ev_alloc = True, ev_accept = (\<lambda>c. True), ev_connect = True,
                 ev_attach = True, ev_strlen = 46\<rparr>"

lemma good_event_simps [simp]:
  "\<not> ev_exiting good_event" "ev_alloc good_event" "ev_accept good_event c" "ev_connect good_event"
  "ev_attach good_event" "ev_strlen good_event = 46"
  by (simp_all add: good_event_def)

lemma connecting_comes_up:
  assumes "rw_ctx w = Some rc" "rd_state rc = REDIS_CONNECTING"
  shows "\<exists>w' rc'. redis_reach ngx w w' \<and> rw_ctx w' = Some rc' \<and> rd_state rc' = REDIS_UP"
proof -
  let ?rc = "sentinel_redis_on_connect good_event True rc"
  have "redis_step ngx w (w\<lparr>rw_ctx := Some ?rc\<rparr>)" by (rule redis_step.connected [OF assms]) simp
  then show ?thesis
    by (intro exI [of _ "w\<lparr>rw_ctx := Some ?rc\<rparr>"] exI [of _ ?rc]) (auto intro: reach_one simp: sentinel_redis_on_connect_def)
qed

lemma down_starts_connecting:
  assumes "rw_ctx w = Some rc" "rd_state rc = REDIS_DOWN" "rd_timer rc \<noteq> None"
  shows "\<exists>w' rc'. redis_step ngx w w' \<and> rw_ctx w' = Some rc' \<and> rd_state rc' = REDIS_CONNECTING"
proof -
  obtain rc' rings sent where h: "sentinel_redis_timer_handler ngx good_event (rc\<lparr>rd_timer := None\<rparr>) (rw_rings w) (rw_sent w) =
      (rc', rings, sent)" using prod_cases3 by blast
  have "rd_state rc' = REDIS_CONNECTING"
    using h assms(2)
    by (auto simp: sentinel_redis_timer_handler_def sentinel_redis_connect_def sentinel_redis_attach_def Let_def
        split: if_splits)
  then show ?thesis using redis_step.timer [OF assms(1,3) _ h] by fastforce
qed

lemma worker_can_come_up:
  assumes "rw_ctx w = Some rc" "redis_ok rc"
  shows "\<exists>w' rc'. redis_reach ngx w w' \<and> rw_ctx w' = Some rc' \<and> rd_state rc' = REDIS_UP"
proof (cases "rd_state rc")
  case REDIS_DOWN
  have "rd_timer rc \<noteq> None" using assms(2) by (simp add: redis_ok_def)
  from down_starts_connecting [OF assms(1) REDIS_DOWN this] obtain w1 rc1 where
    w1: "redis_step ngx w w1" "rw_ctx w1 = Some rc1" "rd_state rc1 = REDIS_CONNECTING" by blast
  from connecting_comes_up [OF w1(2,3)] show ?thesis using reach_trans [OF _ reach_one [OF w1(1)]] by blast
next
  case REDIS_CONNECTING
  then show ?thesis by (rule connecting_comes_up [OF assms(1)])
next
  case REDIS_UP
  then show ?thesis using assms(1) by (auto intro: redis_reach.stay)
qed

subsection \<open>What a flush publishes\<close>

definition publishable :: "redis_env \<Rightarrow> ngx_sentinel_redis_push \<Rightarrow> bool" where
  "publishable env e \<longleftrightarrow>
     push_ip e \<noteq> [] \<and> length (push_ip e) < ev_strlen env \<and> ev_now env < push_expiry e"

definition publish :: "ngx_api \<Rightarrow> redis_env \<Rightarrow> string \<Rightarrow> ngx_sentinel_redis_push \<Rightarrow> redis_cmd" where
  "publish ngx env pfx e =
     SET (redis_key env pfx (push_ip e)) (redis_value ngx (push_action e) (push_expiry e))
       (signed_take_bit 31 (push_expiry e - ev_now env))"

lemma flush_publishes:
  "ring_inv NGX_SENTINEL_REDIS_PUSH_RING push \<Longrightarrow>
     drained + length (push_entries push) \<le> NGX_SENTINEL_REDIS_PUSH_RING \<Longrightarrow> \<forall>c. ev_accept env c \<Longrightarrow>
     \<exists>push'. flush_loop ngx env pfx drained push sent =
         (push', sent @ map (publish ngx env pfx) (filter (publishable env) (push_entries push))) \<and>
       ring_inv NGX_SENTINEL_REDIS_PUSH_RING push' \<and> push_entries push' = []"
proof (induction ngx env pfx drained push sent rule: flush_loop.induct)
  case (1 ngx env pfx drained push sent)
  show ?case
  proof (cases "redis_take push")
    case None
    then have "push_entries push = []" using push_ring.take_none by blast
    then show ?thesis using None "1.prems" by (simp add: flush_loop.simps [of ngx env])
  next
    case (Some x)
    obtain e push' where x: "x = (e, push')" by (cases x)
    note t = Some [unfolded x]
    have e: "ring_inv NGX_SENTINEL_REDIS_PUSH_RING push'" "push_entries push = e # push_entries push'"
      using push_ring.take_some [OF "1.prems"(1) t] by auto
    show ?thesis
    proof (cases "push_ip e \<noteq> [] \<and> length (push_ip e) < ev_strlen env")
      case False
      then have "flush_loop ngx env pfx drained push sent = flush_loop ngx env pfx drained push' sent"
        by (subst flush_loop.simps) (auto simp: t)
      then show ?thesis
        using "1.IH"(1) [OF t refl _ e(1)] False "1.prems"(2,3) e(2) by (auto simp: publishable_def)
    next
      case len: True
      show ?thesis
      proof (cases "ev_now env < push_expiry e")
        case False
        then have "flush_loop ngx env pfx drained push sent = flush_loop ngx env pfx drained push' sent"
          using len by (subst flush_loop.simps) (auto simp: t Let_def)
        then show ?thesis
          using "1.IH"(2) [OF t refl _ refl _ e(1)] len False "1.prems"(2,3) e(2) by (auto simp: publishable_def)
      next
        case True
        let ?c = "publish ngx env pfx e"
        show ?thesis
        proof (cases "drained + 1 \<ge> NGX_SENTINEL_REDIS_PUSH_RING")
          case full: True
          have "length (push_entries push') = 0" using full "1.prems"(2) unfolding e(2) by simp
          then have "push_entries push' = []" by (simp only: length_0_conv)
          moreover have "flush_loop ngx env pfx drained push sent = (push', sent @ [?c])"
            using len True full "1.prems"(3) by (subst flush_loop.simps) (auto simp: t Let_def publish_def)
          ultimately show ?thesis using len True e by (simp add: publishable_def)
        next
          case more: False
          then have "flush_loop ngx env pfx drained push sent = flush_loop ngx env pfx (drained + 1) push' (sent @ [?c])"
            using len True "1.prems"(3) by (subst flush_loop.simps) (auto simp: t Let_def publish_def)
          then show ?thesis
            using "1.IH"(3) [OF t refl _ refl _ refl _ more e(1)] len True "1.prems"(2,3) e(2)
            by (auto simp: publishable_def publish_def)
        qed
      qed
    qed
  qed
qed

subsection \<open>Publishing and pulling a ban\<close>

lemma scan_keys_sent: "set sent \<subseteq> set (scan_keys env plen ks sent)"
proof (induction ks arbitrary: sent)
  case (Cons k ks)
  have "set sent \<subseteq> set (scan_keys env plen ks (sent @ [c]))" for c using Cons.IH [of "sent @ [c]"] by simp
  then show ?case using Cons.IH [of sent] by (auto simp: Let_def split: option.split redis_reply.split)
qed simp

lemma scan_keys_get:
  assumes "Some (RString s) \<in> set ks" "plen < length s" "length s - plen < ev_strlen env" "NUL \<notin> set s"
    and "ev_alloc env" "\<forall>c. ev_accept env c"
  shows "GET s (drop plen s) \<in> set (scan_keys env plen ks sent)"
  using assms(1)
proof (induction ks arbitrary: sent)
  case (Cons k ks)
  show ?case
  proof (cases "k = Some (RString s)")
    case True
    have s: "takeWhile (\<lambda>c. c \<noteq> NUL) s = s" using assms(4) by (auto simp: takeWhile_eq_all_conv)
    have "scan_keys env plen (k # ks) sent = scan_keys env plen ks (sent @ [GET s (drop plen s)])"
      using True assms(2,3,5,6) by (simp add: Let_def s)
    then show ?thesis using scan_keys_sent [of "sent @ [GET s (drop plen s)]" env plen ks] by auto
  next
    case False
    then have "GET s (drop plen s) \<in> set (scan_keys env plen ks sent')" for sent' using Cons by simp
    then show ?thesis by (auto simp: Let_def split: option.split redis_reply.split)
  qed
qed simp

lemma pull_step_sent: "set sent \<subseteq> set (snd (sentinel_redis_pull_step env rc sent))"
  by (auto simp: sentinel_redis_pull_step_def Let_def)

lemma scan_reply_sent:
  "set (scan_keys env (length (str_of (lcf_redis_prefix (rd_lcf rc))) + 5) ks sent) \<subseteq>
     set (snd (sentinel_redis_scan_reply env (Some (RArray [cur, Some (RArray ks)])) rc sent))"
proof -
  have "length '':ban:'' = 5" by simp
  moreover define rc1 where "rc1 = (case cur of
      Some (RString s) \<Rightarrow> rc\<lparr>rd_scan_cursor := sentinel_redis_parse_cursor s\<rparr> | _ \<Rightarrow> rc\<lparr>rd_scan_cursor := 0\<rparr>)"
  moreover have "rd_lcf rc1 = rd_lcf rc" by (simp add: rc1_def split: option.split redis_reply.split)
  ultimately show ?thesis
    using pull_step_sent by (simp add: sentinel_redis_scan_reply_def Let_def del: list.size)
qed

lemma redis_value_read:
  assumes laws: "decimal_laws ngx" "atoi_law ngx" "atoi ngx [] = None"
    and act: "act \<in> {CS_BAN, CS_CAPTCHA, CS_THROTTLE}" and e: "0 \<le> expiry" "expiry < 2 ^ 63"
    and fits: "length (sprint_int ngx expiry) \<le> 55"
  obtains i where "memchr CHR '' '' (redis_value ngx act expiry) = Some i"
    "sentinel_redis_action (take i (redis_value ngx act expiry)) = act"
    "atoi ngx (drop (Suc i) (redis_value ngx act expiry)) = Some expiry" "redis_value ngx act expiry \<noteq> []"
proof -
  let ?a = "sentinel_redis_action_str act"
  have a: "CHR '' '' \<notin> set ?a" "sentinel_redis_action ?a = act" "length ?a \<le> 8"
    using act by (auto simp: sentinel_redis_action_def)
  have "length (?a @ '' '' @ sprint_int ngx expiry) \<le> 64" using a(3) fits by simp
  then have v: "redis_value ngx act expiry = ?a @ CHR '' '' # sprint_int ngx expiry" by (simp add: redis_value_def)
  have "atoi ngx (sprint_int ngx expiry) = Some expiry" using laws(2) e by (simp add: atoi_law_def)
  then show ?thesis using that [of "length ?a"] a v by (simp add: memchr_append_notin)
qed

lemma call_zone_upsert:
  assumes "i < length zs" "zone_sh (zs ! i) = Some sh"
    and "crowdsec_upsert_locked ngx key e act (sh_generation sh) now True sh = (rc, sh')"
  shows "snd (call_zone (upsert_pulled ngx key e act now) i zs) = zs[i := (zs ! i)\<lparr>zone_sh := Some sh'\<rparr>]"
  using assms by (simp add: call_zone_def upsert_pulled_def sentinel_shm_crowdsec_upsert_def on_zone_def)

text \<open>A worker that finds the key of a published ban asks for its value, and the value it gets back
  becomes the ban of the address.\<close>

lemma published_key_asked:
  assumes ip: "ip \<noteq> []" "NUL \<notin> set ip" "length ip < ev_strlen env'"
    and pfx: "str_of (lcf_redis_prefix (rd_lcf rc)) = pfx" "NUL \<notin> set pfx" "length pfx + 5 + length ip \<le> ev_strlen env + 64"
    and peer: "ev_alloc env'" "\<forall>c. ev_accept env' c" "Some (RString (redis_key env pfx ip)) \<in> set ks"
  shows "GET (redis_key env pfx ip) ip \<in>
    set (snd (sentinel_redis_scan_reply env' (Some (RArray [cur, Some (RArray ks)])) rc sent))"
proof -
  let ?key = "redis_key env pfx ip"
  have key: "?key = pfx @ '':ban:'' @ ip" using pfx(3) by (simp add: redis_key_def)
  have "drop (length pfx + 5) ?key = ip" by (simp add: key)
  moreover have "NUL \<notin> set ?key" using ip(2) pfx(2) by (simp add: key NUL_def)
  ultimately have "GET ?key ip \<in> set (scan_keys env' (length pfx + 5) ks sent)"
    using scan_keys_get [OF peer(3), of "length pfx + 5" env' sent] ip(1,3) peer(1,2) by (auto simp: key)
  then show ?thesis using scan_reply_sent [of env' rc ks sent cur] pfx(1) by auto
qed

lemma pulled_ban_stored:
  assumes laws: "decimal_laws ngx" "atoi_law ngx" "atoi ngx [] = None" "zone_laws ngx" "digest_laws ngx" "slab_room ngx"
    and ip: "NUL \<notin> set ip"
    and ban: "act \<in> {CS_BAN, CS_CAPTCHA, CS_THROTTLE}" "0 \<le> expiry" "expiry < 2 ^ 63"
      "length (sprint_int ngx expiry) \<le> 55" "ev_now env' < expiry"
    and zone: "rd_cs_zone rc < length (mcf_cs_zones mcf)" "zone_sh (mcf_cs_zones mcf ! rd_cs_zone rc) = Some sh" "zone_inv ngx sh"
  shows "\<exists>sh'. mcf_cs_zones (sentinel_redis_get_reply ngx env' ip (Some (RString (redis_value ngx act expiry))) (Some rc) mcf) =
        (mcf_cs_zones mcf)[rd_cs_zone rc := (mcf_cs_zones mcf ! rd_cs_zone rc)\<lparr>zone_sh := Some sh'\<rparr>] \<and>
      zone_inv ngx sh' \<and> ban_of sh' = (ban_of sh)(sha256 ngx ip \<mapsto> (expiry, act))"
proof -
  let ?v = "redis_value ngx act expiry" and ?k = "sha256 ngx ip"
  obtain i where i: "memchr CHR '' '' ?v = Some i" "sentinel_redis_action (take i ?v) = act"
    "atoi ngx (drop (Suc i) ?v) = Some expiry" "?v \<noteq> []"
    by (rule redis_value_read [OF laws(1-3) ban(1-4)])
  have ip': "takeWhile (\<lambda>c. c \<noteq> NUL) ip = ip" using ip by (auto simp: takeWhile_eq_all_conv)
  obtain r sh' where u: "crowdsec_upsert_locked ngx ?k expiry act (sh_generation sh) (ev_now env') True sh = (r, sh')"
    by fastforce
  have "r = NGX_OK" by (rule upsert_succeeds [OF laws(6) zone(3) u])
  have len: "length ?k < 65536" using laws(5) by (simp add: digest_laws_def)
  have nodes: "zone_inv ngx sh'"
    "zone_nodes sh' = upsert_spec ngx ?k expiry act (sh_generation sh) (ev_now env') True (zone_nodes sh)"
    using upsert_refines [OF laws(4) zone(3) len u] \<open>r = NGX_OK\<close> by auto
  have "ban_of sh' = (ban_of sh)(?k \<mapsto> (expiry, act))"
    by (rule ext) (simp add: ban_of_def nodes(2) find_upsert [OF len])
  moreover have "mcf_cs_zones (sentinel_redis_get_reply ngx env' ip (Some (RString ?v)) (Some rc) mcf) =
      (mcf_cs_zones mcf)[rd_cs_zone rc := (mcf_cs_zones mcf ! rd_cs_zone rc)\<lparr>zone_sh := Some sh'\<rparr>]"
    using i ban(5) call_zone_upsert [OF zone(1,2) u] by (simp add: sentinel_redis_get_reply_def ip' Let_def)
  ultimately show ?thesis using nodes(1) by blast
qed

subsection \<open>A sample client\<close>

definition sample_lcf :: loc_conf where
  "sample_lcf = default_loc_conf\<lparr>lcf_cs_zone := ZAt 0, lcf_redis_host := ''127.0.0.1'', lcf_redis_push_zone := Some ''p''\<rparr>"

definition sample_ctx :: sentinel_redis_ctx where
  "sample_ctx = \<lparr>rd_lcf = sample_lcf, rd_cs_zone = 0, rd_push = Some ''p'', rd_ac = True, rd_conn = True,
     rd_state = REDIS_UP, rd_backoff = 500, rd_timer = Some 10000, rd_scan_cursor = 0, rd_pull_inflight = True,
     rd_auth_pending = False\<rparr>"

definition sample_rings :: "string \<Rightarrow> ngx_sentinel_ring option" where
  "sample_rings = [''p'' \<mapsto> redis_put \<lparr>push_ip = ''192.0.2.1'', push_action = CS_BAN, push_expiry = 9\<rparr>
     (ring_zero NGX_SENTINEL_REDIS_PUSH_RING)]"

definition sample_mcf :: main_conf where
  "sample_mcf = ngx_sentinel_create_main_conf\<lparr>mcf_cs_zones := [sample_zone]\<rparr>"

lemma sample_prefix [simp]: "str_of (lcf_redis_prefix sample_lcf) = ''sentinel''"
  by (simp add: sample_lcf_def default_loc_conf_def str_of_def)

lemma sample_decimal: "sprint_int feed_shim 9 = ''9''"
  by (simp add: feed_shim_def ngx_shim_def shim_decimal.simps shim_digit_def)

lemma sample_init: "sentinel_redis_init_process [(None, LNode (Some sample_lcf) None LNone LNone LNone)] True sample_rings =
    Some (sample_ctx\<lparr>rd_ac := False, rd_conn := False, rd_state := REDIS_DOWN, rd_timer := Some 1000, rd_pull_inflight := False\<rparr>)"
  by (simp add: sentinel_redis_init_process_def redis_location_def sample_lcf_def sample_ctx_def sample_rings_def
      NGX_SENTINEL_REDIS_BACKOFF_MIN_MS_def)

subsection \<open>Properties\<close>

text \<open>
  Claim C26: the Redis client never gets stuck. Whatever happens after start-up (failed connects,
  lost connections, rejected commands, refused passwords, missing replies), in every reachable
  state the timer is armed, the reconnect delay is between half a second and 30 seconds, a
  context exists exactly when the state is not down, and some continuation brings the client up.
\<close>

theorem redis_client_never_gets_stuck:
  assumes "sentinel_redis_init_process servers alloc rings = Some rc0" and "rw_ctx w0 = Some rc0"
    and "redis_reach ngx w0 w"
  shows "\<exists>rc. rw_ctx w = Some rc \<and> rd_timer rc \<noteq> None \<and> 500 \<le> rd_backoff rc \<and> rd_backoff rc \<le> 30000 \<and>
      (rd_ac rc \<longleftrightarrow> rd_state rc \<noteq> REDIS_DOWN) \<and> (rd_pull_inflight rc \<longrightarrow> rd_state rc = REDIS_UP) \<and>
      (\<exists>w' rc'. redis_reach ngx w w' \<and> rw_ctx w' = Some rc' \<and> rd_state rc' = REDIS_UP)"
proof -
  from reach_ok [OF assms(3,2) init_ok [OF assms(1)]] obtain rc where rc: "rw_ctx w = Some rc" "redis_ok rc" by blast
  then show ?thesis using worker_can_come_up [OF rc] by (auto simp: redis_ok_def)
qed

theorem redis_client_never_gets_stuck_witness:
  "\<exists>rc. rw_ctx \<lparr>rw_ctx = Some (sample_ctx\<lparr>rd_ac := False, rd_conn := False, rd_state := REDIS_DOWN,
        rd_timer := Some 1000, rd_pull_inflight := False\<rparr>), rw_mcf = sample_mcf, rw_rings = sample_rings, rw_sent = []\<rparr> = Some rc \<and>
     rd_timer rc \<noteq> None \<and> 500 \<le> rd_backoff rc \<and> rd_backoff rc \<le> 30000"
  using redis_client_never_gets_stuck [OF sample_init _ redis_reach.stay,
      of "\<lparr>rw_ctx = Some (sample_ctx\<lparr>rd_ac := False, rd_conn := False, rd_state := REDIS_DOWN,
        rd_timer := Some 1000, rd_pull_inflight := False\<rparr>), rw_mcf = sample_mcf, rw_rings = sample_rings, rw_sent = []\<rparr>"]
  by auto

text \<open>
  Claim C27: a flush publishes the pending bans and empties the ring. While hiredis accepts
  commands, one flush sends a SET for exactly the pending bans that have not expired and whose
  address fits, in the order they were enqueued, and leaves the ring empty.
\<close>

theorem flush_publishes_the_pending_bans:
  assumes "rd_push rc = Some nm" "rings nm = Some push" "rd_ac rc" "rd_state rc = REDIS_UP"
    and "ring_inv NGX_SENTINEL_REDIS_PUSH_RING push" and "\<forall>c. ev_accept env c"
  shows "\<exists>push'. sentinel_redis_flush_push ngx env rc rings sent =
      (rings(nm \<mapsto> push'),
       sent @ map (publish ngx env (str_of (lcf_redis_prefix (rd_lcf rc)))) (filter (publishable env) (push_entries push))) \<and>
    push_entries push' = []"
  using flush_publishes [OF assms(5) _ assms(6), of 0 ngx "str_of (lcf_redis_prefix (rd_lcf rc))" sent]
    push_ring.bounded [OF assms(5)] assms(1-4)
  by (auto simp: sentinel_redis_flush_push_def)

theorem flush_publishes_the_pending_bans_witness:
  "snd (sentinel_redis_flush_push feed_shim good_event sample_ctx sample_rings []) =
     [SET ''sentinel:ban:192.0.2.1'' ''ban 9'' 9]"
proof -
  let ?e = "\<lparr>push_ip = ''192.0.2.1'', push_action = CS_BAN, push_expiry = 9\<rparr> :: ngx_sentinel_redis_push"
  let ?r = "redis_put ?e (ring_zero NGX_SENTINEL_REDIS_PUSH_RING)"
  have r: "ring_inv NGX_SENTINEL_REDIS_PUSH_RING ?r" "push_entries ?r = [?e]"
    using push_ring.put_all [OF ring_zero_inv(1), of "[?e]"] by (simp_all add: NGX_SENTINEL_REDIS_PUSH_RING_def)
  have p: "publish feed_shim good_event ''sentinel'' ?e = SET ''sentinel:ban:192.0.2.1'' ''ban 9'' 9"
    using sample_decimal by (simp add: publish_def redis_key_def redis_value_def) (simp add: good_event_def)
  have "publishable good_event ?e" by (simp add: publishable_def good_event_def)
  then show ?thesis
    using flush_publishes_the_pending_bans [OF _ _ _ _ r(1), of sample_ctx "''p''" sample_rings good_event feed_shim "[]"] r(2) p
    by (auto simp: sample_ctx_def sample_rings_def)
qed

text \<open>
  Claim C28: a published ban reaches a peer. The key and value of a published ban, read back by
  a worker with the same prefix, make it ask for that key and then hold exactly the ban's action
  and expiry for the address, other addresses unchanged; provided the key fits its buffer, the
  address has no NUL byte and the slab has room.
\<close>

theorem published_ban_reaches_a_peer:
  assumes laws: "decimal_laws ngx" "atoi_law ngx" "atoi ngx [] = None" "zone_laws ngx" "digest_laws ngx" "slab_room ngx"
    and ip: "ip \<noteq> []" "NUL \<notin> set ip" "length ip < ev_strlen env'"
    and pfx: "str_of (lcf_redis_prefix (rd_lcf rc)) = pfx" "NUL \<notin> set pfx" "length pfx + 5 + length ip \<le> ev_strlen env + 64"
    and ban: "act \<in> {CS_BAN, CS_CAPTCHA, CS_THROTTLE}" "0 \<le> expiry" "expiry < 2 ^ 63"
      "length (sprint_int ngx expiry) \<le> 55" "ev_now env' < expiry"
    and peer: "ev_alloc env'" "\<forall>c. ev_accept env' c" "Some (RString (redis_key env pfx ip)) \<in> set ks"
    and zone: "rd_cs_zone rc < length (mcf_cs_zones mcf)" "zone_sh (mcf_cs_zones mcf ! rd_cs_zone rc) = Some sh" "zone_inv ngx sh"
  shows "GET (redis_key env pfx ip) ip \<in>
      set (snd (sentinel_redis_scan_reply env' (Some (RArray [cur, Some (RArray ks)])) rc sent)) \<and>
    (\<exists>sh'. zone_sh (mcf_cs_zones (sentinel_redis_get_reply ngx env' ip
          (Some (RString (redis_value ngx act expiry))) (Some rc) mcf) ! rd_cs_zone rc) = Some sh' \<and>
       ban_of sh' = (ban_of sh)(sha256 ngx ip \<mapsto> (expiry, act)))"
  using published_key_asked [OF ip pfx peer, of cur sent] pulled_ban_stored [OF laws ip(2) ban zone] zone(1) by auto

theorem published_ban_reaches_a_peer_witness:
  "\<exists>sh'. zone_sh (mcf_cs_zones (sentinel_redis_get_reply feed_shim good_event ''192.0.2.1''
        (Some (RString (redis_value feed_shim CS_BAN 9))) (Some sample_ctx) sample_mcf) ! 0) = Some sh' \<and>
     ban_of sh' = [sha256 feed_shim ''192.0.2.1'' \<mapsto> (9, CS_BAN)]"
proof -
  have b: "ban_of fresh_shctx = Map.empty" by (rule ext) (simp add: ban_of_def find_node_def)
  have n: "ev_now good_event = 0" by (simp add: good_event_def)
  have z: "rd_cs_zone sample_ctx = 0" "mcf_cs_zones sample_mcf = [sample_zone]" "rd_lcf sample_ctx = sample_lcf"
    by (simp_all add: sample_ctx_def sample_mcf_def)
  show ?thesis
    using published_ban_reaches_a_peer [OF feed_shim_laws(3-5,1,2,6), of "''192.0.2.1''" good_event sample_ctx "''sentinel''"
        good_event CS_BAN 9 "[Some (RString (redis_key good_event ''sentinel'' ''192.0.2.1''))]" sample_mcf fresh_shctx None "[]"]
    by (simp add: b n z sample_decimal fresh_inv NUL_def)
qed

text \<open>
  Two places where the code differs from its comments. A cursor just above \<open>2\<^sup>6\<^sup>4\<close> is not
  saturated to zero but wraps, so a scan would resume at the wrong place; and the SCAN pattern
  of a long prefix is left without its terminator.
\<close>

lemma cursor_overflow_wraps: "sentinel_redis_parse_cursor ''18446744073709551619'' = 3"
  by (simp add: sentinel_redis_parse_cursor_def Let_def)

lemma long_prefix_unterminated:
  assumes "ev_strlen env + 64 \<le> length pfx + 6" "NUL \<notin> set pfx"
  shows "c_string (take (ev_strlen env + 64) (pfx @ '':ban:*'' @ [NUL])) = None"
proof -
  define x where "x = pfx @ '':ban:*''"
  have "NUL \<notin> set x" "ev_strlen env + 64 \<le> length x" using assms by (simp_all add: x_def NUL_def)
  then have "NUL \<notin> set (take (ev_strlen env + 64) (x @ [NUL]))" by (auto dest: in_set_takeD)
  moreover have "pfx @ '':ban:*'' @ [NUL] = x @ [NUL]" by (simp add: x_def)
  ultimately show ?thesis unfolding c_string_def by metis
qed

end
