(* ===== verification/Sentinel_Cssink.thy ===== *)
theory Sentinel_Cssink
  imports Sentinel_Redis
begin

text \<open>
  \<^verbatim>\<open>src/sentinel_cssink.c\<close>: the CrowdSec sink. Every worker enqueues its bans into a shared ring;
  worker 0 drains it into a private set of decisions and rewrites the decisions file. The file
  system is a map from names to contents, and the outcome of each system call is a field of the
  record \<open>sink_io\<close>: whether the buffer, the open, the close, the rename and the delete succeed,
  and how many bytes the n-th write accepts (\<open>None\<close>: an error). \<open>strlen\<close> is nginx's
  \<open>NGX_SOCKADDR_STRLEN\<close>.
\<close>

record sentinel_cssink_decision =
  cd_ip :: string
  cd_expiry :: int

record sentinel_cssink_ctx =
  sc_lcf :: loc_conf
  sc_ring :: string
  sc_owner :: bool
  sc_set :: "sentinel_cssink_decision list"
  sc_set_count :: nat
  sc_timer :: "nat option"

record sink_io =
  io_alloc :: bool
  io_open :: bool
  io_write :: "nat \<Rightarrow> string \<Rightarrow> nat option"
  io_close :: bool
  io_rename :: bool
  io_delete :: bool

type_synonym files = "string \<Rightarrow> string option"

subsection \<open>The decision line\<close>

definition dq :: string where "dq = [CHR 0x22]"

definition json_str :: "string \<Rightarrow> string \<Rightarrow> string" where
  "json_str k v = dq @ k @ dq @ '':'' @ dq @ v @ dq"

definition sentinel_cssink_format_decision :: "ngx_api \<Rightarrow> nat \<Rightarrow> nat \<Rightarrow> string \<Rightarrow> string \<Rightarrow> int \<Rightarrow> string" where
  "sentinel_cssink_format_decision ngx strlen cap ip scenario duration_s =
     (if length ip = 0 \<or> length ip \<ge> strlen \<or> duration_s \<le> 0 then []
      else
        let line = ''{'' @ json_str ''value'' ip @ '','' @ json_str ''scope'' ''Ip'' @ '','' @
                   json_str ''duration'' (sprint_int ngx duration_s @ ''s'') @ '','' @
                   json_str ''scenario'' (takeWhile (\<lambda>c. c \<noteq> NUL) scenario) @ '','' @
                   json_str ''origin'' ''sentinel'' @ ''}'' @ [NL]
        in if length line \<ge> cap then [] else line)"

subsection \<open>Enqueue\<close>

definition sentinel_cssink_enqueue_ban :: "nat \<Rightarrow> sentinel_cssink_ctx option \<Rightarrow> loc_conf \<Rightarrow> string \<Rightarrow>
    cs_action_tier \<Rightarrow> int \<Rightarrow> (string \<Rightarrow> ngx_sentinel_ring option) \<Rightarrow> (string \<Rightarrow> ngx_sentinel_ring option)" where
  "sentinel_cssink_enqueue_ban strlen ctx lcf ip act expiry rings =
     (case ctx of
        None \<Rightarrow> rings
      | Some sc \<Rightarrow>
          if lcf_cs_sink_zone lcf \<noteq> Some (sc_ring sc) then rings
          else if length ip = 0 \<or> length ip \<ge> strlen then rings
          else
            (case rings (sc_ring sc) of
               None \<Rightarrow> rings
             | Some ring \<Rightarrow>
                 rings(sc_ring sc \<mapsto>
                   cssink_put \<lparr>push_ip = ip, push_action = act, push_expiry = expiry\<rparr> ring)))"

subsection \<open>The decision set\<close>

text \<open>The scan of the set: the slot that holds the address, or the first empty slot.\<close>

fun set_scan :: "string \<Rightarrow> nat \<Rightarrow> nat option \<Rightarrow> sentinel_cssink_decision list \<Rightarrow> nat + nat option" where
  "set_scan ip i free_slot [] = Inr free_slot"
| "set_scan ip i free_slot (d # ds) =
     (if cd_expiry d = 0
      then set_scan ip (i + 1) (case free_slot of None \<Rightarrow> Some i | Some j \<Rightarrow> Some j) ds
      else if cd_ip d = ip then Inl i
      else set_scan ip (i + 1) free_slot ds)"

definition sentinel_cssink_set_upsert :: "string \<Rightarrow> int \<Rightarrow> sentinel_cssink_ctx \<Rightarrow> sentinel_cssink_ctx" where
  "sentinel_cssink_set_upsert ip expiry sc =
     (case set_scan ip 0 None (sc_set sc) of
        Inl i \<Rightarrow> sc\<lparr>sc_set := (sc_set sc)[i := (sc_set sc ! i)\<lparr>cd_expiry := expiry\<rparr>]\<rparr>
      | Inr None \<Rightarrow> sc
      | Inr (Some i) \<Rightarrow>
          sc\<lparr>sc_set := (sc_set sc)[i := \<lparr>cd_ip = ip, cd_expiry = expiry\<rparr>],
             sc_set_count := sc_set_count sc + 1\<rparr>)"

fun expire_loop :: "int \<Rightarrow> sentinel_cssink_decision list \<Rightarrow> nat \<Rightarrow> sentinel_cssink_decision list \<times> nat" where
  "expire_loop now [] cnt = ([], cnt)"
| "expire_loop now (d # ds) cnt =
     (if cd_expiry d = 0 then (case expire_loop now ds cnt of (ds', c) \<Rightarrow> (d # ds', c))
      else if cd_expiry d \<le> now then
        (case expire_loop now ds (if cnt > 0 then cnt - 1 else cnt) of
           (ds', c) \<Rightarrow> (d\<lparr>cd_expiry := 0\<rparr> # ds', c))
      else (case expire_loop now ds cnt of (ds', c) \<Rightarrow> (d # ds', c)))"

definition sentinel_cssink_set_expire :: "int \<Rightarrow> sentinel_cssink_ctx \<Rightarrow> sentinel_cssink_ctx" where
  "sentinel_cssink_set_expire now sc =
     (case expire_loop now (sc_set sc) (sc_set_count sc) of
        (ds, c) \<Rightarrow> sc\<lparr>sc_set := ds, sc_set_count := c\<rparr>)"

subsection \<open>The file\<close>

text \<open>The write loop: the contents of the temporary file and whether every write was complete;
  \<open>k\<close> counts the writes.\<close>

fun write_loop :: "ngx_api \<Rightarrow> sink_io \<Rightarrow> nat \<Rightarrow> string \<Rightarrow> int \<Rightarrow> sentinel_cssink_decision list \<Rightarrow> nat \<Rightarrow>
    string \<Rightarrow> string \<times> bool" where
  "write_loop ngx io strlen scenario now [] k out = (out, True)"
| "write_loop ngx io strlen scenario now (d # ds) k out =
     (if cd_expiry d = 0 \<or> cd_expiry d \<le> now then write_loop ngx io strlen scenario now ds k out
      else
        let line = sentinel_cssink_format_decision ngx strlen (strlen + 160) (cd_ip d) scenario (cd_expiry d - now)
        in if length line = 0 then write_loop ngx io strlen scenario now ds k out
           else
             (case io_write io k line of
                None \<Rightarrow> (out, False)
              | Some w \<Rightarrow>
                  if w \<noteq> length line then (out @ take w line, False)
                  else write_loop ngx io strlen scenario now ds (k + 1) (out @ line)))"

definition delete_file :: "sink_io \<Rightarrow> string \<Rightarrow> files \<Rightarrow> files" where
  "delete_file io name fs = (if io_delete io then fs(name := None) else fs)"

definition sentinel_cssink_rewrite :: "ngx_api \<Rightarrow> sink_io \<Rightarrow> nat \<Rightarrow> sentinel_cssink_ctx \<Rightarrow> int \<Rightarrow> files \<Rightarrow> files" where
  "sentinel_cssink_rewrite ngx io strlen sc now fs =
     (let path = lcf_cs_sink_path (sc_lcf sc);
          tmp = path @ ''.tmp''
      in if \<not> io_alloc io then fs
         else if \<not> io_open io then fs
         else
           (case write_loop ngx io strlen (str_of (lcf_cs_sink_scenario (sc_lcf sc))) now (sc_set sc) 0 [] of
              (out, ok) \<Rightarrow>
                let fs = fs(tmp \<mapsto> out)
                in if \<not> ok then delete_file io tmp fs
                   else if \<not> io_close io then delete_file io tmp fs
                   else if \<not> io_rename io then delete_file io tmp fs
                   else (fs(path \<mapsto> out))(tmp := None)))"

subsection \<open>Timer and start-up\<close>

text \<open>The drain loop takes an entry off the ring in every round.\<close>

function drain_loop :: "nat \<Rightarrow> int \<Rightarrow> nat \<Rightarrow> ngx_sentinel_ring \<Rightarrow> sentinel_cssink_ctx \<Rightarrow>
    ngx_sentinel_ring \<times> sentinel_cssink_ctx" where
  "drain_loop strlen now drained ring sc =
     (case cssink_take ring of
        None \<Rightarrow> (ring, sc)
      | Some (e, ring') \<Rightarrow>
          let sc' = (if length (push_ip e) > 0 \<and> length (push_ip e) < strlen \<and> push_expiry e > now
                     then sentinel_cssink_set_upsert (push_ip e) (push_expiry e) sc else sc)
          in if drained + 1 \<ge> NGX_SENTINEL_CSSINK_RING then (ring', sc')
             else drain_loop strlen now (drained + 1) ring' sc')"
  by auto

lemma cssink_take_count: "cssink_take ring = Some (e, ring') \<Longrightarrow> ring_count ring' < ring_count ring"
  using take_count by (fastforce simp: cssink_take_def)

termination drain_loop
  by (relation "measure (\<lambda>(strlen, now, drained, ring, sc). ring_count ring)")
    (auto dest: cssink_take_count)

declare drain_loop.simps [simp del]

definition sink_rearm :: "sentinel_cssink_ctx \<Rightarrow> sentinel_cssink_ctx" where
  "sink_rearm sc = sc\<lparr>sc_timer := Some (nat (lcf_cs_sink_interval (sc_lcf sc)) * 1000)\<rparr>"

definition sentinel_cssink_timer_handler :: "ngx_api \<Rightarrow> sink_io \<Rightarrow> nat \<Rightarrow> bool \<Rightarrow> int \<Rightarrow> sentinel_cssink_ctx \<Rightarrow>
    (string \<Rightarrow> ngx_sentinel_ring option) \<Rightarrow> files \<Rightarrow>
    sentinel_cssink_ctx \<times> (string \<Rightarrow> ngx_sentinel_ring option) \<times> files" where
  "sentinel_cssink_timer_handler ngx io strlen exiting now sc rings fs =
     (if exiting then (sc, rings, fs)
      else if \<not> sc_owner sc then (sink_rearm sc, rings, fs)
      else
        let (rings, sc) =
          (case rings (sc_ring sc) of
             None \<Rightarrow> (rings, sc)
           | Some ring \<Rightarrow>
               (case drain_loop strlen now 0 ring sc of (ring, sc') \<Rightarrow> (rings(sc_ring sc \<mapsto> ring), sc')));
            sc = sentinel_cssink_set_expire now sc;
            fs = sentinel_cssink_rewrite ngx io strlen sc now fs
        in (sink_rearm sc, rings, fs))"

definition sentinel_cssink_init_zone :: "ngx_sentinel_ring option \<Rightarrow> bool \<Rightarrow> ngx_sentinel_ring option \<Rightarrow>
    bool \<Rightarrow> ngx_rc \<times> ngx_sentinel_ring option" where
  "sentinel_cssink_init_zone data shm_exists pool_data alloc =
     (case data of
        Some d \<Rightarrow> (NGX_OK, Some d)
      | None \<Rightarrow>
          if shm_exists then (NGX_OK, pool_data)
          else if \<not> alloc then (NGX_ERROR, None)
          else (NGX_OK, Some (ring_zero NGX_SENTINEL_CSSINK_RING)))"

definition sink_location :: "loc_conf option \<Rightarrow> bool" where
  "sink_location lcf =
     (case lcf of
        None \<Rightarrow> False
      | Some l \<Rightarrow> length (lcf_cs_sink_path l) > 0 \<and> lcf_cs_sink_zone l \<noteq> None)"

fun sentinel_cssink_scan_loc :: "location_tree \<Rightarrow> loc_conf option" where
  "sentinel_cssink_scan_loc LNone = None"
| "sentinel_cssink_scan_loc (LNode exact inclusive l t r) =
     (if sink_location exact then exact
      else if sink_location inclusive then inclusive
      else
        case sentinel_cssink_scan_loc l of
          Some found \<Rightarrow> Some found
        | None \<Rightarrow>
            (case sentinel_cssink_scan_loc t of
               Some found \<Rightarrow> Some found
             | None \<Rightarrow> sentinel_cssink_scan_loc r))"

fun sentinel_cssink_find_loc :: "(loc_conf option \<times> location_tree) list \<Rightarrow> loc_conf option" where
  "sentinel_cssink_find_loc [] = None"
| "sentinel_cssink_find_loc ((srv, static_locations) # servers) =
     (if sink_location srv then srv
      else
        case sentinel_cssink_scan_loc static_locations of
          Some found \<Rightarrow> Some found
        | None \<Rightarrow> sentinel_cssink_find_loc servers)"

text \<open>\<open>alloc_ctx\<close> and \<open>alloc_set\<close>: whether the two allocations succeed.\<close>

definition sentinel_cssink_init_process :: "(loc_conf option \<times> location_tree) list \<Rightarrow> nat \<Rightarrow> bool \<Rightarrow> bool \<Rightarrow>
    (string \<Rightarrow> ngx_sentinel_ring option) \<Rightarrow> sentinel_cssink_ctx option" where
  "sentinel_cssink_init_process servers worker alloc_ctx alloc_set rings =
     (case sentinel_cssink_find_loc servers of
        None \<Rightarrow> None
      | Some lcf \<Rightarrow>
          if \<not> alloc_ctx then None
          else
            (case lcf_cs_sink_zone lcf of
               None \<Rightarrow> None
             | Some nm \<Rightarrow>
                 (case rings nm of
                    None \<Rightarrow> None
                  | Some ring \<Rightarrow>
                      if worker = 0 \<and> \<not> alloc_set then None
                      else
                        Some \<lparr>sc_lcf = lcf, sc_ring = nm, sc_owner = (worker = 0),
                              sc_set = (if worker = 0
                                        then replicate NGX_SENTINEL_CSSINK_RING \<lparr>cd_ip = [], cd_expiry = 0\<rparr>
                                        else []),
                              sc_set_count = 0, sc_timer = Some 1000\<rparr>)))"


subsection \<open>The set as a map from addresses to expiries\<close>

definition live_slots :: "sentinel_cssink_decision list \<Rightarrow> sentinel_cssink_decision list" where
  "live_slots = filter (\<lambda>d. cd_expiry d \<noteq> 0)"

abbreviation slot_pair :: "sentinel_cssink_decision \<Rightarrow> string \<times> int" where
  "slot_pair d \<equiv> (cd_ip d, cd_expiry d)"

definition sink_map :: "sentinel_cssink_ctx \<Rightarrow> string \<Rightarrow> int option" where
  "sink_map sc = map_of (map slot_pair (live_slots (sc_set sc)))"

definition sink_inv :: "sentinel_cssink_ctx \<Rightarrow> bool" where
  "sink_inv sc \<longleftrightarrow>
     distinct (map cd_ip (live_slots (sc_set sc))) \<and> sc_set_count sc = length (live_slots (sc_set sc))"

lemma live_slots_simps [simp]:
  "live_slots [] = []" "live_slots (xs @ ys) = live_slots xs @ live_slots ys"
  "live_slots (d # ds) = (if cd_expiry d \<noteq> 0 then d # live_slots ds else live_slots ds)"
  by (simp_all add: live_slots_def)

lemma set_scan_Inl:
  "set_scan ip i free ds = Inl k \<Longrightarrow>
     \<exists>xs d ys. ds = xs @ d # ys \<and> k = i + length xs \<and> cd_expiry d \<noteq> 0 \<and> cd_ip d = ip"
proof (induction ds arbitrary: i free)
  case (Cons d ds)
  show ?case
  proof (cases "cd_expiry d \<noteq> 0 \<and> cd_ip d = ip")
    case True
    then show ?thesis using Cons.prems by (intro exI [of _ "[]"]) auto
  next
    case False
    then obtain free' where "set_scan ip (i + 1) free' ds = Inl k" using Cons.prems by (auto split: if_splits)
    from Cons.IH [OF this] obtain xs e ys where
      "ds = xs @ e # ys" "k = (i + 1) + length xs" "cd_expiry e \<noteq> 0" "cd_ip e = ip" by blast
    then show ?thesis by (intro exI [of _ "d # xs"]) auto
  qed
qed simp

lemma set_scan_Inr:
  "set_scan ip i free ds = Inr f \<Longrightarrow>
     ip \<notin> cd_ip ` set (live_slots ds) \<and> (\<forall>j. free = Some j \<longrightarrow> f = Some j) \<and>
     (free = None \<longrightarrow> (case f of None \<Rightarrow> live_slots ds = ds
        | Some k \<Rightarrow> \<exists>xs d ys. ds = xs @ d # ys \<and> k = i + length xs \<and> cd_expiry d = 0))"
proof (induction ds arbitrary: i free)
  case (Cons d ds)
  show ?case
  proof (cases "cd_expiry d = 0")
    case True
    then show ?thesis
      using Cons.prems Cons.IH [of "i + 1"] by (fastforce split: option.splits intro: exI [of _ "[]"])
  next
    case False
    then have "set_scan ip (i + 1) free ds = Inr f" "cd_ip d \<noteq> ip" using Cons.prems by (auto split: if_splits)
    note IH = Cons.IH [OF this(1)] and ne = this(2)
    show ?thesis
    proof (cases f)
      case None
      then show ?thesis using IH ne False by auto
    next
      case (Some k)
      have "\<exists>xs e ys. d # ds = xs @ e # ys \<and> k = i + length xs \<and> cd_expiry e = 0" if "free = None"
      proof -
        from IH that Some obtain xs e ys where "ds = xs @ e # ys" "k = i + 1 + length xs" "cd_expiry e = 0" by auto
        then show ?thesis by (intro exI [of _ "d # xs"]) auto
      qed
      then show ?thesis using IH ne False Some by auto
    qed
  qed
qed (auto split: option.splits)

lemma map_of_insert_mid:
  assumes "k \<notin> fst ` set xs"
  shows "map_of (xs @ (k, v) # ys) = (map_of (xs @ ys))(k \<mapsto> v)"
proof -
  have "map_of xs k = None" using assms by (simp add: map_of_eq_None_iff)
  then show ?thesis by (auto simp: fun_eq_iff map_add_def split: option.splits)
qed

lemma upsert_fields [simp]:
  "sc_lcf (sentinel_cssink_set_upsert ip e sc) = sc_lcf sc" "sc_ring (sentinel_cssink_set_upsert ip e sc) = sc_ring sc"
  "sc_owner (sentinel_cssink_set_upsert ip e sc) = sc_owner sc"
  "length (sc_set (sentinel_cssink_set_upsert ip e sc)) = length (sc_set sc)"
  by (auto simp: sentinel_cssink_set_upsert_def split: sum.split option.split)

lemma upsert_map:
  assumes inv: "sink_inv sc" and e: "e \<noteq> 0"
    and room: "ip \<in> dom (sink_map sc) \<or> length (live_slots (sc_set sc)) < length (sc_set sc)"
  shows "sink_inv (sentinel_cssink_set_upsert ip e sc) \<and>
    sink_map (sentinel_cssink_set_upsert ip e sc) = (sink_map sc)(ip \<mapsto> e)"
proof (cases "set_scan ip 0 None (sc_set sc)")
  case (Inl k)
  from set_scan_Inl [OF this] obtain xs d ys where
    d: "sc_set sc = xs @ d # ys" "k = length xs" "cd_expiry d \<noteq> 0" "cd_ip d = ip" by auto
  have s: "sc_set (sentinel_cssink_set_upsert ip e sc) = xs @ d\<lparr>cd_expiry := e\<rparr> # ys"
    "sc_set_count (sentinel_cssink_set_upsert ip e sc) = sc_set_count sc"
    unfolding sentinel_cssink_set_upsert_def Inl by (simp_all add: d nth_append)
  have "ip \<notin> fst ` set (map slot_pair (live_slots xs))" using inv d by (force simp: sink_inv_def)
  note m = map_of_insert_mid [OF this]
  have "sink_inv (sentinel_cssink_set_upsert ip e sc)" using inv e d by (simp add: sink_inv_def s)
  moreover have "sink_map sc = (map_of (map slot_pair (live_slots xs) @ map slot_pair (live_slots ys)))(ip \<mapsto> cd_expiry d)"
    using d(3,4) m by (simp add: sink_map_def d(1) del: map_of_append)
  moreover have "sink_map (sentinel_cssink_set_upsert ip e sc) =
      (map_of (map slot_pair (live_slots xs) @ map slot_pair (live_slots ys)))(ip \<mapsto> e)"
    using e d(4) m by (simp add: sink_map_def s del: map_of_append)
  ultimately show ?thesis by simp
next
  case (Inr f)
  note scan = set_scan_Inr [OF this]
  have "ip \<notin> dom (sink_map sc)" using scan by (auto simp: sink_map_def dom_map_of_conv_image_fst)
  then have "length (live_slots (sc_set sc)) < length (sc_set sc)" using room by blast
  then obtain k where k: "f = Some k" using scan by (cases f) auto
  then obtain xs d ys where d: "sc_set sc = xs @ d # ys" "k = length xs" "cd_expiry d = 0" using scan by auto
  have s: "sc_set (sentinel_cssink_set_upsert ip e sc) = xs @ \<lparr>cd_ip = ip, cd_expiry = e\<rparr> # ys"
    "sc_set_count (sentinel_cssink_set_upsert ip e sc) = sc_set_count sc + 1"
    unfolding sentinel_cssink_set_upsert_def Inr k by (simp_all add: d)
  have new: "ip \<notin> cd_ip ` set (live_slots xs)" "ip \<notin> cd_ip ` set (live_slots ys)" using scan d by auto
  then have "ip \<notin> fst ` set (map slot_pair (live_slots xs))" by force
  note m = map_of_insert_mid [OF this]
  show ?thesis
    using inv e d new m by (simp add: sink_inv_def sink_map_def s del: map_of_append)
qed

lemma live_card: "sink_inv sc \<Longrightarrow> length (live_slots (sc_set sc)) = card (dom (sink_map sc))"
  using distinct_card [of "map cd_ip (live_slots (sc_set sc))"]
  by (simp add: sink_inv_def sink_map_def dom_map_of_conv_image_fst image_image)

text \<open>One drained entry, and a whole drain.\<close>

definition sink_accepts :: "nat \<Rightarrow> int \<Rightarrow> ngx_sentinel_redis_push \<Rightarrow> bool" where
  "sink_accepts strlen now e \<longleftrightarrow> push_ip e \<noteq> [] \<and> length (push_ip e) < strlen \<and> now < push_expiry e"

definition sink_absorb :: "nat \<Rightarrow> int \<Rightarrow> ngx_sentinel_redis_push \<Rightarrow> sentinel_cssink_ctx \<Rightarrow> sentinel_cssink_ctx" where
  "sink_absorb strlen now e sc =
     (if sink_accepts strlen now e then sentinel_cssink_set_upsert (push_ip e) (push_expiry e) sc else sc)"

lemma drain_is_fold:
  "ring_inv NGX_SENTINEL_CSSINK_RING ring \<Longrightarrow>
     drained + length (sink_entries ring) \<le> NGX_SENTINEL_CSSINK_RING \<Longrightarrow>
     \<exists>ring'. drain_loop strlen now drained ring sc = (ring', fold (sink_absorb strlen now) (sink_entries ring) sc) \<and>
       ring_inv NGX_SENTINEL_CSSINK_RING ring' \<and> sink_entries ring' = []"
proof (induction strlen now drained ring sc rule: drain_loop.induct)
  case (1 strlen now drained ring sc)
  show ?case
  proof (cases "cssink_take ring")
    case None
    then have "sink_entries ring = []" using sink_ring.take_none by blast
    then show ?thesis using None "1.prems" by (simp add: drain_loop.simps [of strlen])
  next
    case (Some x)
    obtain e ring' where x: "x = (e, ring')" by (cases x)
    note t = Some [unfolded x]
    have e: "ring_inv NGX_SENTINEL_CSSINK_RING ring'" "sink_entries ring = e # sink_entries ring'"
      using sink_ring.take_some [OF "1.prems"(1) t] by auto
    have absorb: "(if 0 < length (push_ip e) \<and> length (push_ip e) < strlen \<and> now < push_expiry e
        then sentinel_cssink_set_upsert (push_ip e) (push_expiry e) sc else sc) = sink_absorb strlen now e sc"
      by (simp add: sink_absorb_def sink_accepts_def)
    have s: "drain_loop strlen now drained ring sc =
        (if drained + 1 \<ge> NGX_SENTINEL_CSSINK_RING then (ring', sink_absorb strlen now e sc)
         else drain_loop strlen now (drained + 1) ring' (sink_absorb strlen now e sc))"
      by (subst drain_loop.simps) (simp only: t Let_def absorb option.simps prod.simps)
    show ?thesis
    proof (cases "drained + 1 \<ge> NGX_SENTINEL_CSSINK_RING")
      case True
      have "length (sink_entries ring') = 0" using True "1.prems"(2) unfolding e(2) by simp
      then have "sink_entries ring' = []" by (simp only: length_0_conv)
      then show ?thesis using True e by (simp add: s)
    next
      case False
      have "\<exists>ring''. drain_loop strlen now (drained + 1) ring' (sink_absorb strlen now e sc) =
          (ring'', fold (sink_absorb strlen now) (sink_entries ring') (sink_absorb strlen now e sc)) \<and>
          ring_inv NGX_SENTINEL_CSSINK_RING ring'' \<and> sink_entries ring'' = []"
        by (rule "1.IH" [OF t refl refl, unfolded absorb, OF False e(1)]) (use "1.prems"(2) e(2) in simp)
      then show ?thesis using False e(2) by (simp add: s)
    qed
  qed
qed

lemma absorb_all:
  assumes "0 \<le> now"
  shows "sink_inv sc \<Longrightarrow>
     card (dom (sink_map sc) \<union> push_ip ` set (filter (sink_accepts strlen now) es)) \<le> length (sc_set sc) \<Longrightarrow>
     sink_inv (fold (sink_absorb strlen now) es sc) \<and>
     sink_map (fold (sink_absorb strlen now) es sc) =
       sink_map sc ++ map_of (rev (map (\<lambda>e. (push_ip e, push_expiry e)) (filter (sink_accepts strlen now) es)))"
proof (induction es arbitrary: sc)
  case (Cons e es)
  show ?case
  proof (cases "sink_accepts strlen now e")
    case False
    then show ?thesis using Cons by (simp add: sink_absorb_def)
  next
    case True
    let ?ip = "push_ip e" and ?D = "dom (sink_map sc)" and ?I = "push_ip ` set (filter (sink_accepts strlen now) es)"
    let ?sc = "sentinel_cssink_set_upsert ?ip (push_expiry e) sc"
    have fin: "finite ?D" by (simp add: sink_map_def finite_dom_map_of)
    have room: "card (insert ?ip ?D \<union> ?I) \<le> length (sc_set sc)" using Cons.prems(2) True by (simp add: Un_left_commute)
    have "card (insert ?ip ?D) \<le> card (insert ?ip ?D \<union> ?I)" using fin by (intro card_mono) auto
    then have "?ip \<in> ?D \<or> length (live_slots (sc_set sc)) < length (sc_set sc)"
      using room live_card [OF Cons.prems(1)] fin by (auto simp: card_insert_if split: if_splits)
    from upsert_map [OF Cons.prems(1) _ this, of "push_expiry e"] have u:
      "sink_inv ?sc" "sink_map ?sc = (sink_map sc)(?ip \<mapsto> push_expiry e)"
      using True assms by (auto simp: sink_accepts_def)
    have "card (dom (sink_map ?sc) \<union> ?I) \<le> length (sc_set ?sc)" using room by (simp add: u(2))
    note IH = Cons.IH [OF u(1) this]
    have "(sink_map sc)(?ip \<mapsto> push_expiry e) ++ map_of xs = sink_map sc ++ map_of (xs @ [(?ip, push_expiry e)])" for xs
      by (simp add: fun_eq_iff map_add_def split: option.split)
    moreover have "sink_absorb strlen now e sc = ?sc" using True by (simp add: sink_absorb_def)
    ultimately show ?thesis using IH True unfolding u(2) by (simp del: fun_upd_apply map_of_append)
  qed
qed simp

lemma absorb_fields [simp]:
  "sc_lcf (fold (sink_absorb strlen now) es sc) = sc_lcf sc" "sc_ring (fold (sink_absorb strlen now) es sc) = sc_ring sc"
  by (induction es arbitrary: sc) (simp_all add: sink_absorb_def)

lemma expire_loop_spec:
  "0 \<le> now \<Longrightarrow> length (live_slots ds) \<le> cnt \<Longrightarrow> expire_loop now ds cnt = (ds', c) \<Longrightarrow>
     live_slots ds' = filter (\<lambda>d. now < cd_expiry d) (live_slots ds) \<and>
     c + length (live_slots ds) = cnt + length (live_slots ds')"
proof (induction ds arbitrary: cnt ds' c)
  case (Cons d ds)
  show ?case
  proof (cases "cd_expiry d \<noteq> 0 \<and> cd_expiry d \<le> now")
    case True
    then obtain es where "expire_loop now ds (cnt - 1) = (es, c)" "ds' = d\<lparr>cd_expiry := 0\<rparr> # es"
      using Cons.prems by (auto split: prod.splits if_splits)
    then show ?thesis using Cons.IH [of "cnt - 1" es c] Cons.prems True by auto
  next
    case False
    then obtain es where "expire_loop now ds cnt = (es, c)" "ds' = d # es"
      using Cons.prems by (auto split: prod.splits if_splits)
    then show ?thesis using Cons.IH [of cnt es c] Cons.prems False by (auto split: if_splits)
  qed
qed simp

lemma map_of_filter_distinct:
  "distinct (map fst xs) \<Longrightarrow>
     map_of (filter (P \<circ> snd) xs) = (\<lambda>k. Option.bind (map_of xs k) (\<lambda>v. if P v then Some v else None))"
proof (induction xs)
  case (Cons x xs)
  obtain a b where x: "x = (a, b)" by (cases x)
  then have "map_of xs a = None" using Cons.prems by (auto simp: map_of_eq_None_iff)
  then show ?case using Cons x by (auto simp: fun_eq_iff)
qed (simp add: fun_eq_iff)

text \<open>What has not expired at a time.\<close>

definition unexpired :: "int \<Rightarrow> (string \<Rightarrow> int option) \<Rightarrow> string \<Rightarrow> int option" where
  "unexpired now m = (\<lambda>ip. Option.bind (m ip) (\<lambda>e. if now < e then Some e else None))"

lemma expire_map:
  assumes "sink_inv sc" "0 \<le> now"
  shows "sink_inv (sentinel_cssink_set_expire now sc)"
    "sink_map (sentinel_cssink_set_expire now sc) = unexpired now (sink_map sc)"
    "sc_lcf (sentinel_cssink_set_expire now sc) = sc_lcf sc"
proof -
  obtain ds c where e: "expire_loop now (sc_set sc) (sc_set_count sc) = (ds, c)" by fastforce
  have s: "sentinel_cssink_set_expire now sc = sc\<lparr>sc_set := ds, sc_set_count := c\<rparr>"
    by (simp add: sentinel_cssink_set_expire_def e)
  have d: "distinct (map cd_ip (live_slots (sc_set sc)))" "sc_set_count sc = length (live_slots (sc_set sc))"
    using assms(1) by (auto simp: sink_inv_def)
  have l: "live_slots ds = filter (\<lambda>d. now < cd_expiry d) (live_slots (sc_set sc))" "c = length (live_slots ds)"
    using expire_loop_spec [OF assms(2) _ e] d(2) by auto
  show "sink_inv (sentinel_cssink_set_expire now sc)" using d l by (simp add: sink_inv_def s distinct_map_filter)
  have "map slot_pair (live_slots ds) = filter ((\<lambda>e. now < e) \<circ> snd) (map slot_pair (live_slots (sc_set sc)))"
    by (simp add: l(1) filter_map comp_def)
  then show "sink_map (sentinel_cssink_set_expire now sc) = unexpired now (sink_map sc)"
    using map_of_filter_distinct [of "map slot_pair (live_slots (sc_set sc))" "\<lambda>e. now < e"] d(1)
    by (simp add: sink_map_def s unexpired_def comp_def)
  show "sc_lcf (sentinel_cssink_set_expire now sc) = sc_lcf sc" by (simp add: s)
qed

subsection \<open>What is written\<close>

definition decision_lines :: "ngx_api \<Rightarrow> nat \<Rightarrow> string \<Rightarrow> int \<Rightarrow> (string \<times> int) list \<Rightarrow> string" where
  "decision_lines ngx strlen scenario now L =
     concat (map (\<lambda>(ip, e). sentinel_cssink_format_decision ngx strlen (strlen + 160) ip scenario (e - now)) L)"

definition live_list :: "int \<Rightarrow> sentinel_cssink_decision list \<Rightarrow> (string \<times> int) list" where
  "live_list now ds = map slot_pair (filter (\<lambda>d. now < cd_expiry d) (live_slots ds))"

lemma write_loop_out:
  "write_loop ngx io strlen scenario now ds k out = (out', True) \<Longrightarrow>
     out' = out @ decision_lines ngx strlen scenario now (live_list now ds)"
proof (induction ds arbitrary: k out)
  case Nil
  then show ?case by (simp add: decision_lines_def live_list_def)
next
  case (Cons d ds)
  then show ?case
    by (force simp: decision_lines_def live_list_def Let_def split: if_splits option.splits)
qed

definition sink_io_ok :: "sink_io \<Rightarrow> bool" where
  "sink_io_ok io \<longleftrightarrow>
     io_alloc io \<and> io_open io \<and> (\<forall>k line. io_write io k line = Some (length line)) \<and> io_close io \<and> io_rename io"

lemma write_loop_ok:
  "sink_io_ok io \<Longrightarrow> snd (write_loop ngx io strlen scenario now ds k out)"
  by (induction ds arbitrary: k out) (auto simp: sink_io_ok_def Let_def)

definition sink_file :: "ngx_api \<Rightarrow> nat \<Rightarrow> int \<Rightarrow> sentinel_cssink_ctx \<Rightarrow> string" where
  "sink_file ngx strlen now sc =
     decision_lines ngx strlen (str_of (lcf_cs_sink_scenario (sc_lcf sc))) now (live_list now (sc_set sc))"

lemma rewrite_file:
  shows "sentinel_cssink_rewrite ngx io strlen sc now fs (lcf_cs_sink_path (sc_lcf sc)) \<in>
      {fs (lcf_cs_sink_path (sc_lcf sc)), Some (sink_file ngx strlen now sc)}"
    and "sink_io_ok io \<Longrightarrow> sentinel_cssink_rewrite ngx io strlen sc now fs (lcf_cs_sink_path (sc_lcf sc)) = Some (sink_file ngx strlen now sc)"
    and "name \<noteq> lcf_cs_sink_path (sc_lcf sc) \<Longrightarrow> name \<noteq> lcf_cs_sink_path (sc_lcf sc) @ ''.tmp'' \<Longrightarrow>
      sentinel_cssink_rewrite ngx io strlen sc now fs name = fs name"
proof -
  let ?scen = "str_of (lcf_cs_sink_scenario (sc_lcf sc))"
  obtain out ok where w: "write_loop ngx io strlen ?scen now (sc_set sc) 0 [] = (out, ok)" by fastforce
  have out: "ok \<Longrightarrow> out = sink_file ngx strlen now sc" using write_loop_out [of ngx io strlen ?scen now "sc_set sc" 0 "[]" out] w
    by (simp add: sink_file_def)
  show "sentinel_cssink_rewrite ngx io strlen sc now fs (lcf_cs_sink_path (sc_lcf sc)) \<in>
      {fs (lcf_cs_sink_path (sc_lcf sc)), Some (sink_file ngx strlen now sc)}"
    using out by (auto simp: sentinel_cssink_rewrite_def w Let_def delete_file_def)
  show "sink_io_ok io \<Longrightarrow> sentinel_cssink_rewrite ngx io strlen sc now fs (lcf_cs_sink_path (sc_lcf sc)) = Some (sink_file ngx strlen now sc)"
    using out write_loop_ok [of io ngx strlen ?scen now "sc_set sc" 0 "[]"] w
    by (auto simp: sentinel_cssink_rewrite_def Let_def sink_io_ok_def)
  show "name \<noteq> lcf_cs_sink_path (sc_lcf sc) \<Longrightarrow> name \<noteq> lcf_cs_sink_path (sc_lcf sc) @ ''.tmp'' \<Longrightarrow>
      sentinel_cssink_rewrite ngx io strlen sc now fs name = fs name"
    by (auto simp: sentinel_cssink_rewrite_def w Let_def delete_file_def)
qed

lemma owner_tick:
  assumes own: "sc_owner sc" and ring: "rings (sc_ring sc) = Some ring" "ring_inv NGX_SENTINEL_CSSINK_RING ring"
  shows "\<exists>ring'. sentinel_cssink_timer_handler ngx io strlen False now sc rings fs =
       (let sc1 = sentinel_cssink_set_expire now (fold (sink_absorb strlen now) (sink_entries ring) sc)
        in (sink_rearm sc1, rings(sc_ring sc \<mapsto> ring'), sentinel_cssink_rewrite ngx io strlen sc1 now fs)) \<and>
     sink_entries ring' = []"
proof -
  have "0 + length (sink_entries ring) \<le> NGX_SENTINEL_CSSINK_RING" using sink_ring.bounded [OF ring(2)] by simp
  from drain_is_fold [OF ring(2) this] obtain ring' where
    "drain_loop strlen now 0 ring sc = (ring', fold (sink_absorb strlen now) (sink_entries ring) sc)"
    "sink_entries ring' = []" by blast
  then show ?thesis using own ring(1) by (auto simp: sentinel_cssink_timer_handler_def Let_def)
qed

lemma rearm_fields [simp]: "sink_inv (sink_rearm sc) = sink_inv sc" "sink_map (sink_rearm sc) = sink_map sc"
  by (simp_all add: sink_rearm_def sink_inv_def sink_map_def)

lemma live_list_map:
  assumes "sink_inv sc" "\<forall>d \<in> set (live_slots (sc_set sc)). now < cd_expiry d"
  shows "distinct (map fst (live_list now (sc_set sc)))" "map_of (live_list now (sc_set sc)) = sink_map sc"
proof -
  have "live_list now (sc_set sc) = map slot_pair (live_slots (sc_set sc))"
    using assms(2) by (simp add: live_list_def)
  then show "distinct (map fst (live_list now (sc_set sc)))" "map_of (live_list now (sc_set sc)) = sink_map sc"
    using assms(1) by (simp_all add: sink_inv_def sink_map_def comp_def)
qed

lemma expire_leaves_live:
  assumes "sink_inv sc" "0 \<le> now"
  shows "\<forall>d \<in> set (live_slots (sc_set (sentinel_cssink_set_expire now sc))). now < cd_expiry d"
proof -
  obtain ds c where e: "expire_loop now (sc_set sc) (sc_set_count sc) = (ds, c)" by fastforce
  have "sc_set (sentinel_cssink_set_expire now sc) = ds" by (simp add: sentinel_cssink_set_expire_def e)
  then show ?thesis using expire_loop_spec [OF assms(2) _ e] assms(1) by (simp add: sink_inv_def)
qed

lemma drain_lcf: "drain_loop strlen now drained ring sc = (ring', sc') \<Longrightarrow> sc_lcf sc' = sc_lcf sc"
proof (induction strlen now drained ring sc rule: drain_loop.induct)
  case (1 strlen now drained ring sc)
  show ?case
  proof (cases "cssink_take ring")
    case None
    then show ?thesis using "1.prems" by (subst (asm) drain_loop.simps) simp
  next
    case (Some x)
    obtain e r where x: "x = (e, r)" by (cases x)
    let ?s = "if length (push_ip e) > 0 \<and> length (push_ip e) < strlen \<and> push_expiry e > now
      then sentinel_cssink_set_upsert (push_ip e) (push_expiry e) sc else sc"
    have "sc' = ?s \<or> \<not> drained + 1 \<ge> NGX_SENTINEL_CSSINK_RING \<and> drain_loop strlen now (drained + 1) r ?s = (ring', sc')"
      using "1.prems" by (subst (asm) drain_loop.simps) (auto simp: Some x Let_def split: if_splits)
    then show ?thesis using "1.IH" [OF Some [unfolded x] refl refl] by auto
  qed
qed

lemma expire_lcf [simp]: "sc_lcf (sentinel_cssink_set_expire now sc) = sc_lcf sc"
  by (simp add: sentinel_cssink_set_expire_def split: prod.split)

lemma init_sink_inv:
  "sentinel_cssink_init_process servers worker alloc_ctx alloc_set rings = Some sc \<Longrightarrow> sink_inv sc"
  by (auto simp: sentinel_cssink_init_process_def sink_inv_def live_slots_def split: option.splits if_splits)

subsection \<open>A sample sink\<close>

definition sample_sink :: sentinel_cssink_ctx where
  "sample_sink = \<lparr>sc_lcf = default_loc_conf\<lparr>lcf_cs_sink_path := ''/s'', lcf_cs_sink_zone := Some ''s''\<rparr>, sc_ring = ''s'',
     sc_owner = True, sc_set = [\<lparr>cd_ip = ''192.0.2.7'', cd_expiry = 3\<rparr>, \<lparr>cd_ip = [], cd_expiry = 0\<rparr>],
     sc_set_count = 1, sc_timer = None\<rparr>"

definition sample_entry :: ngx_sentinel_redis_push where
  "sample_entry = \<lparr>push_ip = ''192.0.2.1'', push_action = CS_BAN, push_expiry = 9\<rparr>"

definition sample_sink_ring :: ngx_sentinel_ring where
  "sample_sink_ring = cssink_put sample_entry (ring_zero NGX_SENTINEL_CSSINK_RING)"

definition good_io :: sink_io where
  "good_io = \<lparr>io_alloc = True, io_open = True, io_write = (\<lambda>k line. Some (length line)), io_close = True,
     io_rename = True, io_delete = True\<rparr>"

lemma sample_sink_simps [simp]:
  "sc_owner sample_sink" "sink_inv sample_sink" "sc_ring sample_sink = ''s''" "length (sc_set sample_sink) = 2"
  "sink_map sample_sink = [''192.0.2.7'' \<mapsto> 3]" "sink_io_ok good_io"
  by (simp_all add: sample_sink_def sink_inv_def sink_map_def sink_io_ok_def good_io_def)

lemma sample_sink_ring_ok:
  "ring_inv NGX_SENTINEL_CSSINK_RING sample_sink_ring" "sink_entries sample_sink_ring = [sample_entry]"
  using sink_ring.put_all [OF ring_zero_inv(1), of "[sample_entry]"]
  by (simp_all add: sample_sink_ring_def NGX_SENTINEL_CSSINK_RING_def)

subsection \<open>Properties\<close>



text \<open>
  Claim C31: the decisions file is never seen half written. Whatever fails (memory, open, a short or
  failed write, close, rename, delete), after a tick the file is as it was or complete, and no
  file but it and its temporary sibling is touched; only worker 0 touches any.
\<close>

theorem sink_file_is_replaced_as_a_whole:
  assumes "sentinel_cssink_timer_handler ngx io strlen exiting now sc rings fs = (sc', rings', fs')"
  shows "fs' (lcf_cs_sink_path (sc_lcf sc)) \<in> {fs (lcf_cs_sink_path (sc_lcf sc)),
      Some (sink_file ngx strlen now sc')} \<and>
    (name \<notin> {lcf_cs_sink_path (sc_lcf sc), lcf_cs_sink_path (sc_lcf sc) @ ''.tmp''} \<longrightarrow> fs' name = fs name) \<and>
    (\<not> sc_owner sc \<longrightarrow> fs' = fs \<and> rings' = rings)"
proof -
  have "fs' = fs \<and> rings' = rings \<or>
      sc_owner sc \<and> (\<exists>sc1. sc_lcf sc1 = sc_lcf sc \<and> sc' = sink_rearm sc1 \<and> fs' = sentinel_cssink_rewrite ngx io strlen sc1 now fs)"
    using assms drain_lcf
    by (fastforce simp: sentinel_cssink_timer_handler_def Let_def split: if_splits option.splits prod.splits)
  then show ?thesis
  proof
    assume "sc_owner sc \<and> (\<exists>sc1. sc_lcf sc1 = sc_lcf sc \<and> sc' = sink_rearm sc1 \<and> fs' = sentinel_cssink_rewrite ngx io strlen sc1 now fs)"
    then obtain sc1 where o: "sc_owner sc" and l: "sc_lcf sc1 = sc_lcf sc" and s: "sc' = sink_rearm sc1"
      and f: "fs' = sentinel_cssink_rewrite ngx io strlen sc1 now fs" by blast
    have "sink_file ngx strlen now sc' = sink_file ngx strlen now sc1" by (simp add: s sink_rearm_def sink_file_def)
    then show ?thesis using rewrite_file(1,3) [where sc = sc1 and ngx = ngx and io = io and strlen = strlen and now = now and fs = fs] o l f by auto
  qed auto
qed

theorem sink_file_is_replaced_as_a_whole_witness:
  "\<exists>sc' rings' fs'. sentinel_cssink_timer_handler feed_shim (good_io\<lparr>io_rename := False\<rparr>) 46 False 5 sample_sink
      [''s'' \<mapsto> sample_sink_ring] [''/s'' \<mapsto> ''old''] = (sc', rings', fs') \<and>
    fs' ''/s'' \<in> {Some ''old'', Some (sink_file feed_shim 46 5 sc')}"
proof -
  obtain sc' rings' fs' where t: "sentinel_cssink_timer_handler feed_shim (good_io\<lparr>io_rename := False\<rparr>) 46 False 5 sample_sink
      [''s'' \<mapsto> sample_sink_ring] [''/s'' \<mapsto> ''old''] = (sc', rings', fs')" using prod_cases3 by blast
  have "lcf_cs_sink_path (sc_lcf sample_sink) = ''/s''" by (simp add: sample_sink_def)
  then show ?thesis using sink_file_is_replaced_as_a_whole [OF t, of "''x''"] t by auto
qed

text \<open>
  A comment at the failed allocation of the set says that enqueuing still works; but the sink has
  then no context, and every later ban is ignored.
\<close>

lemma failed_set_disables_enqueue:
  "sentinel_cssink_enqueue_ban strlen
     (sentinel_cssink_init_process servers 0 alloc_ctx False rings0) lcf ip act expiry rings = rings"
  by (simp add: sentinel_cssink_init_process_def sentinel_cssink_enqueue_ban_def split: option.split)

end
