(* ===== verification/Sentinel_Ja4h.thy ===== *)
theory Sentinel_Ja4h
  imports Sentinel_Signals "HOL-Library.Multiset"
begin

text \<open>
  \<^verbatim>\<open>src/sentinel_ja4h.c\<close>: the JA4H fingerprint. The canonical string is built in a fixed buffer
  of 4096 bytes; here the buffer is the string written so far, and an append that the macro
  \<open>CANAPPEND_STR\<close> would send to \<open>overflow\<close> is \<open>None\<close>. The lemmas show that the string always fits
  with its terminator, that the result is 24 lowercase hex digits, and that it depends neither
  on the order of the headers nor on the case of their names.
\<close>

definition NGX_SENTINEL_JA4H_MAX_HDRS :: nat where "NGX_SENTINEL_JA4H_MAX_HDRS = 64"
definition NGX_SENTINEL_JA4H_CANLEN :: nat where "NGX_SENTINEL_JA4H_CANLEN = 4096"
definition NGX_SENTINEL_JA4H_BIN_LEN :: nat where "NGX_SENTINEL_JA4H_BIN_LEN = 12"
definition NGX_SENTINEL_JA4H_HEX_LEN :: nat where "NGX_SENTINEL_JA4H_HEX_LEN = 24"

definition ja4h_skip_names :: "string list" where
  "ja4h_skip_names = [''cookie'', ''referer'']"

fun ja4h_skip_loop :: "ngx_api \<Rightarrow> string \<Rightarrow> string list \<Rightarrow> bool" where
  "ja4h_skip_loop ngx name [] = False"
| "ja4h_skip_loop ngx name (s # ss) =
     (if length name = length s \<and> strncasecmp ngx name s (length s) = 0 then True
      else ja4h_skip_loop ngx name ss)"

definition ja4h_header_skip :: "ngx_api \<Rightarrow> string \<Rightarrow> bool" where
  "ja4h_header_skip ngx name = ja4h_skip_loop ngx name ja4h_skip_names"

definition ja4h_strcmp :: "ngx_api \<Rightarrow> string \<Rightarrow> string \<Rightarrow> int" where
  "ja4h_strcmp ngx sa sb =
     (let min_len = (if length sa < length sb then length sa else length sb);
          rc = strncasecmp ngx sa sb min_len
      in if rc \<noteq> 0 then rc else int (length sa) - int (length sb))"

fun ja4h_method :: "http_method \<Rightarrow> string" where
  "ja4h_method HTTP_GET = ''ge''"
| "ja4h_method HTTP_POST = ''po''"
| "ja4h_method HTTP_PUT = ''pu''"
| "ja4h_method HTTP_DELETE = ''de''"
| "ja4h_method HTTP_HEAD = ''he''"
| "ja4h_method HTTP_OPTIONS = ''op''"
| "ja4h_method HTTP_PATCH = ''pa''"
| "ja4h_method HTTP_OTHER = ''xx''"

definition ja4h_version :: "nat \<Rightarrow> string" where
  "ja4h_version v =
     (if v \<ge> NGX_HTTP_VERSION_20 then ''20'' else if v \<ge> NGX_HTTP_VERSION_11 then ''11'' else ''10'')"

text \<open>The test of the walk for one header name.\<close>

definition ja4h_is :: "ngx_api \<Rightarrow> string \<Rightarrow> string \<Rightarrow> bool" where
  "ja4h_is ngx name key =
     (length key = length name \<and> strncasecmp ngx key name (length name) = 0)"

text \<open>One step of the header walk on \<open>has_cookie\<close>, \<open>has_referer\<close> and the collected names.\<close>

definition ja4h_walk_step :: "ngx_api \<Rightarrow> ngx_table_elt \<Rightarrow> bool \<times> bool \<times> string list \<Rightarrow>
    bool \<times> bool \<times> string list" where
  "ja4h_walk_step ngx h st =
     (case st of (has_cookie, has_referer, names) \<Rightarrow>
      if hdr_hash h = 0 then st
      else
        let key = hdr_key h;
            is_cookie = ja4h_is ngx ''Cookie'' key;
            is_referer = ja4h_is ngx ''Referer'' key;
            names' = (if \<not> ja4h_header_skip ngx key \<and> length names < NGX_SENTINEL_JA4H_MAX_HDRS
                      then names @ [key] else names)
        in (has_cookie \<or> is_cookie, has_referer \<or> \<not> is_cookie \<and> is_referer, names'))"

definition ja4h_walk :: "ngx_api \<Rightarrow> ngx_table_elt list \<Rightarrow> bool \<times> bool \<times> string list" where
  "ja4h_walk ngx hs = fold (ja4h_walk_step ngx) hs (False, False, [])"

text \<open>The first tag of Accept-Language: the scan to a separator, then the cap of 32 bytes.\<close>

fun ja4h_lang_scan :: "string \<Rightarrow> nat" where
  "ja4h_lang_scan [] = 0"
| "ja4h_lang_scan (c # av) =
     (if c \<noteq> CHR '','' \<and> c \<noteq> CHR '';'' \<and> c \<noteq> CHR '' '' then Suc (ja4h_lang_scan av) else 0)"

definition ja4h_lang :: "string option \<Rightarrow> string" where
  "ja4h_lang al =
     (case al of
        None \<Rightarrow> []
      | Some av \<Rightarrow>
          let j = ja4h_lang_scan av; lang_len = (if j > 32 then 32 else j) in take lang_len av)"

text \<open>\<open>CANAPPEND_STR\<close>, the unchecked stores \<open>*p++\<close>, and the loop over the sorted names.\<close>

definition canappend :: "string \<Rightarrow> string option \<Rightarrow> string option" where
  "canappend s p =
     (case p of
        None \<Rightarrow> None
      | Some c \<Rightarrow>
          if length c + length s \<ge> NGX_SENTINEL_JA4H_CANLEN - 1 then None else Some (c @ s))"

definition canput :: "string \<Rightarrow> string option \<Rightarrow> string option" where
  "canput s p = map_option (\<lambda>c. c @ s) p"

fun canappend_names :: "ngx_api \<Rightarrow> nat \<Rightarrow> string list \<Rightarrow> string option \<Rightarrow> string option" where
  "canappend_names ngx i [] p = p"
| "canappend_names ngx i (n # ns) p =
     (let p = (if i > 0 then canappend '','' p else p)
      in canappend_names ngx (Suc i) ns (canappend (map (ngx_tolower ngx) n) p))"

definition ja4h_digit :: "nat \<Rightarrow> char" where
  "ja4h_digit n = char_of (48 + n)"

definition ja4h_canonical :: "ngx_api \<Rightarrow> request \<Rightarrow> string option" where
  "ja4h_canonical ngx r =
     (case ja4h_walk ngx (r_headers r) of (has_cookie, has_referer, names) \<Rightarrow>
      let nhdr = length names;
          sorted = (if nhdr > 1 then qsort ngx (ja4h_strcmp ngx) names else names);
          lang = ja4h_lang (r_accept_language r);
          p = Some [];
          p = canappend (ja4h_method (r_method r)) p;
          p = canappend ''|'' p;
          p = canappend (ja4h_version (r_http_version r)) p;
          p = canappend ''|'' p;
          p = canput [ja4h_digit (if has_cookie then 1 else 0)] p;
          p = canput [ja4h_digit (if has_referer then 1 else 0)] p;
          p = canappend ''|'' p;
          cnt = (if nhdr > 99 then 99 else nhdr);
          p = canput [ja4h_digit (cnt div 10)] p;
          p = canput [ja4h_digit (cnt mod 10)] p;
          p = canappend ''|'' p;
          p = canappend_names ngx 0 sorted p;
          p = canappend ''|'' p
      in if length lang > 0 then canappend lang p else p)"

definition ja4h_hex :: "nat \<Rightarrow> char" where
  "ja4h_hex n = ''0123456789abcdef'' ! n"

text \<open>The two hex digits of one byte.\<close>

definition ja4h_hex_byte :: "char \<Rightarrow> string" where
  "ja4h_hex_byte c = (let b = of_char c :: nat in [ja4h_hex (b div 16 mod 16), ja4h_hex (b mod 16)])"

definition sentinel_ja4h_compute :: "ngx_api \<Rightarrow> request \<Rightarrow> string" where
  "sentinel_ja4h_compute ngx r =
     (case ja4h_canonical ngx r of
        None \<Rightarrow> replicate NGX_SENTINEL_JA4H_HEX_LEN CHR ''0''
      | Some canon \<Rightarrow>
          concat (map ja4h_hex_byte (take NGX_SENTINEL_JA4H_BIN_LEN (sha256 ngx canon))))"

subsection \<open>Bounds\<close>

lemma canappend_bound: "canappend s p = Some c \<Longrightarrow> length c < 4095"
  by (auto simp: canappend_def NGX_SENTINEL_JA4H_CANLEN_def split: option.splits if_splits)

lemma canappend_Some: "length c + length s < 4095 \<Longrightarrow> canappend s (Some c) = Some (c @ s)"
  by (simp add: canappend_def NGX_SENTINEL_JA4H_CANLEN_def)

lemma canonical_bound:
  assumes "ja4h_canonical ngx r = Some c"
  shows "length c < 4095"
  using assms canappend_bound
  by (auto simp: ja4h_canonical_def Let_def split: prod.splits if_splits)

lemma hex_digit_in: "n < 16 \<Longrightarrow> ja4h_hex n \<in> set ''0123456789abcdef''"
  unfolding ja4h_hex_def by (rule nth_mem) simp

lemma hex_byte: "length (ja4h_hex_byte c) = 2" "set (ja4h_hex_byte c) \<subseteq> set ''0123456789abcdef''"
  using hex_digit_in [of "of_char c div 16 mod 16"] hex_digit_in [of "of_char c mod 16"]
  by (simp_all only: ja4h_hex_byte_def Let_def list.set length_Cons list.size) auto

subsection \<open>Independence of order and case\<close>

lemma sorted_wrt_mset_unique:
  assumes antisym: "\<And>a b. R a b \<Longrightarrow> R b a \<Longrightarrow> a = b"
  shows "sorted_wrt R xs \<Longrightarrow> sorted_wrt R ys \<Longrightarrow> mset xs = mset ys \<Longrightarrow> xs = ys"
proof (induction xs arbitrary: ys)
  case (Cons x xs)
  then obtain y ys' where ys: "ys = y # ys'" by (cases ys) auto
  have "x = y"
  proof (rule ccontr)
    assume ne: "x \<noteq> y"
    have "x \<in> set ys'" "y \<in> set xs"
      using Cons.prems(3) ne ys by (metis list.set_intros(1) set_ConsD set_mset_mset)+
    then show False using Cons.prems ys antisym ne by auto
  qed
  then show ?case using Cons ys by auto
qed simp

abbreviation low :: "ngx_api \<Rightarrow> string \<Rightarrow> string" where
  "low ngx \<equiv> map (ngx_tolower ngx)"

lemma case_fold_low: "NUL \<notin> set s \<Longrightarrow> case_fold ngx n s = take n (low ngx s)"
proof -
  assume "NUL \<notin> set s"
  then have "\<forall>c \<in> set (take n s). c \<noteq> NUL" by (metis in_set_takeD)
  then have "takeWhile (\<lambda>c. c \<noteq> NUL) (take n s) = take n s" by simp
  then show ?thesis unfolding case_fold_def by (simp only: take_map)
qed

lemma memn2cmp_lawsD:
  assumes "memn2cmp_laws ngx"
  shows "memn2cmp ngx a b = 0 \<longleftrightarrow> a = b" "memn2cmp ngx a b < 0 \<longleftrightarrow> 0 < memn2cmp ngx b a"
    "memn2cmp ngx a b < 0 \<Longrightarrow> memn2cmp ngx b c < 0 \<Longrightarrow> memn2cmp ngx a c < 0"
  using assms by (auto simp: memn2cmp_laws_def)

lemma memn2cmp_le_trans:
  assumes "memn2cmp_laws ngx" "memn2cmp ngx a b \<le> 0" "memn2cmp ngx b c \<le> 0"
  shows "memn2cmp ngx a c \<le> 0"
  using assms(2,3) memn2cmp_lawsD [OF assms(1)] by (metis order_le_less)

lemma memn2cmp_le_antisym:
  assumes "memn2cmp_laws ngx" "memn2cmp ngx a b \<le> 0" "memn2cmp ngx b a \<le> 0"
  shows "a = b"
  using assms(2,3) memn2cmp_lawsD(1,2) [OF assms(1)] by (metis order_le_less not_le)

text \<open>The comparison of the sort is \<open>ngx_memn2cmp\<close> on the lowercased names.\<close>

lemma strcmp_sign:
  assumes laws: "case_laws ngx" "memn2cmp_laws ngx" "memn2cmp_lex ngx"
    and nul: "NUL \<notin> set a" "NUL \<notin> set b"
  shows "sgn (ja4h_strcmp ngx a b) = sgn (memn2cmp ngx (low ngx a) (low ngx b))"
proof -
  define m where "m = (if length a < length b then length a else length b)"
  define x where "x = take m (low ngx a)"
  define y where "y = take m (low ngx b)"
  have ab: "low ngx a = x @ drop m (low ngx a)" "low ngx b = y @ drop m (low ngx b)"
    by (simp_all add: x_def y_def)
  have len: "length x = length y" by (simp add: x_def y_def m_def)
  have rc: "sgn (strncasecmp ngx a b m) = sgn (memn2cmp ngx x y)"
    using laws(1) nul by (simp add: case_laws_def case_fold_low x_def y_def)
  show ?thesis
  proof (cases "x = y")
    case False
    then have ne: "memn2cmp ngx x y \<noteq> 0" by (simp add: memn2cmp_lawsD(1) [OF laws(2)])
    then have "strncasecmp ngx a b m \<noteq> 0" using rc by (metis sgn_0_0)
    moreover have "sgn (memn2cmp ngx (low ngx a) (low ngx b)) = sgn (memn2cmp ngx x y)"
      using laws(3) len ne ab unfolding memn2cmp_lex_def by metis
    ultimately show ?thesis using rc by (simp add: ja4h_strcmp_def Let_def m_def)
  next
    case True
    then have "strncasecmp ngx a b m = 0"
      using rc memn2cmp_lawsD(1) [OF laws(2)] by (metis sgn_0_0)
    then have c: "ja4h_strcmp ngx a b = int (length a) - int (length b)"
      by (simp add: ja4h_strcmp_def Let_def m_def)
    have lt: "memn2cmp ngx u (u @ v) < 0" if "v \<noteq> []" for u v
      using laws(3) that by (cases v) (auto simp: memn2cmp_lex_def)
    consider "length a < length b" | "length a = length b" | "length b < length a" by linarith
    then show ?thesis
    proof cases
      case 1
      then have "low ngx a = x" "drop m (low ngx b) \<noteq> []" by (auto simp: x_def m_def)
      then have "memn2cmp ngx (low ngx a) (low ngx b) < 0" using lt ab(2) True by metis
      then show ?thesis using 1 c by simp
    next
      case 2
      then have "low ngx a = low ngx b" using True by (simp add: x_def y_def m_def)
      then show ?thesis using 2 c memn2cmp_lawsD(1) [OF laws(2), of "low ngx b" "low ngx b"] by simp
    next
      case 3
      then have "low ngx b = y" "drop m (low ngx a) \<noteq> []" by (auto simp: y_def m_def)
      then have "memn2cmp ngx (low ngx b) (low ngx a) < 0" using lt ab(1) True by metis
      then show ?thesis using 3 c memn2cmp_lawsD(2) [OF laws(2)] by simp
    qed
  qed
qed

lemma strcmp_le:
  assumes "case_laws ngx" "memn2cmp_laws ngx" "memn2cmp_lex ngx" "NUL \<notin> set a" "NUL \<notin> set b"
  shows "ja4h_strcmp ngx a b \<le> 0 \<longleftrightarrow> memn2cmp ngx (low ngx a) (low ngx b) \<le> 0"
  using strcmp_sign [OF assms] by (auto simp: sgn_if split: if_splits)

lemma strcmp_preorder:
  assumes laws: "case_laws ngx" "memn2cmp_laws ngx" "memn2cmp_lex ngx"
    and nul: "\<forall>n \<in> A. NUL \<notin> set n"
  shows "total_preorder A (ja4h_strcmp ngx)"
  unfolding total_preorder_def
proof (intro conjI ballI impI)
  fix a b assume "a \<in> A" "b \<in> A"
  then have "NUL \<notin> set a" "NUL \<notin> set b" using nul by auto
  then show "ja4h_strcmp ngx a b \<le> 0 \<or> ja4h_strcmp ngx b a \<le> 0"
    using memn2cmp_lawsD(2) [OF laws(2)] by (metis strcmp_le [OF laws] linorder_not_le order_less_imp_le)
next
  fix a b c assume abc: "a \<in> A" "b \<in> A" "c \<in> A"
    and le: "ja4h_strcmp ngx a b \<le> 0" "ja4h_strcmp ngx b c \<le> 0"
  have "NUL \<notin> set a" "NUL \<notin> set b" "NUL \<notin> set c" using nul abc by auto
  then show "ja4h_strcmp ngx a c \<le> 0"
    using le memn2cmp_le_trans [OF laws(2)] by (metis strcmp_le [OF laws])
qed

definition sorted_names :: "ngx_api \<Rightarrow> string list \<Rightarrow> string list" where
  "sorted_names ngx names =
     (if length names > 1 then qsort ngx (ja4h_strcmp ngx) names else names)"

lemma low_sorted_names:
  assumes laws: "case_laws ngx" "memn2cmp_laws ngx" "memn2cmp_lex ngx" "qsort_law ngx"
    and nul: "\<forall>n \<in> set names. NUL \<notin> set n"
  shows "mset (map (low ngx) (sorted_names ngx names)) = mset (map (low ngx) names)"
    and "sorted_wrt (\<lambda>a b. memn2cmp ngx a b \<le> 0) (map (low ngx) (sorted_names ngx names))"
proof -
  have q: "count_list (qsort ngx (ja4h_strcmp ngx) names) = count_list names"
    "sorted_wrt (\<lambda>a b. ja4h_strcmp ngx a b \<le> 0) (qsort ngx (ja4h_strcmp ngx) names)"
    using laws(4) strcmp_preorder [OF laws(1-3) nul] by (auto simp: qsort_law_def)
  have m: "mset (sorted_names ngx names) = mset names"
    using q(1) by (simp add: sorted_names_def multiset_eq_iff count_mset)
  then show "mset (map (low ngx) (sorted_names ngx names)) = mset (map (low ngx) names)" by simp
  have "sorted_wrt (\<lambda>a b. ja4h_strcmp ngx a b \<le> 0) (sorted_names ngx names)"
    using q(2) by (auto simp: sorted_names_def) (cases names; simp)
  moreover have "NUL \<notin> set n" if "n \<in> set (sorted_names ngx names)" for n
    using nul that m by (metis set_mset_mset)
  ultimately show "sorted_wrt (\<lambda>a b. memn2cmp ngx a b \<le> 0) (map (low ngx) (sorted_names ngx names))"
    unfolding sorted_wrt_map
    using sorted_wrt_mono_rel [of "sorted_names ngx names" "\<lambda>a b. ja4h_strcmp ngx a b \<le> 0"
        "\<lambda>a b. memn2cmp ngx (low ngx a) (low ngx b) \<le> 0"]
    by (simp add: strcmp_le [OF laws(1-3)])
qed

subsection \<open>The header walk\<close>

lemma skip_loop_iff:
  "ja4h_skip_loop ngx name ss \<longleftrightarrow>
     (\<exists>s \<in> set ss. length name = length s \<and> strncasecmp ngx name s (length s) = 0)"
  by (induction ss) auto

lemma header_skip_iff:
  assumes "case_laws ngx" "memn2cmp_laws ngx"
  shows "ja4h_header_skip ngx name \<longleftrightarrow> low ngx name \<in> {low ngx ''cookie'', low ngx ''referer''}"
proof -
  have "NUL \<notin> set ''cookie''" "NUL \<notin> set ''referer''" by (simp_all add: NUL_def)
  then show ?thesis
    using strncasecmp_same_name [OF assms, of "''cookie''" name]
      strncasecmp_same_name [OF assms, of "''referer''" name]
    by (auto simp: ja4h_header_skip_def skip_loop_iff ja4h_skip_names_def same_name_def)
qed

text \<open>The lowercased names of the headers that are not deleted.\<close>

definition live_names :: "ngx_api \<Rightarrow> ngx_table_elt list \<Rightarrow> string list" where
  "live_names ngx hs = map (low ngx) (map hdr_key (filter (\<lambda>h. hdr_hash h \<noteq> 0) hs))"

definition listed :: "ngx_api \<Rightarrow> ngx_table_elt list \<Rightarrow> string list" where
  "listed ngx hs = filter (\<lambda>k. \<not> ja4h_header_skip ngx k) (map hdr_key (filter (\<lambda>h. hdr_hash h \<noteq> 0) hs))"

lemma take_take_append: "take n (take n xs @ ys) = take n (xs @ ys)"
  by (cases "length xs \<le> n") auto

lemma walk_fold:
  assumes laws: "case_laws ngx" "memn2cmp_laws ngx"
  shows "length ns \<le> 64 \<Longrightarrow> fold (ja4h_walk_step ngx) hs (c, f, ns) =
     (c \<or> low ngx ''Cookie'' \<in> set (live_names ngx hs),
      f \<or> low ngx ''Referer'' \<in> set (live_names ngx hs),
      take 64 (ns @ listed ngx hs))"
proof (induction hs arbitrary: c f ns)
  case (Cons h hs)
  have nul: "NUL \<notin> set ''Cookie''" "NUL \<notin> set ''Referer''" by (simp_all add: NUL_def)
  have ck: "ja4h_is ngx ''Cookie'' (hdr_key h) \<longleftrightarrow> low ngx (hdr_key h) = low ngx ''Cookie''"
    and rf: "ja4h_is ngx ''Referer'' (hdr_key h) \<longleftrightarrow> low ngx (hdr_key h) = low ngx ''Referer''"
    unfolding ja4h_is_def same_name_def [symmetric]
    by (rule strncasecmp_same_name [OF laws nul(1)] strncasecmp_same_name [OF laws nul(2)])+
  have excl: "low ngx ''Referer'' \<noteq> low ngx ''Cookie''" by simp
  show ?case
  proof (cases "hdr_hash h = 0")
    case True
    then show ?thesis
      using Cons by (simp add: ja4h_walk_step_def live_names_def listed_def)
  next
    case False
    define x where "x = (if ja4h_header_skip ngx (hdr_key h) then [] else [hdr_key h])"
    have step: "ja4h_walk_step ngx h (c, f, ns) = (c \<or> low ngx (hdr_key h) = low ngx ''Cookie'',
        f \<or> low ngx (hdr_key h) = low ngx ''Referer'', take 64 (ns @ x))"
      using False Cons(2) excl
      by (auto simp: ja4h_walk_step_def Let_def ck rf x_def NGX_SENTINEL_JA4H_MAX_HDRS_def simp del: list.map)
    have step_len: "length (take 64 (ns @ x)) \<le> 64" by simp
    have live: "live_names ngx (h # hs) = low ngx (hdr_key h) # live_names ngx hs"
      and listed: "listed ngx (h # hs) = x @ listed ngx hs"
      using False by (simp_all add: live_names_def listed_def x_def)
    show ?thesis
      unfolding fold_simps step Cons(1) [OF step_len] take_take_append live listed list.set append_assoc
      by (simp only: insert_iff disj_assoc prod.inject simp_thms) (simp only: eq_commute disj_assoc conj_commute)
  qed
qed (simp add: live_names_def listed_def)

lemma walk_eq:
  assumes "case_laws ngx" "memn2cmp_laws ngx"
  shows "ja4h_walk ngx hs =
     (low ngx ''Cookie'' \<in> set (live_names ngx hs), low ngx ''Referer'' \<in> set (live_names ngx hs),
      take 64 (listed ngx hs))"
  using walk_fold [OF assms, of "[]" hs False False] by (simp add: ja4h_walk_def)

lemma low_listed:
  assumes "case_laws ngx" "memn2cmp_laws ngx"
  shows "map (low ngx) (listed ngx hs) =
     filter (\<lambda>k. k \<notin> {low ngx ''cookie'', low ngx ''referer''}) (live_names ngx hs)"
  by (simp add: listed_def live_names_def header_skip_iff [OF assms] filter_map o_def)

lemma names_depend_on_low:
  "map (low ngx) ns = map (low ngx) ms \<Longrightarrow> canappend_names ngx i ns p = canappend_names ngx i ms p"
proof (induction ns arbitrary: ms i p)
  case (Cons n ns)
  then obtain m ms' where ms: "ms = m # ms'" "low ngx n = low ngx m" "map (low ngx) ns = map (low ngx) ms'"
    by (cases ms) auto
  show ?case using Cons.IH [OF ms(3)] by (simp add: ms(1,2) Let_def)
qed simp

subsection \<open>Properties\<close>

text \<open>Claim C37: the fingerprint is always 24 lowercase hexadecimal digits, and whenever the
  canonical string is built it leaves room for its terminator in the 4096-byte buffer.\<close>

theorem ja4h_is_24_hex_digits:
  assumes "digest_laws ngx"
  shows "length (sentinel_ja4h_compute ngx r) = 24 \<and>
         set (sentinel_ja4h_compute ngx r) \<subseteq> set ''0123456789abcdef'' \<and>
         (\<forall>canon. ja4h_canonical ngx r = Some canon \<longrightarrow> Suc (length canon) \<le> NGX_SENTINEL_JA4H_CANLEN)"
proof (intro conjI allI impI)
  have two: "length (concat (map ja4h_hex_byte bs)) = 2 * length bs" for bs
    by (induction bs) (simp_all add: hex_byte)
  have dl: "length (take 12 (sha256 ngx c)) = 12" for c
    using assms by (simp add: digest_laws_def)
  show "length (sentinel_ja4h_compute ngx r) = 24"
    using two dl by (simp add: sentinel_ja4h_compute_def NGX_SENTINEL_JA4H_HEX_LEN_def
        NGX_SENTINEL_JA4H_BIN_LEN_def split: option.split)
  have "set (concat (map ja4h_hex_byte bs)) \<subseteq> set ''0123456789abcdef''" for bs
    unfolding set_concat set_map using hex_byte(2) by blast
  then show "set (sentinel_ja4h_compute ngx r) \<subseteq> set ''0123456789abcdef''"
    unfolding sentinel_ja4h_compute_def by (cases "ja4h_canonical ngx r") (auto simp: set_replicate_conv_if)
  fix canon assume "ja4h_canonical ngx r = Some canon"
  then show "Suc (length canon) \<le> NGX_SENTINEL_JA4H_CANLEN"
    using canonical_bound [of ngx r canon] by (simp add: NGX_SENTINEL_JA4H_CANLEN_def)
qed

theorem ja4h_is_24_hex_digits_witness:
  "length (sentinel_ja4h_compute ngx_shim browser_request) = 24"
  using ja4h_is_24_hex_digits [OF ngx_shim_digest] by blast

text \<open>Claim C38: two requests that differ only in the order of their headers and in the case of
  the header names have the same fingerprint, while no more than 64 names are listed.\<close>

theorem ja4h_ignores_header_order_and_case:
  assumes laws: "case_laws ngx" "memn2cmp_laws ngx" "memn2cmp_lex ngx" "qsort_law ngx"
    and nul: "\<forall>h \<in> set (r_headers r) \<union> set hs'. NUL \<notin> set (hdr_key h)"
    and perm: "mset (map (\<lambda>h. (hdr_hash h = 0, low ngx (hdr_key h))) hs') =
               mset (map (\<lambda>h. (hdr_hash h = 0, low ngx (hdr_key h))) (r_headers r))"
    and few: "length (r_headers r) \<le> 64"
  shows "sentinel_ja4h_compute ngx (r\<lparr>r_headers := hs'\<rparr>) = sentinel_ja4h_compute ngx r"
proof -
  have len: "length hs' \<le> 64" using few mset_eq_length [OF perm] by simp
  have view: "live_names ngx hs = map snd (filter (\<lambda>v. \<not> fst v) (map (\<lambda>h. (hdr_hash h = 0, low ngx (hdr_key h))) hs))" for hs
    by (induction hs) (auto simp: live_names_def)
  have live: "mset (live_names ngx hs') = mset (live_names ngx (r_headers r))"
    unfolding view mset_map mset_filter using perm by (simp only: mset_map)
  have lst: "take 64 (listed ngx hs) = listed ngx hs" if "length hs \<le> 64" for hs
  proof -
    have "length (listed ngx hs) \<le> length hs"
      unfolding listed_def by (metis length_filter_le length_map le_trans)
    then show ?thesis using that by simp
  qed
  have nl: "\<forall>n \<in> set (listed ngx hs). NUL \<notin> set n" if "set hs \<subseteq> set (r_headers r) \<union> set hs'" for hs
    using nul that by (auto simp: listed_def)
  define A where "A = sorted_names ngx (listed ngx hs')"
  define B where "B = sorted_names ngx (listed ngx (r_headers r))"
  have m: "mset (map (low ngx) (listed ngx hs')) = mset (map (low ngx) (listed ngx (r_headers r)))"
    unfolding low_listed [OF laws(1,2)] mset_filter live ..
  then have lenl: "length (listed ngx hs') = length (listed ngx (r_headers r))"
    using mset_eq_length [OF m] by simp
  have "map (low ngx) A = map (low ngx) B"
    unfolding A_def B_def
    using low_sorted_names [OF laws nl, of hs'] low_sorted_names [OF laws nl, of "r_headers r"] m
    by (intro sorted_wrt_mset_unique [where R = "\<lambda>a b. memn2cmp ngx a b \<le> 0"])
      (auto intro: memn2cmp_le_antisym [OF laws(2)])
  then have names: "canappend_names ngx 0 A p = canappend_names ngx 0 B p" for p
    by (rule names_depend_on_low)
  have "ja4h_walk ngx hs' = (low ngx ''Cookie'' \<in> set (live_names ngx (r_headers r)),
      low ngx ''Referer'' \<in> set (live_names ngx (r_headers r)), listed ngx hs')"
    using live len by (simp add: walk_eq [OF laws(1,2)] lst) (metis set_mset_mset)
  moreover have "ja4h_walk ngx (r_headers r) = (low ngx ''Cookie'' \<in> set (live_names ngx (r_headers r)),
      low ngx ''Referer'' \<in> set (live_names ngx (r_headers r)), listed ngx (r_headers r))"
    using few by (simp add: walk_eq [OF laws(1,2)] lst)
  ultimately have "ja4h_canonical ngx (r\<lparr>r_headers := hs'\<rparr>) = ja4h_canonical ngx r"
    using names lenl by (simp add: ja4h_canonical_def Let_def A_def B_def sorted_names_def)
  then show ?thesis by (simp add: sentinel_ja4h_compute_def)
qed

theorem ja4h_ignores_header_order_and_case_witness:
  "sentinel_ja4h_compute ngx_shim (browser_request\<lparr>r_headers :=
      [\<lparr>hdr_hash = 1, hdr_key = ''aCCept'', hdr_value = ''*''\<rparr>,
       \<lparr>hdr_hash = 1, hdr_key = ''host'', hdr_value = ''x''\<rparr>]\<rparr>) =
   sentinel_ja4h_compute ngx_shim (browser_request\<lparr>r_headers :=
      [\<lparr>hdr_hash = 1, hdr_key = ''HOST'', hdr_value = ''x''\<rparr>,
       \<lparr>hdr_hash = 1, hdr_key = ''Accept'', hdr_value = ''*''\<rparr>]\<rparr>)"
proof -
  define r where "r = browser_request\<lparr>r_headers :=
      [\<lparr>hdr_hash = 1, hdr_key = ''HOST'', hdr_value = ''x''\<rparr>,
       \<lparr>hdr_hash = 1, hdr_key = ''Accept'', hdr_value = ''*''\<rparr>]\<rparr>"
  have laws: "case_laws ngx_shim" "memn2cmp_laws ngx_shim" "memn2cmp_lex ngx_shim" "qsort_law ngx_shim"
    using ngx_shim_case ngx_shim_laws ngx_shim_lex ngx_shim_qsort by (auto simp: zone_laws_def)
  have t: "ngx_tolower ngx_shim = shim_tolower" by (simp add: ngx_shim_def)
  have l: "map shim_tolower ''HOST'' = ''host''" "map shim_tolower ''host'' = ''host''"
    "map shim_tolower ''Accept'' = ''accept''" "map shim_tolower ''aCCept'' = ''accept''"
    by code_simp+
  show ?thesis
    using ja4h_ignores_header_order_and_case [OF laws, of r
        "[\<lparr>hdr_hash = 1, hdr_key = ''aCCept'', hdr_value = ''*''\<rparr>,
          \<lparr>hdr_hash = 1, hdr_key = ''host'', hdr_value = ''x''\<rparr>]"]
    by (simp add: r_def t l NUL_def del: list.map)
qed

end
