(* ===== verification/Sentinel_Pow.thy ===== *)
theory Sentinel_Pow
  imports Sentinel_Ja4h
begin

text \<open>
  \<^verbatim>\<open>src/sentinel_pow.c\<close>: the proof-of-work challenge. What nginx answers within one request (the
  clock, allocations, sending the header) is the record \<open>pow_env\<close>; what the module puts on the
  response is the record \<open>pow_out\<close>. The page is represented by the two values that its fixed text
  embeds, the challenge and the difficulty. Every connection of nginx has an address; a request
  without one is treated as one of an unknown family.
\<close>

definition NGX_SENTINEL_POW_COOKIE :: string where "NGX_SENTINEL_POW_COOKIE = ''__sentinel_pow''"
definition NGX_SENTINEL_POW_HEADER :: string where "NGX_SENTINEL_POW_HEADER = ''X-Sentinel-Pow''"
definition NGX_SENTINEL_POW_ARG :: string where "NGX_SENTINEL_POW_ARG = ''__sentinel_pow''"
definition NGX_SENTINEL_POW_HEXLEN :: nat where "NGX_SENTINEL_POW_HEXLEN = 64"
definition NGX_SENTINEL_POW_NONCE_MAX :: nat where "NGX_SENTINEL_POW_NONCE_MAX = 64"

record pow_env =
  pe_now :: int
  pe_list_push :: bool
  pe_pnalloc :: bool
  pe_temp_buf :: bool
  pe_send_header :: bool

text \<open>A \<open>Set-Cookie\<close> header: absent, pushed without a value, or with one.\<close>

datatype set_cookie = CookieNone | CookieUnset | CookieSet string

record pow_out =
  out_cookie :: set_cookie
  out_page :: "(string \<times> int) option"

definition sentinel_pow_hex :: "string \<Rightarrow> string" where
  "sentinel_pow_hex src =
     concat (map (\<lambda>c. let b = of_char c :: nat
                      in [''0123456789abcdef'' ! (b div 16), ''0123456789abcdef'' ! (b mod 16)]) src)"

text \<open>The bytes of \<open>sin_addr\<close>, most significant first.\<close>

definition inet_bytes :: "32 word \<Rightarrow> string" where
  "inet_bytes a = map (\<lambda>i. char_of (unat a div 256 ^ i)) [3, 2, 1, 0]"

text \<open>The identity of both messages: the address, or its text for another family.\<close>

definition pow_identity :: "request \<Rightarrow> string" where
  "pow_identity r =
     (case r_sockaddr r of
        Some (AF_INET6 s6) \<Rightarrow> s6
      | Some (AF_INET a) \<Rightarrow> inet_bytes a
      | _ \<Rightarrow> r_addr_text r)"

definition pow_hmac :: "ngx_api \<Rightarrow> loc_conf \<Rightarrow> string \<Rightarrow> string option" where
  "pow_hmac ngx lcf msg =
     (case hmac_sha256 ngx (str_of (lcf_pow_secret lcf)) msg of
        None \<Rightarrow> None
      | Some mac \<Rightarrow> if length mac \<noteq> NGX_SENTINEL_DIGEST_LEN then None else Some (sentinel_pow_hex mac))"

definition pow_ttl_or_1 :: "loc_conf \<Rightarrow> int" where
  "pow_ttl_or_1 lcf = (if lcf_pow_ttl lcf > 0 then lcf_pow_ttl lcf else 1)"

text \<open>The clock is not negative, so C's division is \<^term>\<open>(div)\<close>.\<close>

definition sentinel_pow_challenge :: "ngx_api \<Rightarrow> int \<Rightarrow> request \<Rightarrow> loc_conf \<Rightarrow> string option" where
  "sentinel_pow_challenge ngx now r lcf =
     (let ip = pow_identity r
      in if length ip = 0 \<or> length ip > 16 then None
         else
           let bucket = (word_of_int (now div pow_ttl_or_1 lcf) :: 64 word)
           in pow_hmac ngx lcf (ip @ sprint_int ngx (uint bucket)))"

text \<open>The loop over the bits of one byte; it is entered with a byte that is not zero.\<close>

function lead_zeros :: "nat \<Rightarrow> nat" where
  "lead_zeros b = (if b = 0 \<or> b div 128 mod 2 \<noteq> 0 then 0 else Suc (lead_zeros (b * 2 mod 256)))"
  by auto

lemma lead_zeros_shrinks:
  assumes "b \<noteq> 0" "b div 128 mod 2 = (0::nat)"
  shows "(if b * 2 mod 256 < 256 then 256 - b * 2 mod 256 else 257) < (if b < 256 then 256 - b else (257::nat))"
proof (cases "b < 256")
  case True
  then have "b < 128" using assms(2) by (cases "b < 128") (auto simp: div_eq_dividend_iff dest: le_div_geq)
  then show ?thesis using assms(1) by simp
qed simp

termination lead_zeros
  by (relation "measure (\<lambda>b. if b < 256 then 256 - b else 257)") (use lead_zeros_shrinks in auto)

declare lead_zeros.simps [simp del]

fun zero_bits :: "string \<Rightarrow> int \<Rightarrow> int" where
  "zero_bits [] bits = bits"
| "zero_bits (c # cs) bits =
     (let b = of_char c :: nat
      in if b = 0 then zero_bits cs (bits + 8) else bits + int (lead_zeros b))"

definition sentinel_pow_meets_difficulty :: "string \<Rightarrow> int \<Rightarrow> bool" where
  "sentinel_pow_meets_difficulty digest difficulty =
     (zero_bits (take NGX_SENTINEL_DIGEST_LEN digest) 0 \<ge> difficulty)"

definition sentinel_pow_cookie_mac :: "ngx_api \<Rightarrow> request \<Rightarrow> loc_conf \<Rightarrow> int \<Rightarrow> string option" where
  "sentinel_pow_cookie_mac ngx r lcf expiry =
     (let ip = pow_identity r
      in if length ip = 0 \<or> length ip > 16 then None
         else pow_hmac ngx lcf (ip @ sprint_int ngx expiry))"

definition sentinel_pow_check_cookie :: "ngx_api \<Rightarrow> int \<Rightarrow> request \<Rightarrow> loc_conf \<Rightarrow> ngx_rc" where
  "sentinel_pow_check_cookie ngx now r lcf =
     (case parse_cookie_lines ngx (r_cookie r) NGX_SENTINEL_POW_COOKIE of
        None \<Rightarrow> NGX_DECLINED
      | Some val \<Rightarrow>
          if length val = 0 then NGX_DECLINED
          else if length val \<le> NGX_SENTINEL_POW_HEXLEN + 1 then NGX_ERROR
          else
            (case memchr CHR ''.'' val of
               None \<Rightarrow> NGX_ERROR
             | Some i \<Rightarrow>
                 if length val - i - 1 \<noteq> NGX_SENTINEL_POW_HEXLEN then NGX_ERROR
                 else
                   (case atotm ngx (take i val) of
                      None \<Rightarrow> NGX_ERROR
                    | Some expiry \<Rightarrow>
                        if expiry \<le> now then NGX_ERROR
                        else
                          (case sentinel_pow_cookie_mac ngx r lcf expiry of
                             None \<Rightarrow> NGX_ERROR
                           | Some want \<Rightarrow>
                               if memn2cmp ngx (drop (Suc i) val) want \<noteq> 0 then NGX_ERROR else NGX_OK))))"

text \<open>The first header of that name decides, whatever its value.\<close>

fun nonce_header :: "ngx_api \<Rightarrow> ngx_table_elt list \<Rightarrow> string option" where
  "nonce_header ngx [] = None"
| "nonce_header ngx (h # hs) =
     (if length (hdr_key h) = length NGX_SENTINEL_POW_HEADER \<and>
         strncasecmp ngx (hdr_key h) NGX_SENTINEL_POW_HEADER (length NGX_SENTINEL_POW_HEADER) = 0
      then Some (hdr_value h) else nonce_header ngx hs)"

definition nonce_fits :: "string \<Rightarrow> bool" where
  "nonce_fits nonce \<longleftrightarrow> length nonce > 0 \<and> length nonce \<le> NGX_SENTINEL_POW_NONCE_MAX"

definition sentinel_pow_get_nonce :: "ngx_api \<Rightarrow> request \<Rightarrow> string option" where
  "sentinel_pow_get_nonce ngx r =
     (case nonce_header ngx (r_headers r) of
        Some v \<Rightarrow> if nonce_fits v then Some v else None
      | None \<Rightarrow>
          (case http_arg ngx (r_args r) NGX_SENTINEL_POW_ARG of
             Some v \<Rightarrow> if nonce_fits v then Some v else None
           | None \<Rightarrow> None))"

definition sentinel_pow_set_cookie :: "ngx_api \<Rightarrow> pow_env \<Rightarrow> request \<Rightarrow> loc_conf \<Rightarrow> set_cookie" where
  "sentinel_pow_set_cookie ngx env r lcf =
     (let expiry = pe_now env + pow_ttl_or_1 lcf
      in case sentinel_pow_cookie_mac ngx r lcf expiry of
           None \<Rightarrow> CookieNone
         | Some machex \<Rightarrow>
             if \<not> pe_list_push env then CookieNone
             else if \<not> pe_pnalloc env then CookieUnset
             else CookieSet (NGX_SENTINEL_POW_COOKIE @ ''='' @ sprint_int ngx expiry @ ''.'' @ machex @
                             ''; Path=/; Max-Age='' @ sprint_int ngx (pow_ttl_or_1 lcf) @ ''; HttpOnly''))"

definition sentinel_pow_send_page :: "pow_env \<Rightarrow> loc_conf \<Rightarrow> string \<Rightarrow> ngx_rc \<times> (string \<times> int) option" where
  "sentinel_pow_send_page env lcf challenge =
     (if \<not> pe_temp_buf env then (NGX_ERROR, None)
      else if \<not> pe_send_header env then (NGX_DONE, None)
      else (NGX_DONE, Some (challenge, lcf_pow_difficulty lcf)))"

definition sentinel_pow_dispatch :: "ngx_api \<Rightarrow> pow_env \<Rightarrow> request \<Rightarrow> loc_conf \<Rightarrow> ngx_sentinel_ctx \<Rightarrow>
    ngx_rc \<times> ngx_sentinel_ctx \<times> pow_out" where
  "sentinel_pow_dispatch ngx env r lcf ctx =
     (let none = \<lparr>out_cookie = CookieNone, out_page = None\<rparr>
      in if lcf_pow_enabled lcf = 0 \<or> length (str_of (lcf_pow_secret lcf)) = 0
         then (NGX_DECLINED, ctx\<lparr>ctx_pow_state := POW_OFF\<rparr>, none)
         else if sentinel_pow_check_cookie ngx (pe_now env) r lcf = NGX_OK
         then (NGX_DECLINED, ctx\<lparr>ctx_pow_state := POW_VERIFIED\<rparr>, none)
         else
           (case sentinel_pow_challenge ngx (pe_now env) r lcf of
              None \<Rightarrow> (NGX_DECLINED, ctx\<lparr>ctx_pow_state := POW_OFF\<rparr>, none)
            | Some challenge \<Rightarrow>
                if (case sentinel_pow_get_nonce ngx r of
                      None \<Rightarrow> False
                    | Some nonce \<Rightarrow>
                        sentinel_pow_meets_difficulty (sha256 ngx (challenge @ nonce)) (lcf_pow_difficulty lcf))
                then (NGX_DECLINED, ctx\<lparr>ctx_pow_state := POW_VERIFIED\<rparr>,
                      none\<lparr>out_cookie := sentinel_pow_set_cookie ngx env r lcf\<rparr>)
                else
                  (case sentinel_pow_send_page env lcf challenge of
                     (rc, page) \<Rightarrow> (rc, ctx\<lparr>ctx_pow_state := POW_CHALLENGE\<rparr>, none\<lparr>out_page := page\<rparr>))))"

subsection \<open>The difficulty as a bound on a number\<close>

text \<open>The digest read as a big-endian number.\<close>

fun be_value :: "string \<Rightarrow> nat" where
  "be_value [] = 0"
| "be_value (c # cs) = of_char c * 256 ^ length cs + be_value cs"

lemma char_byte: "(of_char c :: nat) < 256"
  by (metis of_char_mod_256 mod_less_divisor zero_less_numeral)

lemma be_value_less: "be_value cs < 256 ^ length cs"
proof (induction cs)
  case (Cons c cs)
  have "(of_char c :: nat) \<le> 255" using char_byte [of c] by linarith
  then have "of_char c * 256 ^ length cs \<le> (255::nat) * 256 ^ length cs" by (intro mult_right_mono) auto
  then have "of_char c * 256 ^ length cs + be_value cs < 256 * 256 ^ length cs" using Cons.IH by linarith
  then show ?case by simp
qed simp

lemma lead_zeros_bounds:
  "0 < b \<Longrightarrow> b < 256 \<Longrightarrow> lead_zeros b \<le> 7 \<and> 2 ^ (7 - lead_zeros b) \<le> b \<and> b < 2 ^ (8 - lead_zeros b)"
proof (induction b rule: lead_zeros.induct)
  case (1 b)
  show ?case
  proof (cases "b < 128")
    case True
    then have "lead_zeros (b * 2) \<le> 7 \<and> 2 ^ (7 - lead_zeros (b * 2)) \<le> b * 2 \<and> b * 2 < 2 ^ (8 - lead_zeros (b * 2))"
      using "1.IH" "1.prems" by simp
    moreover have s: "lead_zeros b = Suc (lead_zeros (b * 2))"
      using True "1.prems" by (subst lead_zeros.simps) simp
    moreover have "lead_zeros (b * 2) \<noteq> 7" using calculation "1.prems" by auto
    ultimately obtain k where k: "7 - lead_zeros (b * 2) = Suc k" "8 - lead_zeros (b * 2) = Suc (Suc k)"
      "7 - lead_zeros b = k" "8 - lead_zeros b = Suc k" "lead_zeros b \<le> 7"
      by (cases "7 - lead_zeros (b * 2)") auto
    then show ?thesis
      using \<open>lead_zeros (b * 2) \<le> 7 \<and> _\<close> by simp
  next
    case False
    then have "b div 128 = 1" using "1.prems" by (simp add: div_nat_eqI)
    then show ?thesis using False "1.prems" by (subst (1 2 3) lead_zeros.simps) simp
  qed
qed


lemma zero_bits_bounds:
  "\<exists>n. zero_bits cs bits = bits + int n \<and> n \<le> 8 * length cs \<and> be_value cs < 2 ^ (8 * length cs - n) \<and>
     (n < 8 * length cs \<longrightarrow> 2 ^ (8 * length cs - Suc n) \<le> be_value cs)"
proof (induction cs arbitrary: bits)
  case (Cons c cs)
  let ?b = "of_char c :: nat" and ?L = "8 * length cs"
  have p: "(256::nat) ^ length cs = 2 ^ ?L" using power_mult [of "2::nat" 8 "length cs"] by simp
  show ?case
  proof (cases "?b = 0")
    case True
    from Cons.IH [of "bits + 8"] obtain n where
      "zero_bits cs (bits + 8) = bits + 8 + int n" "n \<le> ?L" "be_value cs < 2 ^ (?L - n)"
      "n < ?L \<longrightarrow> 2 ^ (?L - Suc n) \<le> be_value cs" by blast
    then show ?thesis using True by (intro exI [of _ "n + 8"]) simp
  next
    case False
    let ?n = "lead_zeros ?b"
    have n: "?n \<le> 7" "2 ^ (7 - ?n) \<le> ?b" "?b < 2 ^ (8 - ?n)" using lead_zeros_bounds [of ?b] False char_byte [of c] by auto
    have "Suc ?b * 2 ^ ?L \<le> 2 ^ (8 - ?n) * 2 ^ ?L" using n(3) by (intro mult_right_mono) auto
    moreover have "2 ^ (7 - ?n) * 2 ^ ?L \<le> ?b * 2 ^ ?L" using n(2) by (intro mult_right_mono) auto
    moreover have "be_value cs < 2 ^ ?L" using be_value_less [of cs] by (simp add: p)
    moreover have "(2::nat) ^ (8 - ?n) * 2 ^ ?L = 2 ^ (8 * length (c # cs) - ?n)"
      "(2::nat) ^ (7 - ?n) * 2 ^ ?L = 2 ^ (8 * length (c # cs) - Suc ?n)"
      using n(1) by (simp_all add: add.commute flip: power_add)
    ultimately have "be_value (c # cs) < 2 ^ (8 * length (c # cs) - ?n)"
      "2 ^ (8 * length (c # cs) - Suc ?n) \<le> be_value (c # cs)" by (simp_all add: p)
    then show ?thesis using False n(1) by (intro exI [of _ ?n]) simp
  qed
qed simp

lemma difficulty_is_bound:
  assumes "length digest = 32" "0 \<le> d" "d \<le> 256"
  shows "sentinel_pow_meets_difficulty digest d \<longleftrightarrow> be_value digest < 2 ^ (256 - nat d)"
proof -
  from zero_bits_bounds [of digest 0] obtain n where
    n: "zero_bits digest 0 = int n" "n \<le> 256" "be_value digest < 2 ^ (256 - n)"
      "n < 256 \<longrightarrow> 2 ^ (256 - Suc n) \<le> be_value digest" using assms(1) by auto
  have "be_value digest < 2 ^ (256 - nat d)" if "d \<le> int n"
  proof -
    have "(2::nat) ^ (256 - n) \<le> 2 ^ (256 - nat d)" using that by (intro power_increasing) auto
    then show ?thesis using n(3) by linarith
  qed
  moreover have "2 ^ (256 - nat d) \<le> be_value digest" if "int n < d"
  proof -
    have "(2::nat) ^ (256 - nat d) \<le> 2 ^ (256 - Suc n)" using that by (intro power_increasing) auto
    then show ?thesis using n(4) that assms(3) by linarith
  qed
  ultimately show ?thesis
    using assms(1) by (simp add: sentinel_pow_meets_difficulty_def NGX_SENTINEL_DIGEST_LEN_def n(1)) linarith
qed

subsection \<open>Cookies\<close>

lemma hex_length [simp]: "length (sentinel_pow_hex s) = 2 * length s"
  by (induction s) (simp_all add: sentinel_pow_hex_def Let_def)

lemma pow_hmac_length: "pow_hmac ngx lcf msg = Some m \<Longrightarrow> length m = 64"
  by (auto simp: pow_hmac_def NGX_SENTINEL_DIGEST_LEN_def split: option.splits if_splits)

lemma cookie_mac_length: "sentinel_pow_cookie_mac ngx r lcf e = Some m \<Longrightarrow> length m = 64"
  by (auto simp: sentinel_pow_cookie_mac_def Let_def dest: pow_hmac_length split: if_splits)

text \<open>The value part of the cookie that the module sets.\<close>

definition cookie_value :: "ngx_api \<Rightarrow> int \<Rightarrow> string \<Rightarrow> string" where
  "cookie_value ngx expiry mac = sprint_int ngx expiry @ ''.'' @ mac"

lemma digits_no_dot:
  assumes "decimal_laws ngx" "0 \<le> n"
  shows "CHR ''.'' \<notin> set (sprint_int ngx n)"
  using assms by (auto simp: decimal_laws_def)

text \<open>A cookie passes exactly when it is an unexpired decimal, a dot and the MAC of that number.\<close>

lemma check_cookie_accepts:
  assumes "decimal_laws ngx" "memn2cmp_laws ngx" "atotm ngx [] = None"
    and "parse_cookie_lines ngx (r_cookie r) NGX_SENTINEL_POW_COOKIE = Some (cookie_value ngx e mac)"
    and "sentinel_pow_cookie_mac ngx r lcf e = Some mac" "0 \<le> e" "e < 2 ^ 63" "now < e"
  shows "sentinel_pow_check_cookie ngx now r lcf = NGX_OK"
proof -
  let ?e = "sprint_int ngx e"
  have at: "atotm ngx ?e = Some e" using assms(1,6,7) by (simp add: decimal_laws_def)
  then have "?e \<noteq> []" using assms(3) by auto
  moreover have "length mac = 64" by (rule cookie_mac_length [OF assms(5)])
  moreover have "memchr CHR ''.'' (cookie_value ngx e mac) = Some (length ?e)"
    using digits_no_dot [OF assms(1,6)] by (simp add: cookie_value_def memchr_append_notin)
  ultimately show ?thesis
    using assms(2,4,5,8) at
    by (simp add: sentinel_pow_check_cookie_def cookie_value_def NGX_SENTINEL_POW_HEXLEN_def memn2cmp_laws_def)
qed

lemma check_cookie_OK:
  assumes "memn2cmp_laws ngx" "sentinel_pow_check_cookie ngx now r lcf = NGX_OK"
  shows "\<exists>digits mac e. parse_cookie_lines ngx (r_cookie r) NGX_SENTINEL_POW_COOKIE = Some (digits @ ''.'' @ mac) \<and>
    atotm ngx digits = Some e \<and> now < e \<and> sentinel_pow_cookie_mac ngx r lcf e = Some mac"
proof -
  from assms(2) obtain val i e want where
    v: "parse_cookie_lines ngx (r_cookie r) NGX_SENTINEL_POW_COOKIE = Some val" "memchr CHR ''.'' val = Some i"
      "atotm ngx (take i val) = Some e" "now < e" "sentinel_pow_cookie_mac ngx r lcf e = Some want"
      "memn2cmp ngx (drop (Suc i) val) want = 0"
    by (auto simp: sentinel_pow_check_cookie_def split: option.splits if_splits)
  have "val = take i val @ CHR ''.'' # drop (Suc i) val"
    using memchr_Some [OF v(2)] memchr_less [OF v(2)] by (metis id_take_nth_drop)
  moreover have "drop (Suc i) val = want" using assms(1) v(6) by (simp add: memn2cmp_laws_def)
  ultimately show ?thesis using v by (intro exI [of _ "take i val"] exI [of _ want] exI [of _ e]) simp
qed


lemma cookie_mac_identity:
  "pow_identity r = pow_identity r' \<Longrightarrow> sentinel_pow_cookie_mac ngx r lcf e = sentinel_pow_cookie_mac ngx r' lcf e"
  by (simp add: sentinel_pow_cookie_mac_def)

lemma challenge_has_mac:
  assumes "sentinel_pow_challenge ngx now r lcf \<noteq> None" "\<forall>msg. pow_hmac ngx lcf msg \<noteq> None"
  obtains mac where "sentinel_pow_cookie_mac ngx r lcf e = Some mac"
  using assms by (fastforce simp: sentinel_pow_challenge_def sentinel_pow_cookie_mac_def Let_def split: if_splits)

definition pow_active :: "loc_conf \<Rightarrow> bool" where
  "pow_active lcf \<longleftrightarrow> lcf_pow_enabled lcf \<noteq> 0 \<and> str_of (lcf_pow_secret lcf) \<noteq> []"

lemma dispatch_cookie:
  "pow_active lcf \<Longrightarrow> sentinel_pow_check_cookie ngx (pe_now env) r lcf = NGX_OK \<Longrightarrow>
     sentinel_pow_dispatch ngx env r lcf ctx =
       (NGX_DECLINED, ctx\<lparr>ctx_pow_state := POW_VERIFIED\<rparr>, \<lparr>out_cookie = CookieNone, out_page = None\<rparr>)"
  by (simp add: pow_active_def sentinel_pow_dispatch_def Let_def)

lemma dispatch_solved:
  assumes "pow_active lcf" "sentinel_pow_check_cookie ngx (pe_now env) r lcf \<noteq> NGX_OK"
    and "sentinel_pow_challenge ngx (pe_now env) r lcf = Some c" "sentinel_pow_get_nonce ngx r = Some nonce"
    and "sentinel_pow_meets_difficulty (sha256 ngx (c @ nonce)) (lcf_pow_difficulty lcf)"
  shows "sentinel_pow_dispatch ngx env r lcf ctx =
    (NGX_DECLINED, ctx\<lparr>ctx_pow_state := POW_VERIFIED\<rparr>,
     \<lparr>out_cookie = sentinel_pow_set_cookie ngx env r lcf, out_page = None\<rparr>)"
  using assms by (simp add: pow_active_def sentinel_pow_dispatch_def Let_def)

subsection \<open>A sample request\<close>

definition pow_lcf :: loc_conf where
  "pow_lcf = default_loc_conf\<lparr>lcf_pow_enabled := 1, lcf_pow_secret := Some ''k'', lcf_pow_difficulty := 1, lcf_pow_ttl := 10\<rparr>"

definition pow_request :: request where
  "pow_request = browser_request\<lparr>r_sockaddr := Some (AF_INET 3221225985), r_cookie := [], r_headers := [],
     r_args := ''__sentinel_pow=7''\<rparr>"

text \<open>An implementation whose digest is all zero, so that every nonce is a solution.\<close>

definition pow_shim :: ngx_api where
  "pow_shim = ngx_shim\<lparr>sha256 := (\<lambda>s. replicate 32 NUL)\<rparr>"

definition pow_sample_env :: pow_env where
  "pow_sample_env = \<lparr>pe_now = 100, pe_list_push = True, pe_pnalloc = True, pe_temp_buf = True, pe_send_header = True\<rparr>"

lemma pow_shim_laws: "decimal_laws pow_shim" "memn2cmp_laws pow_shim" "digest_laws pow_shim" "atotm pow_shim [] = None"
proof -
  have f: "memn2cmp pow_shim = memn2cmp ngx_shim" by (simp add: pow_shim_def)
  have "memn2cmp_laws ngx_shim" using ngx_shim_laws by (simp add: zone_laws_def)
  then show "memn2cmp_laws pow_shim" unfolding memn2cmp_laws_def f .
  show "decimal_laws pow_shim" using ngx_shim_decimal by (simp add: decimal_laws_def pow_shim_def)
  show "digest_laws pow_shim" using ngx_shim_digest by (simp add: digest_laws_def pow_shim_def)
  show "atotm pow_shim [] = None" by (simp add: pow_shim_def ngx_shim_def shim_atoi_def)
qed

lemma pow_sample:
  "pow_active pow_lcf" "lcf_pow_difficulty pow_lcf = 1" "lcf_pow_ttl pow_lcf = 10" "pow_hmac pow_shim pow_lcf msg \<noteq> None"
  "sentinel_pow_get_nonce pow_shim pow_request = Some ''7''"
  "sentinel_pow_check_cookie pow_shim now pow_request pow_lcf = NGX_DECLINED"
  "sentinel_pow_challenge pow_shim now pow_request pow_lcf \<noteq> None"
proof -
  show h: "pow_hmac pow_shim pow_lcf msg \<noteq> None" for msg
    by (simp add: pow_hmac_def pow_shim_def ngx_shim_def NGX_SENTINEL_DIGEST_LEN_def)
  show "pow_active pow_lcf" "lcf_pow_difficulty pow_lcf = 1" "lcf_pow_ttl pow_lcf = 10"
    by (simp_all add: pow_active_def pow_lcf_def str_of_def)
  show "sentinel_pow_get_nonce pow_shim pow_request = Some ''7''"
    by (simp add: sentinel_pow_get_nonce_def pow_request_def pow_shim_def ngx_shim_def shim_cookie_def
        NGX_SENTINEL_POW_ARG_def nonce_fits_def NGX_SENTINEL_POW_NONCE_MAX_def)
  show "sentinel_pow_check_cookie pow_shim now pow_request pow_lcf = NGX_DECLINED"
    by (simp add: sentinel_pow_check_cookie_def pow_request_def pow_shim_def ngx_shim_def shim_cookie_def)
  show "sentinel_pow_challenge pow_shim now pow_request pow_lcf \<noteq> None"
    using h by (simp add: sentinel_pow_challenge_def pow_identity_def pow_request_def inet_bytes_def Let_def)
qed

lemma be_value_zeros: "be_value (replicate n NUL @ s) = be_value s"
  by (induction n) (simp_all add: NUL_def)

lemma pow_sample_solved: "sentinel_pow_meets_difficulty (sha256 pow_shim s) 1"
proof -
  have "be_value (replicate 32 NUL) = 0" using be_value_zeros [of 32 "[]"] by simp
  then show ?thesis using difficulty_is_bound [of "sha256 pow_shim s" 1] by (simp add: pow_shim_def)
qed

subsection \<open>Properties\<close>

text \<open>
  Claim C21: the bit loop is a bound on a number. For a 32-byte digest and a difficulty of up to 256,
  the loop that counts leading zero bits accepts exactly the digests that, read as a big-endian
  number, are below \<open>2\<^sup>(\<^sup>2\<^sup>5\<^sup>6\<^sup>-\<^sup>d\<^sup>)\<close>.
\<close>

theorem difficulty_is_a_numeric_bound:
  assumes "length digest = 32" "0 \<le> d" "d \<le> 256"
  shows "sentinel_pow_meets_difficulty digest d \<longleftrightarrow> be_value digest < 2 ^ (256 - nat d)"
  by (rule difficulty_is_bound [OF assms])

theorem difficulty_is_a_numeric_bound_witness:
  "sentinel_pow_meets_difficulty (replicate 31 NUL @ ''A'') 249 \<and> be_value (replicate 31 NUL @ ''A'') < 2 ^ 7"
proof -
  have "be_value (replicate 31 NUL @ ''A'') = 65" unfolding be_value_zeros by simp
  then show ?thesis using difficulty_is_a_numeric_bound [of "replicate 31 NUL @ ''A''" 249] by simp
qed

text \<open>
  Claim C19: a solved challenge admits the client until the cookie expires. A request with a nonce
  that meets the difficulty passes and gets a cookie, and any later request of the same address
  that sends this cookie back before its expiry passes without a page, whatever else it holds.
\<close>

theorem solved_challenge_admits_until_expiry:
  assumes laws: "decimal_laws ngx" "memn2cmp_laws ngx" "atotm ngx [] = None" "\<forall>msg. pow_hmac ngx lcf msg \<noteq> None"
    and on: "pow_active lcf" "0 < lcf_pow_ttl lcf"
    and solved: "sentinel_pow_challenge ngx (pe_now env) r lcf = Some c" "sentinel_pow_get_nonce ngx r = Some nonce"
      "sentinel_pow_meets_difficulty (sha256 ngx (c @ nonce)) (lcf_pow_difficulty lcf)"
      "sentinel_pow_check_cookie ngx (pe_now env) r lcf \<noteq> NGX_OK" "pe_list_push env" "pe_pnalloc env"
    and time: "0 \<le> pe_now env" "pe_now env + lcf_pow_ttl lcf < 2 ^ 63"
  shows "\<exists>v attrs. sentinel_pow_dispatch ngx env r lcf ctx =
      (NGX_DECLINED, ctx\<lparr>ctx_pow_state := POW_VERIFIED\<rparr>,
       \<lparr>out_cookie = CookieSet (NGX_SENTINEL_POW_COOKIE @ ''='' @ v @ '';'' @ attrs), out_page = None\<rparr>) \<and>
    (\<forall>env' r' ctx'. pow_identity r' = pow_identity r \<longrightarrow> pe_now env' < pe_now env + lcf_pow_ttl lcf \<longrightarrow>
       parse_cookie_lines ngx (r_cookie r') NGX_SENTINEL_POW_COOKIE = Some v \<longrightarrow>
       sentinel_pow_dispatch ngx env' r' lcf ctx' =
         (NGX_DECLINED, ctx'\<lparr>ctx_pow_state := POW_VERIFIED\<rparr>, \<lparr>out_cookie = CookieNone, out_page = None\<rparr>))"
proof -
  let ?e = "pe_now env + lcf_pow_ttl lcf"
  obtain mac where mac: "sentinel_pow_cookie_mac ngx r lcf ?e = Some mac"
    using challenge_has_mac [of ngx "pe_now env" r lcf ?e] solved(1) laws(4) by auto
  let ?v = "cookie_value ngx ?e mac"
  have e: "0 \<le> ?e" using on(2) time(1) by linarith
  have "sentinel_pow_set_cookie ngx env r lcf =
      CookieSet (NGX_SENTINEL_POW_COOKIE @ ''='' @ ?v @ '';'' @ '' Path=/; Max-Age='' @ sprint_int ngx (lcf_pow_ttl lcf) @ ''; HttpOnly'')"
    using mac on(2) solved(5,6) by (simp add: sentinel_pow_set_cookie_def pow_ttl_or_1_def cookie_value_def Let_def)
  moreover have "sentinel_pow_dispatch ngx env' r' lcf ctx' =
      (NGX_DECLINED, ctx'\<lparr>ctx_pow_state := POW_VERIFIED\<rparr>, \<lparr>out_cookie = CookieNone, out_page = None\<rparr>)"
    if "pow_identity r' = pow_identity r" "pe_now env' < ?e"
      "parse_cookie_lines ngx (r_cookie r') NGX_SENTINEL_POW_COOKIE = Some ?v" for env' r' ctx'
    using check_cookie_accepts [OF laws(1-3) that(3) _ e time(2) that(2)] mac cookie_mac_identity [OF that(1)]
    by (intro dispatch_cookie [OF on(1)]) simp
  ultimately show ?thesis
    using dispatch_solved [OF on(1) solved(4,1,2,3), of ctx]
    by (intro exI [of _ ?v] exI [of _ "'' Path=/; Max-Age='' @ sprint_int ngx (lcf_pow_ttl lcf) @ ''; HttpOnly''"]) simp
qed

theorem solved_challenge_admits_until_expiry_witness:
  "\<forall>ctx. \<exists>v attrs. sentinel_pow_dispatch pow_shim pow_sample_env pow_request pow_lcf ctx =
      (NGX_DECLINED, ctx\<lparr>ctx_pow_state := POW_VERIFIED\<rparr>,
       \<lparr>out_cookie = CookieSet (NGX_SENTINEL_POW_COOKIE @ ''='' @ v @ '';'' @ attrs), out_page = None\<rparr>)"
proof
  fix ctx
  obtain c where c: "sentinel_pow_challenge pow_shim (pe_now pow_sample_env) pow_request pow_lcf = Some c"
    using pow_sample(7) by blast
  show "\<exists>v attrs. sentinel_pow_dispatch pow_shim pow_sample_env pow_request pow_lcf ctx =
      (NGX_DECLINED, ctx\<lparr>ctx_pow_state := POW_VERIFIED\<rparr>,
       \<lparr>out_cookie = CookieSet (NGX_SENTINEL_POW_COOKIE @ ''='' @ v @ '';'' @ attrs), out_page = None\<rparr>)"
    using solved_challenge_admits_until_expiry [OF pow_shim_laws(1,2,4) _ pow_sample(1) _ c pow_sample(5), of ctx]
      pow_sample pow_sample_solved by (force simp: pow_sample_env_def)
qed



text \<open>
  Two facts on replaying the published challenge as a cookie: both are MACs of the address and
  a decimal number under the same key. Under its own address the challenge is useless, since
  its number, the time bucket, is a time that has passed. But the messages do not say where
  the address ends: the challenge of an IPv6 address whose last twelve bytes are digits is the
  MAC of a cookie for the IPv4 address in its first four bytes, with an expiry far ahead.
\<close>

lemma own_challenge_is_no_cookie:
  assumes "decimal_laws ngx" "0 \<le> t" "t < 2 ^ 63" "t \<le> now" "0 < lcf_pow_ttl lcf"
    and "parse_cookie_lines ngx (r_cookie r) NGX_SENTINEL_POW_COOKIE = Some (cookie_value ngx (t div lcf_pow_ttl lcf) c)"
  shows "sentinel_pow_check_cookie ngx now r lcf \<noteq> NGX_OK"
proof -
  let ?b = "t div lcf_pow_ttl lcf"
  have b: "0 \<le> ?b" "?b \<le> t" using assms(2,5) by (auto simp: div_int_pos_iff intro: int_div_less_self order_trans [OF zdiv_mono2 [of t 1 "lcf_pow_ttl lcf"]])
  then have "atotm ngx (sprint_int ngx ?b) = Some ?b" using assms(1,3) by (simp add: decimal_laws_def)
  moreover have "memchr CHR ''.'' (cookie_value ngx ?b c) = Some (length (sprint_int ngx ?b))"
    using digits_no_dot [OF assms(1) b(1)] by (simp add: cookie_value_def memchr_append_notin)
  ultimately show ?thesis
    using assms(4,6) b(2) by (auto simp: sentinel_pow_check_cookie_def cookie_value_def)
qed

lemma ipv6_challenge_is_an_ipv4_cookie:
  assumes "r_sockaddr r6 = Some (AF_INET6 (inet_bytes a @ ds))" "length ds = 12" "r_sockaddr r4 = Some (AF_INET a)"
    and "sprint_int ngx e = ds @ sprint_int ngx (uint (word_of_int (now div pow_ttl_or_1 lcf) :: 64 word))"
  shows "sentinel_pow_cookie_mac ngx r4 lcf e = sentinel_pow_challenge ngx now r6 lcf"
  using assms by (simp add: sentinel_pow_cookie_mac_def sentinel_pow_challenge_def pow_identity_def inet_bytes_def Let_def)

end
