(* ===== verification/Sentinel_Fcrdns.thy ===== *)
theory Sentinel_Fcrdns
  imports Sentinel_Pow Sentinel_Feed
begin

text \<open>
  \<^verbatim>\<open>src/sentinel_fcrdns.c\<close>: forward-confirmed reverse DNS for clients that claim to be a crawler.
  A lookup outlives its request: the heap-allocated carrier is a record, a step returns the
  carrier while a lookup is under way and \<open>None\<close> once it is freed. What nginx's resolver and the
  allocator answer is the record \<open>dns_env\<close>, the two DNS answers are arguments (\<open>None\<close>: no answer).
  A cached verdict is stored as the action byte of a CrowdSec node.
\<close>

definition NGX_SENTINEL_FCRDNS_DEFAULT_TTL :: int where "NGX_SENTINEL_FCRDNS_DEFAULT_TTL = 3600"

record dns_env =
  de_now :: int
  de_resolver :: bool
  de_alloc :: bool
  de_start :: bool
  de_resolve :: bool

record sentinel_fcrdns_carrier =
  fc_zone :: nat
  fc_ttl :: int
  fc_suffixes :: "string list"
  fc_key :: string
  fc_ss :: sockaddr
  fc_ptr_name :: string

subsection \<open>The verdict cache\<close>

text \<open>The verdict and the action tier with the same number. No verdict is stored as 3 or more; the
  signal treats such a byte as it treats a pending one.\<close>

fun verdict_byte :: "fcrdns_verdict \<Rightarrow> cs_action_tier" where
  "verdict_byte FCRDNS_PENDING = CS_NONE"
| "verdict_byte FCRDNS_VERIFIED = CS_BAN"
| "verdict_byte FCRDNS_FAILED = CS_CAPTCHA"

fun byte_verdict :: "cs_action_tier \<Rightarrow> fcrdns_verdict" where
  "byte_verdict CS_NONE = FCRDNS_PENDING"
| "byte_verdict CS_BAN = FCRDNS_VERIFIED"
| "byte_verdict CS_CAPTCHA = FCRDNS_FAILED"
| "byte_verdict CS_THROTTLE = FCRDNS_PENDING"
| "byte_verdict (CS_OTHER b) = FCRDNS_PENDING"

definition sentinel_shm_fcrdns_get :: "ngx_api \<Rightarrow> string \<Rightarrow> int \<Rightarrow> ngx_sentinel_zone option \<Rightarrow>
    fcrdns_verdict \<times> ngx_sentinel_zone option" where
  "sentinel_shm_fcrdns_get ngx key now zone =
     (case sentinel_shm_crowdsec_lookup ngx zone key now of
        ((rc, act), zone) \<Rightarrow> (if rc \<noteq> NGX_BUSY then FCRDNS_PENDING else byte_verdict act, zone))"

definition sentinel_shm_fcrdns_set :: "ngx_api \<Rightarrow> string \<Rightarrow> fcrdns_verdict \<Rightarrow> int \<Rightarrow> int \<Rightarrow>
    ngx_sentinel_zone option \<Rightarrow> ngx_rc \<times> ngx_sentinel_zone option" where
  "sentinel_shm_fcrdns_set ngx key verdict now ttl zone =
     sentinel_shm_crowdsec_upsert ngx zone key (now + ttl) (verdict_byte verdict) 0 now False"

subsection \<open>The lookups\<close>

definition sentinel_fcrdns_finish :: "ngx_api \<Rightarrow> sentinel_fcrdns_carrier \<Rightarrow> fcrdns_verdict \<Rightarrow> int \<Rightarrow>
    ngx_sentinel_zone list \<Rightarrow> ngx_sentinel_zone list" where
  "sentinel_fcrdns_finish ngx c verdict now zs =
     (if verdict \<noteq> FCRDNS_PENDING
      then snd (call_zone (sentinel_shm_fcrdns_set ngx (fc_key c) verdict now (fc_ttl c)) (fc_zone c) zs)
      else zs)"

fun suffix_loop :: "ngx_api \<Rightarrow> string \<Rightarrow> string list \<Rightarrow> bool" where
  "suffix_loop ngx name [] = False"
| "suffix_loop ngx name (suf # sufs) =
     (if length name \<ge> length suf \<and>
         strncasecmp ngx (drop (length name - length suf) name) suf (length suf) = 0 then True
      else suffix_loop ngx name sufs)"

definition sentinel_fcrdns_suffix_ok :: "ngx_api \<Rightarrow> sentinel_fcrdns_carrier \<Rightarrow> string \<Rightarrow> bool" where
  "sentinel_fcrdns_suffix_ok ngx c name =
     (if fc_suffixes c = [] then True else suffix_loop ngx name (fc_suffixes c))"

definition sentinel_fcrdns_resolve_start :: "dns_env \<Rightarrow> request \<Rightarrow> loc_conf \<Rightarrow> nat \<Rightarrow> string \<Rightarrow>
    sentinel_fcrdns_carrier option" where
  "sentinel_fcrdns_resolve_start env r lcf zone key =
     (case r_sockaddr r of
        None \<Rightarrow> None
      | Some sa \<Rightarrow>
          if \<not> de_alloc env then None
          else if \<not> de_start env then None
          else if \<not> de_resolve env then None
          else Some \<lparr>fc_zone = zone,
                     fc_ttl = (if lcf_fcrdns_ttl lcf > 0 then lcf_fcrdns_ttl lcf else NGX_SENTINEL_FCRDNS_DEFAULT_TTL),
                     fc_suffixes = lcf_fcrdns_suffixes lcf,
                     fc_key = take NGX_SENTINEL_DIGEST_LEN key, fc_ss = sa, fc_ptr_name = []\<rparr>)"

definition sentinel_fcrdns_ptr_handler :: "ngx_api \<Rightarrow> dns_env \<Rightarrow> string option \<Rightarrow> sentinel_fcrdns_carrier \<Rightarrow>
    ngx_sentinel_zone list \<Rightarrow> sentinel_fcrdns_carrier option \<times> ngx_sentinel_zone list" where
  "sentinel_fcrdns_ptr_handler ngx env reply c zs =
     (let now = de_now env;
          give_up = (\<lambda>v. (None, sentinel_fcrdns_finish ngx c v now zs))
      in case reply of
           None \<Rightarrow> give_up FCRDNS_PENDING
         | Some name \<Rightarrow>
             if length name = 0 then give_up FCRDNS_PENDING
             else if \<not> sentinel_fcrdns_suffix_ok ngx c name then give_up FCRDNS_FAILED
             else if \<not> de_alloc env then give_up FCRDNS_PENDING
             else if \<not> de_start env then give_up FCRDNS_PENDING
             else if \<not> de_resolve env then give_up FCRDNS_PENDING
             else (Some (c\<lparr>fc_ptr_name := name\<rparr>), zs))"

fun addr_match :: "sockaddr \<Rightarrow> sockaddr list \<Rightarrow> bool" where
  "addr_match orig [] = False"
| "addr_match orig (a # addrs) =
     (case (a, orig) of
        (AF_INET a4, AF_INET o4) \<Rightarrow> if a4 = o4 then True else addr_match orig addrs
      | (AF_INET6 a6, AF_INET6 o6) \<Rightarrow> if a6 = o6 then True else addr_match orig addrs
      | _ \<Rightarrow> addr_match orig addrs)"

definition sentinel_fcrdns_fwd_handler :: "ngx_api \<Rightarrow> dns_env \<Rightarrow> sockaddr list option \<Rightarrow>
    sentinel_fcrdns_carrier \<Rightarrow> ngx_sentinel_zone list \<Rightarrow> ngx_sentinel_zone list" where
  "sentinel_fcrdns_fwd_handler ngx env reply c zs =
     (case reply of
        None \<Rightarrow> sentinel_fcrdns_finish ngx c FCRDNS_PENDING (de_now env) zs
      | Some addrs \<Rightarrow>
          if length addrs = 0 then sentinel_fcrdns_finish ngx c FCRDNS_PENDING (de_now env) zs
          else
            sentinel_fcrdns_finish ngx c
              (if addr_match (fc_ss c) addrs then FCRDNS_VERIFIED else FCRDNS_FAILED) (de_now env) zs)"

subsection \<open>The request path\<close>

text \<open>The bytes of the client's address; \<open>None\<close> for an unknown family.\<close>

fun binary_addr :: "sockaddr \<Rightarrow> string option" where
  "binary_addr (AF_INET a) = Some (inet_bytes a)"
| "binary_addr (AF_INET6 s) = Some s"
| "binary_addr AF_UNIX = None"

definition sentinel_fcrdns_signal :: "ngx_api \<Rightarrow> dns_env \<Rightarrow> request \<Rightarrow> loc_conf \<Rightarrow> inputs \<times> main_conf \<Rightarrow>
    (inputs \<times> main_conf) \<times> sentinel_fcrdns_carrier option" where
  "sentinel_fcrdns_signal ngx env r lcf st =
     (case st of (inp, mcf) \<Rightarrow>
      let inp = inp\<lparr>fcrdns_verified := False, fcrdns_spoofed := False\<rparr>
      in case zone_at (lcf_fcrdns_zone lcf) of
           None \<Rightarrow> ((inp, mcf), None)
         | Some i \<Rightarrow>
             if \<not> known_good_ua inp then ((inp, mcf), None)
             else if r_addr_text r = [] then ((inp, mcf), None)
             else
               (case Option.bind (r_sockaddr r) binary_addr of
                  None \<Rightarrow> ((inp, mcf), None)
                | Some abin \<Rightarrow>
                    let key = sha256 ngx abin
                    in case call_zone (sentinel_shm_fcrdns_get ngx key (de_now env)) i (mcf_fcrdns_zones mcf) of
                         (verdict, zs) \<Rightarrow>
                           let mcf = mcf\<lparr>mcf_fcrdns_zones := zs\<rparr>
                           in if verdict = FCRDNS_VERIFIED then ((inp\<lparr>fcrdns_verified := True\<rparr>, mcf), None)
                              else if verdict = FCRDNS_FAILED then ((inp\<lparr>fcrdns_spoofed := True\<rparr>, mcf), None)
                              else if \<not> de_resolver env then ((inp, mcf), None)
                              else ((inp, mcf), sentinel_fcrdns_resolve_start env r lcf i key)))"

subsection \<open>Caching a verdict\<close>

lemma addr_match_in: "orig \<noteq> AF_UNIX \<Longrightarrow> addr_match orig addrs \<longleftrightarrow> orig \<in> set addrs"
  by (induction addrs) (auto split: sockaddr.splits)

lemma upsert_then_lookup:
  assumes laws: "zone_laws ngx" "slab_room ngx" and inv: "zone_inv ngx sh" and len: "length key < 65536"
    and u: "crowdsec_upsert_locked ngx key e act g now pulled sh = (rc, sh')" and t: "t < e"
  shows "fst (crowdsec_lookup_locked ngx key t z sh') = (NGX_BUSY, act)"
proof -
  have "rc = NGX_OK" by (rule upsert_succeeds [OF laws(2) inv u])
  then have s: "zone_inv ngx sh'" "zone_nodes sh' = upsert_spec ngx key e act g now pulled (zone_nodes sh)"
    using upsert_refines [OF laws(1) inv len u] by auto
  obtain n where n: "find_node key (zone_nodes sh') = Some n" "blocked_until n = e" "cs_action n = act"
    by (simp add: s(2) find_upsert [OF len])
  then have "find_node key (expire_nodes (zone_interval z) t NGX_SENTINEL_EXPIRE_BATCH (zone_nodes sh')) = Some n"
    using t by (intro expire_keeps) auto
  moreover obtain r s2 where r: "crowdsec_lookup_locked ngx key t z sh' = (r, s2)" by fastforce
  ultimately show ?thesis
    using cs_lookup_refines [OF laws(1) s(1) r] n t by (simp add: cs_lookup_spec_def Let_def)
qed

lemma finish_then_get:
  assumes laws: "zone_laws ngx" "slab_room ngx"
    and z: "fc_zone c < length zs" "zone_sh (zs ! fc_zone c) = Some sh" "zone_inv ngx sh"
    and key: "length (fc_key c) < 65536" and v: "v \<noteq> FCRDNS_PENDING" and t: "t < now + fc_ttl c"
  shows "fst (call_zone (sentinel_shm_fcrdns_get ngx (fc_key c) t) (fc_zone c) (sentinel_fcrdns_finish ngx c v now zs)) = v"
proof -
  obtain rc sh' where u: "crowdsec_upsert_locked ngx (fc_key c) (now + fc_ttl c) (verdict_byte v) 0 now False sh = (rc, sh')"
    by fastforce
  let ?z = "(zs ! fc_zone c)\<lparr>zone_sh := Some sh'\<rparr>"
  have f: "sentinel_fcrdns_finish ngx c v now zs = zs[fc_zone c := ?z]"
    using v z(1,2) u by (simp add: sentinel_fcrdns_finish_def call_zone_def sentinel_shm_fcrdns_set_def
        sentinel_shm_crowdsec_upsert_def on_zone_def)
  obtain r s2 where l: "crowdsec_lookup_locked ngx (fc_key c) t ?z sh' = (r, s2)" by fastforce
  have "r = (NGX_BUSY, verdict_byte v)" using upsert_then_lookup [OF laws z(3) key u t, of ?z] l by simp
  moreover have "byte_verdict (verdict_byte v) = v" by (cases v) auto
  ultimately show ?thesis
    using z(1) l unfolding f
    by (simp add: call_zone_def sentinel_shm_fcrdns_get_def sentinel_shm_crowdsec_lookup_def on_zone_def)
qed

text \<open>A whole verification: the PTR answer, then the answer of the forward lookup if there is one.\<close>

definition fcrdns_chain :: "ngx_api \<Rightarrow> dns_env \<Rightarrow> string option \<Rightarrow> dns_env \<Rightarrow> sockaddr list option \<Rightarrow>
    sentinel_fcrdns_carrier \<Rightarrow> ngx_sentinel_zone list \<Rightarrow> ngx_sentinel_zone list" where
  "fcrdns_chain ngx env1 ptr env2 fwd c zs =
     (case sentinel_fcrdns_ptr_handler ngx env1 ptr c zs of
        (None, zs) \<Rightarrow> zs
      | (Some c, zs) \<Rightarrow> sentinel_fcrdns_fwd_handler ngx env2 fwd c zs)"

definition dns_works :: "dns_env \<Rightarrow> bool" where
  "dns_works env \<longleftrightarrow> de_alloc env \<and> de_start env \<and> de_resolve env"

lemma chain_answered:
  assumes "dns_works env1" "name \<noteq> []" "addrs \<noteq> []" "fc_ss c \<noteq> AF_UNIX"
  shows "\<exists>now \<in> {de_now env1, de_now env2}. fcrdns_chain ngx env1 (Some name) env2 (Some addrs) c zs =
    sentinel_fcrdns_finish ngx c (if sentinel_fcrdns_suffix_ok ngx c name \<and> fc_ss c \<in> set addrs
      then FCRDNS_VERIFIED else FCRDNS_FAILED) now zs"
  using assms
  by (auto simp: fcrdns_chain_def sentinel_fcrdns_ptr_handler_def sentinel_fcrdns_fwd_handler_def dns_works_def Let_def
      addr_match_in sentinel_fcrdns_finish_def)

lemma no_answer_keeps_cache:
  assumes "ptr \<in> {None, Some []} \<or> fwd \<in> {None, Some []} \<and> sentinel_fcrdns_suffix_ok ngx c (the ptr)"
  shows "fcrdns_chain ngx env1 ptr env2 fwd c zs = zs"
  using assms
  by (auto simp: fcrdns_chain_def sentinel_fcrdns_ptr_handler_def sentinel_fcrdns_fwd_handler_def Let_def
      sentinel_fcrdns_finish_def split: option.splits)

definition dns_sample :: dns_env where
  "dns_sample = \<lparr>de_now = 100, de_resolver = True, de_alloc = True, de_start = True, de_resolve = True\<rparr>"

definition dns_request :: request where
  "dns_request = browser_request\<lparr>r_sockaddr := Some (AF_INET 3221225985), r_addr_text := ''192.0.2.1''\<rparr>"

definition dns_lcf :: loc_conf where
  "dns_lcf = default_loc_conf\<lparr>lcf_fcrdns_zone := ZAt 0\<rparr>"

lemma signal_cached:
  assumes "lcf_fcrdns_zone lcf = ZAt i" "known_good_ua inp" "r_addr_text r \<noteq> []" "r_sockaddr r = Some sa"
    and "binary_addr sa = Some abin"
    and "call_zone (sentinel_shm_fcrdns_get ngx (sha256 ngx abin) (de_now env)) i (mcf_fcrdns_zones mcf) =
      (if V then FCRDNS_VERIFIED else FCRDNS_FAILED, zs)"
  shows "fst (fst (sentinel_fcrdns_signal ngx env r lcf (inp, mcf))) = inp\<lparr>fcrdns_verified := V, fcrdns_spoofed := \<not> V\<rparr>"
proof (cases V)
  case True
  then show ?thesis using assms by (simp add: sentinel_fcrdns_signal_def)
next
  case False
  then show ?thesis using assms by (simp add: sentinel_fcrdns_signal_def)
qed

subsection \<open>Properties\<close>

text \<open>
  Claim C24: a crawler claim is decided by DNS. A request whose verdict is pending starts a lookup;
  once the PTR name and its forward addresses are known, every later request of that address
  within the cache time is marked verified exactly when the name has an allowed suffix and the
  forward addresses contain the client's, and spoofed otherwise.
\<close>

theorem crawler_claim_is_decided_by_dns:
  assumes laws: "zone_laws ngx" "slab_room ngx" "digest_laws ngx"
    and conf: "lcf_fcrdns_zone lcf = ZAt i" "i < length zs" "zone_sh (zs ! i) = Some sh" "zone_inv ngx sh"
    and client: "r_sockaddr r = Some sa" "binary_addr sa = Some abin" "r_sockaddr r' = Some sa" "r_addr_text r' \<noteq> []"
    and started: "sentinel_fcrdns_resolve_start env0 r lcf i (sha256 ngx abin) = Some c"
    and dns: "dns_works env1" "name \<noteq> []" "addrs \<noteq> []"
    and later: "known_good_ua inp" "mcf_fcrdns_zones mcf = fcrdns_chain ngx env1 (Some name) env2 (Some addrs) c zs"
      "de_now env3 < min (de_now env1) (de_now env2) + fc_ttl c"
  shows "fst (fst (sentinel_fcrdns_signal ngx env3 r' lcf (inp, mcf))) =
    inp\<lparr>fcrdns_verified := sentinel_fcrdns_suffix_ok ngx c name \<and> sa \<in> set addrs,
        fcrdns_spoofed := \<not> (sentinel_fcrdns_suffix_ok ngx c name \<and> sa \<in> set addrs)\<rparr>"
proof -
  let ?k = "sha256 ngx abin"
  have len: "length ?k = 32" using laws(3) by (simp add: digest_laws_def)
  have c: "fc_zone c = i" "fc_key c = ?k" "fc_ss c = sa"
    using started client(1) len
    by (auto simp: sentinel_fcrdns_resolve_start_def NGX_SENTINEL_DIGEST_LEN_def split: if_splits)
  have "sa \<noteq> AF_UNIX" using client(2) by auto
  with chain_answered [OF dns, of c env2 ngx zs] obtain now where now: "now \<in> {de_now env1, de_now env2}"
    "mcf_fcrdns_zones mcf = sentinel_fcrdns_finish ngx c (if sentinel_fcrdns_suffix_ok ngx c name \<and> sa \<in> set addrs
      then FCRDNS_VERIFIED else FCRDNS_FAILED) now zs" (is "_ = sentinel_fcrdns_finish ngx c ?v now zs")
    using later(2) c(3) by auto
  have "de_now env3 < now + fc_ttl c" using now(1) later(3) by auto
  then have "fst (call_zone (sentinel_shm_fcrdns_get ngx ?k (de_now env3)) i (mcf_fcrdns_zones mcf)) = ?v"
    using finish_then_get [OF laws(1,2), of c zs sh ?v "de_now env3" now] conf(2-4) c len by (simp add: now(2))
  then have g: "call_zone (sentinel_shm_fcrdns_get ngx ?k (de_now env3)) i (mcf_fcrdns_zones mcf) =
      (?v, snd (call_zone (sentinel_shm_fcrdns_get ngx ?k (de_now env3)) i (mcf_fcrdns_zones mcf)))"
    by (simp add: prod_eq_iff)
  show ?thesis by (rule signal_cached [OF conf(1) later(1) client(4,3,2) g])
qed

theorem crawler_claim_is_decided_by_dns_witness:
  "\<exists>c. sentinel_fcrdns_resolve_start dns_sample dns_request dns_lcf 0 (sha256 feed_shim (inet_bytes 3221225985)) = Some c \<and>
     fst (fst (sentinel_fcrdns_signal feed_shim dns_sample dns_request dns_lcf
       (zero_inputs\<lparr>known_good_ua := True\<rparr>,
        ngx_sentinel_create_main_conf\<lparr>mcf_fcrdns_zones := fcrdns_chain feed_shim dns_sample (Some ''a'') dns_sample
          (Some [AF_INET 1]) c [sample_zone]\<rparr>))) =
     zero_inputs\<lparr>known_good_ua := True, fcrdns_verified := False, fcrdns_spoofed := True\<rparr>"
proof -
  obtain c where c: "sentinel_fcrdns_resolve_start dns_sample dns_request dns_lcf 0
      (sha256 feed_shim (inet_bytes 3221225985)) = Some c" "fc_ttl c = 3600"
    by (simp add: sentinel_fcrdns_resolve_start_def dns_sample_def dns_request_def dns_lcf_def default_loc_conf_def)
  have l: "lcf_fcrdns_zone dns_lcf = ZAt 0" by (simp add: dns_lcf_def)
  have r: "r_sockaddr dns_request = Some (AF_INET 3221225985)" "r_addr_text dns_request \<noteq> []"
    by (simp_all add: dns_request_def)
  have z: "0 < length [sample_zone]" "zone_sh ([sample_zone] ! 0) = Some fresh_shctx" by simp_all
  have w: "dns_works dns_sample" "de_now dns_sample = 100" by (simp_all add: dns_works_def dns_sample_def)
  show ?thesis
    using crawler_claim_is_decided_by_dns [OF feed_shim_laws(1,6,2) l z fresh_inv r(1) _ r c(1) w(1), of "''a''" "[AF_INET 1]"
        "zero_inputs\<lparr>known_good_ua := True\<rparr>"
        "ngx_sentinel_create_main_conf\<lparr>mcf_fcrdns_zones := fcrdns_chain feed_shim dns_sample (Some ''a'') dns_sample
          (Some [AF_INET 1]) c [sample_zone]\<rparr>" dns_sample dns_sample] c w(2)
    by simp
qed

end
