(* ===== verification/Sentinel_Tarpit.thy ===== *)
theory Sentinel_Tarpit
  imports Sentinel_Feed
begin

text \<open>
  \<^verbatim>\<open>src/sentinel_tarpit.c\<close>: connections that are held and dripped. The shared array of per-worker
  counters is \<open>mcf_tarpit_conns\<close>. A tarpitted connection is the record \<open>tarpit_conn\<close>: the tarpit
  context, whether it is the request's module context, the references the tarpit added to
  \<open>r->main->count\<close>, the timer, the code the request was finalized with, and the bytes that the
  output filter took. Times are milliseconds (\<^typ>\<open>nat\<close>); what nginx answers in one event is a
  record. \<open>sentinel_tarpit_reserve\<close> is the round in which the compare-and-set succeeds, with
  nobody else writing in between; \<open>tarpit_step\<close> has its interleavings.
\<close>

definition NGX_SENTINEL_TARPIT_TICK_MAX :: nat where "NGX_SENTINEL_TARPIT_TICK_MAX = 65536"
definition NGX_SENTINEL_TARPIT_TICK_BYTES :: nat where "NGX_SENTINEL_TARPIT_TICK_BYTES = 32"
definition NGX_SENTINEL_TARPIT_MAZE_FRAG :: nat where "NGX_SENTINEL_TARPIT_MAZE_FRAG = 64"

record sentinel_tarpit_ctx =
  tp_deadline :: nat
  tp_bytes_sent :: nat
  tp_bytes_total :: nat
  tp_delay_ms :: nat
  tp_slot :: nat
  tp_rng :: "32 word"
  tp_counted :: bool
  tp_maze :: bool

record tarpit_conn =
  cn_tctx :: sentinel_tarpit_ctx
  cn_has_ctx :: bool
  cn_refs :: nat
  cn_timer :: "nat option"
  cn_final :: "ngx_rc option"
  cn_sent :: string

record tick_env =
  tk_now :: nat
  tk_dead :: bool
  tk_output :: ngx_rc
  tk_write_event :: bool

record start_env =
  st_now :: nat
  st_entropy :: "32 word"
  st_alloc :: bool
  st_cleanup :: bool
  st_header :: ngx_rc

definition drip_buf :: string where
  "drip_buf = replicate (NGX_SENTINEL_TARPIT_TICK_MAX - 1) CHR '' '' @ [NL]"

subsection \<open>The counters\<close>

definition tarpit_bump :: "nat \<Rightarrow> 64 word list \<Rightarrow> 64 word list" where
  "tarpit_bump slot conns = conns[slot := conns ! slot + 1]"

definition tarpit_drop :: "nat \<Rightarrow> 64 word list \<Rightarrow> 64 word list" where
  "tarpit_drop slot conns = conns[slot := conns ! slot - 1]"

definition sentinel_tarpit_cleanup :: "tarpit_conn \<Rightarrow> 64 word list \<Rightarrow> tarpit_conn \<times> 64 word list" where
  "sentinel_tarpit_cleanup cn conns =
     (if \<not> tp_counted (cn_tctx cn) then (cn, conns)
      else (cn\<lparr>cn_tctx := (cn_tctx cn)\<lparr>tp_counted := False\<rparr>\<rparr>, tarpit_drop (tp_slot (cn_tctx cn)) conns))"

definition sentinel_tarpit_sum :: "64 word list option \<Rightarrow> 64 word" where
  "sentinel_tarpit_sum conns = (case conns of None \<Rightarrow> 0 | Some cs \<Rightarrow> sum_list cs)"

definition tarpit_worker :: "nat \<Rightarrow> 64 word list \<Rightarrow> nat" where
  "tarpit_worker worker cs = (if worker \<ge> length cs then 0 else worker)"

definition tarpit_at_cap :: "64 word list \<Rightarrow> 64 word \<Rightarrow> bool" where
  "tarpit_at_cap cs max_conns \<longleftrightarrow> sentinel_tarpit_sum (Some cs) \<ge> max_conns"

definition sentinel_tarpit_reserve :: "nat \<Rightarrow> 64 word list option \<Rightarrow> 64 word \<Rightarrow>
    ngx_rc \<times> nat \<times> 64 word list option" where
  "sentinel_tarpit_reserve worker conns max_conns =
     (case conns of
        None \<Rightarrow> (NGX_ERROR, 0, conns)
      | Some cs \<Rightarrow>
          if max_conns = 0 then (NGX_ERROR, 0, conns)
          else
            let slot = tarpit_worker worker cs
            in if tarpit_at_cap cs max_conns then (NGX_HTTP_CLOSE, slot, conns)
               else (NGX_OK, slot, Some (tarpit_bump slot cs)))"

definition sentinel_tarpit_init_process :: "nat \<Rightarrow> 64 word list option \<Rightarrow> 64 word list option" where
  "sentinel_tarpit_init_process worker conns =
     (case conns of None \<Rightarrow> None | Some cs \<Rightarrow> Some (cs[tarpit_worker worker cs := 0]))"

subsection \<open>Dripping\<close>

definition sentinel_tarpit_finish :: "tarpit_conn \<Rightarrow> tarpit_conn" where
  "sentinel_tarpit_finish cn = cn\<lparr>cn_refs := cn_refs cn - 1, cn_final := Some NGX_HTTP_CLOSE\<rparr>"

fun maze_digits :: "nat \<Rightarrow> 32 word \<Rightarrow> string \<times> 32 word" where
  "maze_digits 0 rng = ([], rng)"
| "maze_digits (Suc n) rng =
     (let rng = rng * 1664525 + 1013904223;
          d = ''0123456789abcdef'' ! (unat (drop_bit 24 rng) mod 16)
      in case maze_digits n rng of (ds, rng) \<Rightarrow> (d # ds, rng))"

definition sentinel_tarpit_maze_fragment :: "sentinel_tarpit_ctx \<Rightarrow> string \<times> sentinel_tarpit_ctx" where
  "sentinel_tarpit_maze_fragment t =
     (case maze_digits 16 (tp_rng t) of
        (ds, rng) \<Rightarrow>
          (''<a href='' @ [CHR 0x22] @ ''/'' @ ds @ ''/'' @ [CHR 0x22] @ ''>x</a>'' @ [NL], t\<lparr>tp_rng := rng\<rparr>))"

definition tarpit_data :: "sentinel_tarpit_ctx \<Rightarrow> string \<times> sentinel_tarpit_ctx" where
  "tarpit_data t =
     (let tick_bytes = tp_bytes_total t - tp_bytes_sent t
      in if tp_maze t
         then (case sentinel_tarpit_maze_fragment t of
                 (frag, t) \<Rightarrow>
                   (take (if tick_bytes > length frag then length frag else tick_bytes) frag, t))
         else (take (if tick_bytes > NGX_SENTINEL_TARPIT_TICK_BYTES then NGX_SENTINEL_TARPIT_TICK_BYTES
                     else tick_bytes) drip_buf, t))"

definition tarpit_wait :: "nat \<Rightarrow> sentinel_tarpit_ctx \<Rightarrow> nat" where
  "tarpit_wait now t =
     (if now \<ge> tp_deadline t then tp_delay_ms t
      else if tp_deadline t - now > tp_delay_ms t then tp_delay_ms t else tp_deadline t - now)"

definition tarpit_abort :: "tarpit_conn \<Rightarrow> tarpit_conn" where
  "tarpit_abort cn = cn\<lparr>cn_refs := cn_refs cn - 1, cn_final := Some NGX_ERROR\<rparr>"

definition sentinel_tarpit_write_handler :: "tick_env \<Rightarrow> tarpit_conn \<Rightarrow> tarpit_conn" where
  "sentinel_tarpit_write_handler env cn =
     (if \<not> cn_has_ctx cn then sentinel_tarpit_finish cn
      else
        let t = cn_tctx cn
        in if tk_now env \<ge> tp_deadline t \<or> tp_bytes_sent t \<ge> tp_bytes_total t
           then sentinel_tarpit_finish cn
           else if tk_dead env then sentinel_tarpit_finish cn
           else
             (case tarpit_data t of
                (data, t) \<Rightarrow>
                  let cn = cn\<lparr>cn_tctx := t\<rparr>
                  in if tk_output env = NGX_ERROR then tarpit_abort cn
                     else if tk_output env = NGX_AGAIN then
                       if \<not> tk_write_event env then tarpit_abort cn
                       else cn\<lparr>cn_timer := Some (tarpit_wait (tk_now env) t)\<rparr>
                     else
                       let t = t\<lparr>tp_bytes_sent := tp_bytes_sent t + length data\<rparr>;
                           cn = cn\<lparr>cn_tctx := t, cn_sent := cn_sent cn @ data\<rparr>
                       in if tp_bytes_sent t \<ge> tp_bytes_total t \<or> tk_now env \<ge> tp_deadline t
                          then sentinel_tarpit_finish cn
                          else cn\<lparr>cn_timer := Some (tarpit_wait (tk_now env) t)\<rparr>))"

text \<open>The event handler runs the write handler and then nginx's posted requests.\<close>

definition sentinel_tarpit_timer_handler :: "tick_env \<Rightarrow> tarpit_conn \<Rightarrow> tarpit_conn" where
  "sentinel_tarpit_timer_handler env cn = sentinel_tarpit_write_handler env (cn\<lparr>cn_timer := None\<rparr>)"

subsection \<open>Entry\<close>

definition sentinel_tarpit_start :: "start_env \<Rightarrow> nat \<Rightarrow> loc_conf \<Rightarrow> 64 word list option \<Rightarrow>
    ngx_rc \<times> 64 word list option \<times> tarpit_conn option" where
  "sentinel_tarpit_start env worker lcf conns =
     (case sentinel_tarpit_reserve worker conns (word_of_int (lcf_tarpit_max_conns lcf)) of
        (rc, slot, conns') \<Rightarrow>
          if rc = NGX_HTTP_CLOSE then (NGX_HTTP_CLOSE, conns', None)
          else if rc = NGX_ERROR then (NGX_DECLINED, conns', None)
          else if \<not> st_alloc env then (NGX_DECLINED, map_option (tarpit_drop slot) conns', None)
          else
            let t = \<lparr>tp_deadline = st_now env + nat (lcf_tarpit_max_lifetime lcf), tp_bytes_sent = 0,
                     tp_bytes_total = nat (lcf_tarpit_bytes lcf), tp_delay_ms = nat (lcf_tarpit_delay lcf),
                     tp_slot = slot, tp_rng = xor (of_nat (st_now env)) (st_entropy env),
                     tp_counted = False, tp_maze = (lcf_tarpit_maze lcf \<noteq> 0)\<rparr>
            in if \<not> st_cleanup env then (NGX_DECLINED, map_option (tarpit_drop slot) conns', None)
               else
                 let cn = \<lparr>cn_tctx = t\<lparr>tp_counted := True\<rparr>, cn_has_ctx = False, cn_refs = 0,
                           cn_timer = None, cn_final = None, cn_sent = []\<rparr>
                 in if st_header env = NGX_ERROR
                    then (NGX_DONE, conns', Some (cn\<lparr>cn_final := Some NGX_ERROR\<rparr>))
                    else if (case st_header env of NGX_STATUS n \<Rightarrow> n > 0 | _ \<Rightarrow> False)
                    then (NGX_DONE, conns', Some (cn\<lparr>cn_final := Some NGX_DONE\<rparr>))
                    else (NGX_DONE, conns',
                          Some (cn\<lparr>cn_has_ctx := True, cn_refs := 1, cn_timer := Some (tp_delay_ms t)\<rparr>)))"

subsection \<open>A tick\<close>

lemma maze_digits_length: "maze_digits n rng = (ds, rng') \<Longrightarrow> length ds = n"
  by (induction n arbitrary: rng ds) (auto simp: Let_def split: prod.splits)

lemma maze_fragment:
  assumes "sentinel_tarpit_maze_fragment t = (frag, t')"
  shows "length frag = 35" "length frag \<le> NGX_SENTINEL_TARPIT_MAZE_FRAG" "t' = t\<lparr>tp_rng := tp_rng t'\<rparr>"
proof -
  obtain ds rng where d: "maze_digits 16 (tp_rng t) = (ds, rng)" by fastforce
  then show l: "length frag = 35" "t' = t\<lparr>tp_rng := tp_rng t'\<rparr>"
    using assms maze_digits_length [OF d] by (auto simp: sentinel_tarpit_maze_fragment_def)
  then show "length frag \<le> NGX_SENTINEL_TARPIT_MAZE_FRAG" by (simp add: NGX_SENTINEL_TARPIT_MAZE_FRAG_def)
qed

lemma tarpit_data:
  assumes "tarpit_data t = (data, t')"
  shows "length data \<le> tp_bytes_total t - tp_bytes_sent t" "t' = t\<lparr>tp_rng := tp_rng t'\<rparr>"
    "tp_bytes_sent t < tp_bytes_total t \<Longrightarrow> data \<noteq> []"
proof -
  have b: "length drip_buf = 65536" by (simp add: drip_buf_def NGX_SENTINEL_TARPIT_TICK_MAX_def)
  have "length data \<le> tp_bytes_total t - tp_bytes_sent t \<and> t' = t\<lparr>tp_rng := tp_rng t'\<rparr> \<and>
      (tp_bytes_sent t < tp_bytes_total t \<longrightarrow> 0 < length data)"
  proof (cases "tp_maze t")
    case True
    obtain frag t1 where f: "sentinel_tarpit_maze_fragment t = (frag, t1)" by fastforce
    then show ?thesis using assms True maze_fragment [OF f] by (auto simp: tarpit_data_def Let_def split: if_splits)
  next
    case False
    then show ?thesis
      using assms b by (auto simp: tarpit_data_def Let_def NGX_SENTINEL_TARPIT_TICK_BYTES_def split: if_splits)
  qed
  then show "length data \<le> tp_bytes_total t - tp_bytes_sent t" "t' = t\<lparr>tp_rng := tp_rng t'\<rparr>"
    "tp_bytes_sent t < tp_bytes_total t \<Longrightarrow> data \<noteq> []" by auto
qed

text \<open>A connection that is held: it owns a reference and a slot, and its timer is armed.\<close>

definition held :: "tarpit_conn \<Rightarrow> bool" where
  "held cn \<longleftrightarrow> cn_has_ctx cn \<and> tp_counted (cn_tctx cn) \<and> tp_bytes_sent (cn_tctx cn) = length (cn_sent cn) \<and>
     length (cn_sent cn) \<le> tp_bytes_total (cn_tctx cn) \<and>
     (case cn_final cn of None \<Rightarrow> cn_refs cn = 1 | Some rc \<Rightarrow> cn_refs cn = 0)"

lemma tick:
  assumes h: "held cn" "cn_final cn = None" and cn': "cn' = sentinel_tarpit_write_handler env cn"
  shows "held cn'"
    and "tp_deadline (cn_tctx cn') = tp_deadline (cn_tctx cn)" "tp_delay_ms (cn_tctx cn') = tp_delay_ms (cn_tctx cn)"
      "tp_bytes_total (cn_tctx cn') = tp_bytes_total (cn_tctx cn)" "tp_slot (cn_tctx cn') = tp_slot (cn_tctx cn)"
    and "cn_final cn' = None \<Longrightarrow> tk_now env < tp_deadline (cn_tctx cn) \<and>
      cn_timer cn' = Some (min (tp_delay_ms (cn_tctx cn)) (tp_deadline (cn_tctx cn) - tk_now env))"
proof -
  obtain data t where d: "tarpit_data (cn_tctx cn) = (data, t)" by fastforce
  have t: "length data \<le> tp_bytes_total (cn_tctx cn) - tp_bytes_sent (cn_tctx cn)"
    "tp_deadline t = tp_deadline (cn_tctx cn)" "tp_delay_ms t = tp_delay_ms (cn_tctx cn)"
    "tp_bytes_total t = tp_bytes_total (cn_tctx cn)" "tp_slot t = tp_slot (cn_tctx cn)"
    "tp_bytes_sent t = tp_bytes_sent (cn_tctx cn)" "tp_counted t = tp_counted (cn_tctx cn)"
    using tarpit_data(1) [OF d] by simp (subst tarpit_data(2) [OF d], simp)+
  note defs = cn' sentinel_tarpit_write_handler_def Let_def d t sentinel_tarpit_finish_def tarpit_abort_def tarpit_wait_def
  show "held cn'" using h t(1) by (simp add: defs held_def) linarith
  show "tp_deadline (cn_tctx cn') = tp_deadline (cn_tctx cn)" by (simp add: defs)
  show "tp_delay_ms (cn_tctx cn') = tp_delay_ms (cn_tctx cn)" by (simp add: defs)
  show "tp_bytes_total (cn_tctx cn') = tp_bytes_total (cn_tctx cn)" by (simp add: defs)
  show "tp_slot (cn_tctx cn') = tp_slot (cn_tctx cn)" by (simp add: defs)
  show "cn_final cn' = None \<Longrightarrow> tk_now env < tp_deadline (cn_tctx cn) \<and>
      cn_timer cn' = Some (min (tp_delay_ms (cn_tctx cn)) (tp_deadline (cn_tctx cn) - tk_now env))"
    using h by (simp add: defs held_def split: if_splits)
qed

lemma tick_at_deadline:
  "tp_deadline (cn_tctx cn) \<le> tk_now env \<Longrightarrow> cn_final (sentinel_tarpit_write_handler env cn) = Some NGX_HTTP_CLOSE"
  by (simp add: sentinel_tarpit_write_handler_def Let_def sentinel_tarpit_finish_def)

text \<open>The ticks that the timer drives: each comes when the timer of the one before fires, and
  what nginx answers in each is arbitrary. The result is the connection and the time.\<close>

fun timer_ticks :: "nat \<Rightarrow> (nat \<Rightarrow> tick_env) \<Rightarrow> nat \<Rightarrow> tarpit_conn \<Rightarrow> tarpit_conn \<times> nat" where
  "timer_ticks 0 envs now cn = (cn, now)"
| "timer_ticks (Suc n) envs now cn =
     (if cn_final cn \<noteq> None then (cn, now)
      else
        let cn' = sentinel_tarpit_timer_handler ((envs n)\<lparr>tk_now := now\<rparr>) cn
        in timer_ticks n envs (case cn_timer cn' of None \<Rightarrow> now | Some w \<Rightarrow> now + w) cn')"

lemma timer_ticks_final: "cn_final cn \<noteq> None \<Longrightarrow> timer_ticks n envs now cn = (cn, now)"
  by (cases n) auto

lemma final_keeps_time:
  "cn_final cn = None \<Longrightarrow> cn_final (sentinel_tarpit_timer_handler env cn) \<noteq> None \<Longrightarrow> cn_timer (sentinel_tarpit_timer_handler env cn) = None"
  by (auto simp: sentinel_tarpit_timer_handler_def sentinel_tarpit_write_handler_def Let_def sentinel_tarpit_finish_def
      tarpit_abort_def split: if_splits prod.splits)

text \<open>The number of delays that fit before the deadline, rounded up, and a last tick.\<close>

definition tick_bound :: "nat \<Rightarrow> sentinel_tarpit_ctx \<Rightarrow> nat" where
  "tick_bound now t = Suc ((tp_deadline t - now + tp_delay_ms t - 1) div tp_delay_ms t)"

lemma tick_bound_step:
  assumes "0 < tp_delay_ms t" "now < tp_deadline t" "tp_delay_ms t' = tp_delay_ms t" "tp_deadline t' = tp_deadline t"
  shows "Suc (tick_bound (now + min (tp_delay_ms t) (tp_deadline t - now)) t') \<le> tick_bound now t"
proof -
  let ?d = "tp_delay_ms t" and ?r = "tp_deadline t - now"
  have "?r + ?d - 1 = (?r - 1) + ?d" using assms(2) by linarith
  moreover have "((?r - 1) + ?d) div ?d = Suc ((?r - 1) div ?d)" using assms(1) by (simp only: div_add_self2 Suc_eq_plus1)
  ultimately have s: "(?r + ?d - 1) div ?d = Suc ((?r - 1) div ?d)" by (simp only:)
  show ?thesis
  proof (cases "?d \<le> ?r")
    case True
    then have e: "tp_deadline t - (now + ?d) + ?d - 1 = ?r - 1" by linarith
    show ?thesis unfolding tick_bound_def assms(3,4) min_absorb1 [OF True] e s by simp
  next
    case False
    then have e: "min ?d ?r = ?r" "(tp_deadline t - (now + ?r) + ?d - 1) div ?d = 0" using assms(1,2) by auto
    show ?thesis unfolding tick_bound_def assms(3,4) e s by simp
  qed
qed

lemma ticks_end:
  assumes delay: "0 < tp_delay_ms (cn_tctx cn)" and h: "held cn"
  shows "tick_bound now (cn_tctx cn) \<le> n \<Longrightarrow>
    timer_ticks n envs now cn = (cn', t) \<Longrightarrow>
    cn_final cn' \<noteq> None \<and> held cn' \<and> t \<le> max now (tp_deadline (cn_tctx cn)) \<and>
    tp_bytes_total (cn_tctx cn') = tp_bytes_total (cn_tctx cn)"
  using assms
proof (induction n arbitrary: now cn)
  case (Suc n)
  show ?case
  proof (cases "cn_final cn = None")
    case False
    then show ?thesis using Suc.prems by (auto simp: timer_ticks_final)
  next
    case True
    let ?e = "(envs n)\<lparr>tk_now := now\<rparr>"
    define c1 where "c1 = sentinel_tarpit_timer_handler ?e cn"
    let ?T = "cn_tctx cn"
    have "held (cn\<lparr>cn_timer := None\<rparr>)" using Suc.prems(4) True by (simp add: held_def)
    note t = tick [OF this _ c1_def [unfolded sentinel_tarpit_timer_handler_def], simplified, OF True]
    show ?thesis
    proof (cases "cn_final c1 = None")
      case False
      then have "timer_ticks (Suc n) envs now cn = (c1, now)"
        using True final_keeps_time [of cn ?e] by (simp add: c1_def [symmetric] timer_ticks_final)
      then show ?thesis using Suc.prems(2) False t(1,4) by auto
    next
      case open1: True
      let ?w = "min (tp_delay_ms ?T) (tp_deadline ?T - now)"
      have w: "now < tp_deadline ?T" "cn_timer c1 = Some ?w" using t(6) [OF open1] by auto
      have run: "timer_ticks n envs (now + ?w) c1 = (cn', t)"
        using Suc.prems(2) True by (simp add: c1_def [symmetric] w(2))
      have m: "tick_bound (now + ?w) (cn_tctx c1) \<le> n"
        using tick_bound_step [OF Suc.prems(3) w(1) t(3,2)] Suc.prems(1) by linarith
      show ?thesis using Suc.IH [OF m run] t w(1) Suc.prems(3) by auto
    qed
  qed
qed (simp add: tick_bound_def)

subsection \<open>Accounting\<close>

text \<open>
  The workers of one generation: the counters, the slots of the counted connections, and the
  workers that have seen the sum below the cap and not yet done their compare-and-set. A
  worker's own slot is written by it alone, so that its compare-and-set succeeds. \<open>restart\<close>
  is a worker that was killed: its connections are gone without a cleanup, and its successor
  runs \<open>sentinel_tarpit_init_process\<close>.
\<close>

record tarpit_world =
  tw_conns :: "64 word list"
  tw_live :: "nat list"
  tw_pending :: "nat set"

inductive tarpit_step :: "64 word \<Rightarrow> tarpit_world \<Rightarrow> tarpit_world \<Rightarrow> bool" for max_conns where
  check: "w < length (tw_conns s) \<Longrightarrow> w \<notin> tw_pending s \<Longrightarrow> \<not> tarpit_at_cap (tw_conns s) max_conns \<Longrightarrow>
    tarpit_step max_conns s (s\<lparr>tw_pending := insert w (tw_pending s)\<rparr>)"
| reserve: "w \<in> tw_pending s \<Longrightarrow>
    tarpit_step max_conns s (s\<lparr>tw_conns := tarpit_bump w (tw_conns s), tw_live := w # tw_live s,
      tw_pending := tw_pending s - {w}\<rparr>)"
| cleanup: "tw_live s = xs @ w # ys \<Longrightarrow>
    tarpit_step max_conns s (s\<lparr>tw_conns := tarpit_drop w (tw_conns s), tw_live := xs @ ys\<rparr>)"
| restart: "w < length (tw_conns s) \<Longrightarrow> sentinel_tarpit_init_process w (Some (tw_conns s)) = Some cs \<Longrightarrow>
    tarpit_step max_conns s (s\<lparr>tw_conns := cs, tw_live := filter (\<lambda>v. v \<noteq> w) (tw_live s),
      tw_pending := tw_pending s - {w}\<rparr>)"

inductive tarpit_reach :: "64 word \<Rightarrow> tarpit_world \<Rightarrow> tarpit_world \<Rightarrow> bool" for max_conns where
  tarpit_stay: "tarpit_reach max_conns s s"
| tarpit_event: "tarpit_reach max_conns s s' \<Longrightarrow> tarpit_step max_conns s' s'' \<Longrightarrow> tarpit_reach max_conns s s''"

text \<open>Every counter is the number of its worker's connections, and with the pending ones there
  are fewer than the cap plus one per worker.\<close>

definition tarpit_inv :: "nat \<Rightarrow> 64 word \<Rightarrow> tarpit_world \<Rightarrow> bool" where
  "tarpit_inv W max_conns s \<longleftrightarrow>
     tw_conns s = map (\<lambda>w. of_nat (count_list (tw_live s) w)) [0..<W] \<and> set (tw_live s) \<subseteq> {..<W} \<and>
     tw_pending s \<subseteq> {..<W} \<and> length (tw_live s) + card (tw_pending s) < unat max_conns + W"

lemma sum_count_list: "set xs \<subseteq> {..<W} \<Longrightarrow> (\<Sum>w\<leftarrow>[0..<W]. count_list xs w) = length xs"
  using sum_count_set [of xs "{..<W}"] by (simp add: interv_sum_list_conv_sum_set_nat atLeast0LessThan)

lemma sum_list_of_nat_word: "(\<Sum>w\<leftarrow>ws. of_nat (f w) :: 64 word) = of_nat (\<Sum>w\<leftarrow>ws. f w)"
  by (induction ws) simp_all

lemma tarpit_sum_live:
  assumes "tarpit_inv W max_conns s"
  shows "sentinel_tarpit_sum (Some (tw_conns s)) = of_nat (length (tw_live s))"
  using assms sum_count_list [of "tw_live s" W]
  by (simp add: tarpit_inv_def sentinel_tarpit_sum_def sum_list_of_nat_word)

lemma counters_change:
  assumes "tw = map (\<lambda>v. of_nat (count_list xs v) :: 64 word) [0..<W]" "w < W"
    and "\<And>v. v \<noteq> w \<Longrightarrow> count_list ys v = count_list xs v" "f (of_nat (count_list xs w)) = of_nat (count_list ys w)"
  shows "tw[w := f (tw ! w)] = map (\<lambda>v. of_nat (count_list ys v)) [0..<W]"
  using assms by (auto simp: list_eq_iff_nth_eq nth_list_update)

lemma count_list_others: "count_list (filter (\<lambda>v. v \<noteq> w) xs) v = (if v = w then 0 else count_list xs v)"
  by (induction xs) auto

lemma tarpit_step_inv:
  assumes "tarpit_step max_conns s s'" "tarpit_inv W max_conns s" "unat max_conns + W < 2 ^ 64" "0 < W"
  shows "tarpit_inv W max_conns s'"
  using assms
proof (cases rule: tarpit_step.cases)
  case (check w)
  have len: "length (tw_conns s) = W" using assms(2) by (simp add: tarpit_inv_def)
  have fin: "finite (tw_pending s)" using assms(2) finite_subset [of "tw_pending s" "{..<W}"] by (auto simp: tarpit_inv_def)
  have "insert w (tw_pending s) \<subseteq> {..<W}" using check assms(2) len by (auto simp: tarpit_inv_def)
  from card_mono [OF _ this] have p: "Suc (card (tw_pending s)) \<le> W" using check fin by simp
  have small: "length (tw_live s) < 2 ^ 64" using assms(2,3) by (simp add: tarpit_inv_def)
  have "of_nat (length (tw_live s)) < max_conns"
    using check(4) tarpit_sum_live [OF assms(2)] by (simp add: tarpit_at_cap_def not_le)
  then have "length (tw_live s) < unat max_conns"
    using small by (simp add: word_less_nat_alt unat_of_nat)
  then show ?thesis using assms(2) check p fin len by (auto simp: tarpit_inv_def)
next
  case (reserve w)
  have w: "w < W" using reserve assms(2) by (auto simp: tarpit_inv_def)
  have fin: "finite (tw_pending s)" using assms(2) finite_subset [of "tw_pending s" "{..<W}"] by (auto simp: tarpit_inv_def)
  have "card (tw_pending s - {w}) = card (tw_pending s) - 1" "0 < card (tw_pending s)"
    using reserve fin by (auto simp: card_gt_0_iff)
  moreover have "tarpit_bump w (tw_conns s) = map (\<lambda>v. of_nat (count_list (w # tw_live s) v)) [0..<W]"
    unfolding tarpit_bump_def using assms(2) w
    by (intro counters_change [where f = "\<lambda>c. c + 1"]) (auto simp: tarpit_inv_def)
  ultimately show ?thesis using assms(2) reserve w by (auto simp: tarpit_inv_def)
next
  case (cleanup xs w ys)
  have w: "w < W" using cleanup assms(2) by (auto simp: tarpit_inv_def)
  have "tarpit_drop w (tw_conns s) = map (\<lambda>v. of_nat (count_list (xs @ ys) v)) [0..<W]"
    unfolding tarpit_drop_def using assms(2) w cleanup
    by (intro counters_change [where f = "\<lambda>c. c - 1" and xs = "tw_live s"]) (auto simp: tarpit_inv_def)
  then show ?thesis using assms(2) cleanup by (auto simp: tarpit_inv_def)
next
  case (restart w cs)
  have len: "length (tw_conns s) = W" using assms(2) by (simp add: tarpit_inv_def)
  have fin: "finite (tw_pending s)" using assms(2) finite_subset [of "tw_pending s" "{..<W}"] by (auto simp: tarpit_inv_def)
  have "cs = (tw_conns s)[w := 0]"
    using restart by (simp add: sentinel_tarpit_init_process_def tarpit_worker_def)
  also have "\<dots> = map (\<lambda>v. of_nat (count_list (filter (\<lambda>v. v \<noteq> w) (tw_live s)) v)) [0..<W]"
    using assms(2) restart len
    by (intro counters_change [where f = "\<lambda>c. 0"]) (auto simp: tarpit_inv_def count_list_others)
  finally have "cs = map (\<lambda>v. of_nat (count_list (filter (\<lambda>v. v \<noteq> w) (tw_live s)) v)) [0..<W]" .
  moreover have "card (tw_pending s - {w}) \<le> card (tw_pending s)" using fin by (intro card_mono) auto
  moreover have "length (filter (\<lambda>v. v \<noteq> w) (tw_live s)) + card (tw_pending s - {w}) < unat max_conns + W"
    using assms(2) length_filter_le [of "\<lambda>v. v \<noteq> w" "tw_live s"] calculation(2) unfolding tarpit_inv_def by linarith
  ultimately show ?thesis using assms(2) restart by (auto simp: tarpit_inv_def)
qed

lemma tarpit_reach_inv:
  "tarpit_reach max_conns s s' \<Longrightarrow> tarpit_inv W max_conns s \<Longrightarrow> unat max_conns + W < 2 ^ 64 \<Longrightarrow> 0 < W \<Longrightarrow>
     tarpit_inv W max_conns s'"
  by (induction rule: tarpit_reach.induct) (auto intro: tarpit_step_inv)

lemma held_start:
  assumes "sentinel_tarpit_start env worker lcf conns = (rc, conns', Some cn)" "cn_final cn = None"
  shows "held cn" "cn_timer cn = Some (nat (lcf_tarpit_delay lcf))"
    "tp_deadline (cn_tctx cn) = st_now env + nat (lcf_tarpit_max_lifetime lcf)"
    "tp_delay_ms (cn_tctx cn) = nat (lcf_tarpit_delay lcf)" "tp_bytes_total (cn_tctx cn) = nat (lcf_tarpit_bytes lcf)"
  using assms by (auto simp: sentinel_tarpit_start_def Let_def held_def split: prod.splits if_splits)

subsection \<open>A sample connection\<close>

definition sample_start :: start_env where
  "sample_start = \<lparr>st_now = 0, st_entropy = 0, st_alloc = True, st_cleanup = True, st_header = NGX_OK\<rparr>"

lemma sample_started:
  "\<exists>cn. sentinel_tarpit_start sample_start 0 default_loc_conf (Some [0, 0]) = (NGX_DONE, Some [1, 0], Some cn) \<and>
     cn_final cn = None \<and> tp_deadline (cn_tctx cn) = 30000 \<and> tp_delay_ms (cn_tctx cn) = 5000 \<and>
     tp_slot (cn_tctx cn) = 0 \<and> tp_counted (cn_tctx cn)"
  by (simp add: sentinel_tarpit_start_def sample_start_def default_loc_conf_def sentinel_tarpit_reserve_def
      tarpit_worker_def tarpit_at_cap_def sentinel_tarpit_sum_def tarpit_bump_def NGX_HTTP_CLOSE_def Let_def)

subsection \<open>Properties\<close>





text \<open>
  A reload can close the tarpit for good. While a worker of the old generation still holds
  a connection, the worker of the new generation with the same number zeroes the shared
  counter; when the old connection ends the counter wraps below zero, and from then on every
  tarpit request of every worker is refused as being at the cap, whatever the cap is.
\<close>

theorem reload_wraps_the_tarpit_counter:
  assumes "0 < length cs" and zero: "\<forall>w < length cs. cs ! w = 0"
    and old: "sentinel_tarpit_reserve 0 (Some cs) max_conns = (NGX_OK, 0, Some cs1)"
    and new: "sentinel_tarpit_init_process 0 (Some cs1) = Some cs2"
    and cn: "tp_slot (cn_tctx cn) = 0" "tp_counted (cn_tctx cn)"
    and fin: "sentinel_tarpit_cleanup cn cs2 = (cn', cs3)"
  shows "\<forall>worker m. m \<noteq> 0 \<longrightarrow> fst (sentinel_tarpit_reserve worker (Some cs3) m) = NGX_HTTP_CLOSE"
proof -
  have cs: "cs = replicate (length cs) 0" using zero by (simp add: list_eq_iff_nth_eq)
  obtain k where k: "length cs = Suc k" using assms(1) by (cases "length cs") auto
  have "cs1 = tarpit_bump 0 cs" using old assms(1)
    by (auto simp: sentinel_tarpit_reserve_def Let_def tarpit_worker_def NGX_HTTP_CLOSE_def split: if_splits)
  then have "cs2 = replicate (Suc k) 0"
    using new by (subst (asm) cs) (simp add: sentinel_tarpit_init_process_def tarpit_worker_def tarpit_bump_def k)
  then have "cs3 = (-1) # replicate k 0"
    using fin cn by (auto simp: sentinel_tarpit_cleanup_def tarpit_drop_def)
  then have "sentinel_tarpit_sum (Some cs3) = -1" by (simp add: sentinel_tarpit_sum_def sum_list_replicate)
  then show ?thesis by (simp add: sentinel_tarpit_reserve_def Let_def tarpit_at_cap_def)
qed

theorem reload_wraps_the_tarpit_counter_witness:
  "\<exists>cn cs3. sentinel_tarpit_start sample_start 0 default_loc_conf (Some [0, 0]) = (NGX_DONE, Some [1, 0], Some cn) \<and>
     snd (sentinel_tarpit_cleanup cn (the (sentinel_tarpit_init_process 0 (Some [1, 0])))) = cs3 \<and>
     fst (sentinel_tarpit_reserve 1 (Some cs3) 256) = NGX_HTTP_CLOSE"
proof -
  obtain cn where cn: "sentinel_tarpit_start sample_start 0 default_loc_conf (Some [0, 0]) = (NGX_DONE, Some [1, 0], Some cn)"
    "tp_slot (cn_tctx cn) = 0" "tp_counted (cn_tctx cn)"
    using sample_started by blast
  have r: "sentinel_tarpit_reserve 0 (Some [0, 0]) 256 = (NGX_OK, 0, Some [1, 0])"
    by (simp add: sentinel_tarpit_reserve_def tarpit_worker_def tarpit_at_cap_def sentinel_tarpit_sum_def tarpit_bump_def)
  have i: "sentinel_tarpit_init_process 0 (Some [1, 0]) = Some [0, 0]"
    by (simp add: sentinel_tarpit_init_process_def tarpit_worker_def)
  obtain cn' cs3 where c: "sentinel_tarpit_cleanup cn [0, 0] = (cn', cs3)" by fastforce
  have z: "\<forall>w < length [0, 0]. [0, 0 :: 64 word] ! w = 0" by (auto simp: less_Suc_eq)
  show ?thesis
    using reload_wraps_the_tarpit_counter [OF _ z r i cn(2,3) c] cn(1) i c by auto
qed

end
