(* ===== verification/Sentinel_Metrics.thy ===== *)
theory Sentinel_Metrics
  imports Sentinel_Tarpit Sentinel_Signals
begin

text \<open>
  \<^verbatim>\<open>src/sentinel_metrics.c\<close>: the Prometheus counters and the status page. The counters are a function
  from the metric to a 64-bit word (\<open>None\<close>: the segment is not mapped); \<open>sprint_int\<close> prints a
  counter. The page is built with \<open>ngx_slprintf\<close>, which stops at the end of the 4096-byte buffer.
\<close>

definition sentinel_metric_inc :: "ngx_sentinel_metric \<Rightarrow> main_conf \<Rightarrow> main_conf" where
  "sentinel_metric_inc idx mcf =
     (case mcf_metrics mcf of
        None \<Rightarrow> mcf
      | Some m \<Rightarrow> mcf\<lparr>mcf_metrics := Some (m(idx := m idx + 1))\<rparr>)"

definition inc_if :: "bool \<Rightarrow> ngx_sentinel_metric \<Rightarrow> main_conf \<Rightarrow> main_conf" where
  "inc_if b idx mcf = (if b then sentinel_metric_inc idx mcf else mcf)"

definition sentinel_metrics_record :: "ngx_sentinel_ctx \<Rightarrow> int \<Rightarrow> main_conf \<Rightarrow> main_conf" where
  "sentinel_metrics_record ctx shadow mcf =
     (if mcf_metrics mcf = None then mcf
      else
        let inp = ctx_inputs ctx;
            mcf = sentinel_metric_inc M_REQUESTS mcf;
            mcf = sentinel_metric_inc (M_VERDICT (ctx_verdict ctx)) mcf;
            mcf = inc_if (errrate_count inp > 0) M_SIG_ERRRATE mcf;
            mcf = inc_if (errrate_blocked inp) M_SIG_BLOCKED mcf;
            mcf = inc_if (scanner_path inp) M_SIG_SCANNER mcf;
            mcf = inc_if (bot_ua inp) M_SIG_BOT mcf;
            mcf = inc_if (header_anomaly inp) M_SIG_HEADER mcf;
            mcf = inc_if (honeypot inp) M_SIG_HONEYPOT mcf;
            mcf = inc_if (velocity_exceeded inp) M_SIG_VELOCITY mcf;
            mcf = inc_if (datacenter_asn inp) M_SIG_ASN mcf;
            mcf = inc_if (c2ip_flagged inp) M_SIG_C2IP mcf;
            mcf = inc_if (ja3_flagged inp) M_SIG_JA3 mcf;
            mcf = inc_if (ja4_flagged inp) M_SIG_JA4 mcf;
            mcf = inc_if (ja4t_flagged inp) M_SIG_JA4T mcf;
            mcf = inc_if (ua_incoherent inp) M_SIG_COHERENCE mcf;
            mcf = inc_if (crowdsec_hit inp) M_SIG_CROWDSEC mcf
        in inc_if (shadow \<noteq> 0 \<and> (ctx_verdict ctx = VERDICT_TARPIT \<or> ctx_verdict ctx = VERDICT_BLOCK)) M_SHADOW mcf)"

definition sentinel_metric_get :: "main_conf \<Rightarrow> ngx_sentinel_metric \<Rightarrow> 64 word" where
  "sentinel_metric_get mcf idx = (case mcf_metrics mcf of None \<Rightarrow> 0 | Some m \<Rightarrow> m idx)"

definition sentinel_tarpit_active :: "main_conf \<Rightarrow> 64 word" where
  "sentinel_tarpit_active mcf = (case mcf_tarpit_conns mcf of None \<Rightarrow> 0 | Some cs \<Rightarrow> sum_list cs)"

subsection \<open>The status page\<close>

definition SENTINEL_STATUS_BUFSZ :: nat where "SENTINEL_STATUS_BUFSZ = 4096"

definition sentinel_verdict_labels :: "(ngx_sentinel_metric \<times> string) list" where
  "sentinel_verdict_labels =
     [(M_VERDICT VERDICT_ALLOW, ''allow''), (M_VERDICT VERDICT_CHALLENGE, ''challenge''),
      (M_VERDICT VERDICT_TARPIT, ''tarpit''), (M_VERDICT VERDICT_BLOCK, ''block'')]"

definition sentinel_signal_labels :: "(ngx_sentinel_metric \<times> string) list" where
  "sentinel_signal_labels =
     [(M_SIG_ERRRATE, ''errrate''), (M_SIG_BLOCKED, ''blocked''), (M_SIG_SCANNER, ''scanner''),
      (M_SIG_BOT, ''bot''), (M_SIG_HEADER, ''header''), (M_SIG_HONEYPOT, ''honeypot''),
      (M_SIG_VELOCITY, ''velocity''), (M_SIG_ASN, ''asn''), (M_SIG_COHERENCE, ''coherence''),
      (M_SIG_CROWDSEC, ''crowdsec''), (M_SIG_JA3, ''ja3''), (M_SIG_JA4, ''ja4''),
      (M_SIG_JA4T, ''ja4t''), (M_SIG_C2IP, ''c2ip'')]"

definition print_counter :: "ngx_api \<Rightarrow> 64 word \<Rightarrow> string" where
  "print_counter ngx w = sprint_int ngx (uint w)"

text \<open>A sample line with a label, and one without.\<close>

definition labelled :: "ngx_api \<Rightarrow> string \<Rightarrow> string \<Rightarrow> main_conf \<Rightarrow> ngx_sentinel_metric \<times> string \<Rightarrow> string" where
  "labelled ngx family l mcf m =
     family @ ''{'' @ l @ ''='' @ [CHR 0x22] @ snd m @ [CHR 0x22] @ ''} '' @
     print_counter ngx (sentinel_metric_get mcf (fst m)) @ [NL]"

definition plain :: "ngx_api \<Rightarrow> string \<Rightarrow> 64 word \<Rightarrow> string" where
  "plain ngx family w = family @ '' '' @ print_counter ngx w @ [NL]"

definition status_text :: "ngx_api \<Rightarrow> main_conf \<Rightarrow> string" where
  "status_text ngx mcf =
     ''# HELP sentinel_requests_total Requests evaluated by sentinel.'' @ [NL] @
     ''# TYPE sentinel_requests_total counter'' @ [NL] @
     plain ngx ''sentinel_requests_total'' (sentinel_metric_get mcf M_REQUESTS) @
     ''# HELP sentinel_verdict_total Verdicts by band.'' @ [NL] @
     ''# TYPE sentinel_verdict_total counter'' @ [NL] @
     concat (map (labelled ngx ''sentinel_verdict_total'' ''v'' mcf) sentinel_verdict_labels) @
     ''# HELP sentinel_signal_total Signal hits by source.'' @ [NL] @
     ''# TYPE sentinel_signal_total counter'' @ [NL] @
     concat (map (labelled ngx ''sentinel_signal_total'' ''s'' mcf) sentinel_signal_labels) @
     ''# HELP sentinel_shadow_total Would-block decisions suppressed by shadow mode.'' @ [NL] @
     ''# TYPE sentinel_shadow_total counter'' @ [NL] @
     plain ngx ''sentinel_shadow_total'' (sentinel_metric_get mcf M_SHADOW) @
     ''# HELP sentinel_tarpit_active Connections currently held in a tarpit.'' @ [NL] @
     ''# TYPE sentinel_tarpit_active gauge'' @ [NL] @
     plain ngx ''sentinel_tarpit_active'' (sentinel_tarpit_active mcf)"

record status_env =
  se_discard :: ngx_rc
  se_pnalloc :: bool
  se_send_header :: ngx_rc
  se_header_only :: bool
  se_buf :: bool
  se_output :: ngx_rc

text \<open>The response: the code, and the body with its announced length once the header is sent.\<close>

definition sentinel_metrics_status_handler :: "ngx_api \<Rightarrow> status_env \<Rightarrow> request \<Rightarrow> main_conf \<Rightarrow>
    ngx_rc \<times> nat option \<times> string option" where
  "sentinel_metrics_status_handler ngx env r mcf =
     (if r_method r \<noteq> HTTP_GET \<and> r_method r \<noteq> HTTP_HEAD then (NGX_STATUS 405, None, None)
      else if se_discard env \<noteq> NGX_OK then (se_discard env, None, None)
      else if \<not> se_pnalloc env then (NGX_STATUS 500, None, None)
      else
        let body = take SENTINEL_STATUS_BUFSZ (status_text ngx mcf);
            rc = se_send_header env
        in if rc = NGX_ERROR \<or> (case rc of NGX_STATUS n \<Rightarrow> n > 0 | _ \<Rightarrow> False) \<or> se_header_only env
           then (rc, Some (length body), None)
           else if \<not> se_buf env then (NGX_STATUS 500, Some (length body), None)
           else (se_output env, Some (length body), Some body))"

subsection \<open>What is counted\<close>

fun counts :: "ngx_sentinel_ctx \<Rightarrow> int \<Rightarrow> ngx_sentinel_metric \<Rightarrow> bool" where
  "counts ctx shadow M_REQUESTS = True"
| "counts ctx shadow (M_VERDICT v) = (v = ctx_verdict ctx)"
| "counts ctx shadow M_SIG_ERRRATE = (errrate_count (ctx_inputs ctx) > 0)"
| "counts ctx shadow M_SIG_BLOCKED = errrate_blocked (ctx_inputs ctx)"
| "counts ctx shadow M_SIG_SCANNER = scanner_path (ctx_inputs ctx)"
| "counts ctx shadow M_SIG_BOT = bot_ua (ctx_inputs ctx)"
| "counts ctx shadow M_SIG_HEADER = header_anomaly (ctx_inputs ctx)"
| "counts ctx shadow M_SIG_HONEYPOT = honeypot (ctx_inputs ctx)"
| "counts ctx shadow M_SIG_VELOCITY = velocity_exceeded (ctx_inputs ctx)"
| "counts ctx shadow M_SIG_ASN = datacenter_asn (ctx_inputs ctx)"
| "counts ctx shadow M_SIG_COHERENCE = ua_incoherent (ctx_inputs ctx)"
| "counts ctx shadow M_SIG_CROWDSEC = crowdsec_hit (ctx_inputs ctx)"
| "counts ctx shadow M_SIG_JA3 = ja3_flagged (ctx_inputs ctx)"
| "counts ctx shadow M_SIG_JA4 = ja4_flagged (ctx_inputs ctx)"
| "counts ctx shadow M_SIG_JA4T = ja4t_flagged (ctx_inputs ctx)"
| "counts ctx shadow M_SIG_C2IP = c2ip_flagged (ctx_inputs ctx)"
| "counts ctx shadow M_SHADOW =
     (shadow \<noteq> 0 \<and> (ctx_verdict ctx = VERDICT_TARPIT \<or> ctx_verdict ctx = VERDICT_BLOCK))"

text \<open>The counters after the increments of a set of metrics.\<close>

definition counted :: "ngx_sentinel_ctx \<Rightarrow> int \<Rightarrow> (ngx_sentinel_metric \<Rightarrow> 64 word) \<Rightarrow> ngx_sentinel_metric set \<Rightarrow> main_conf \<Rightarrow> main_conf" where
  "counted ctx shadow m done mcf =
     mcf\<lparr>mcf_metrics := Some (\<lambda>idx. m idx + of_bool (idx \<in> done \<and> counts ctx shadow idx))\<rparr>"

lemma metrics_eqI: "(\<And>idx. f idx = g idx) \<Longrightarrow> mcf\<lparr>mcf_metrics := Some f\<rparr> = mcf\<lparr>mcf_metrics := Some g\<rparr>"
  by (simp add: ext)

lemma inc_counted:
  assumes "b = counts ctx shadow idx" and "idx \<notin> done"
  shows "inc_if b idx (counted ctx shadow m done mcf) = counted ctx shadow m (insert idx done) mcf"
  using assms by (auto simp: counted_def inc_if_def sentinel_metric_inc_def intro!: metrics_eqI)

lemma inc_first:
  assumes "mcf_metrics mcf = Some m"
  shows "sentinel_metric_inc M_REQUESTS mcf = counted ctx shadow m {M_REQUESTS} mcf"
  using assms by (auto simp: counted_def sentinel_metric_inc_def intro!: metrics_eqI)

lemma inc_verdict:
  assumes "M_VERDICT (ctx_verdict ctx) \<notin> done"
  shows "sentinel_metric_inc (M_VERDICT (ctx_verdict ctx)) (counted ctx shadow m done mcf) =
    counted ctx shadow m (insert (M_VERDICT (ctx_verdict ctx)) done) mcf"
  using inc_counted [of True ctx shadow "M_VERDICT (ctx_verdict ctx)" "done" m mcf] assms
  by (simp add: inc_if_def)

lemma metrics_record:
  assumes "mcf_metrics mcf = Some m"
  shows "sentinel_metrics_record ctx shadow mcf =
    mcf\<lparr>mcf_metrics := Some (\<lambda>idx. m idx + of_bool (counts ctx shadow idx))\<rparr>"
proof -
  let ?idxs = "{M_SHADOW, M_SIG_CROWDSEC, M_SIG_COHERENCE, M_SIG_JA4T, M_SIG_JA4, M_SIG_JA3, M_SIG_C2IP, M_SIG_ASN,
    M_SIG_VELOCITY, M_SIG_HONEYPOT, M_SIG_HEADER, M_SIG_BOT, M_SIG_SCANNER, M_SIG_BLOCKED, M_SIG_ERRRATE,
    M_VERDICT (ctx_verdict ctx), M_REQUESTS}"
  have "sentinel_metrics_record ctx shadow mcf = counted ctx shadow m ?idxs mcf"
    by (simp add: sentinel_metrics_record_def assms Let_def inc_first [of mcf m ctx shadow] inc_verdict inc_counted)
  also have "idx \<in> ?idxs \<and> counts ctx shadow idx \<longleftrightarrow> counts ctx shadow idx" for idx by (cases idx) auto
  then have "counted ctx shadow m ?idxs mcf = mcf\<lparr>mcf_metrics := Some (\<lambda>idx. m idx + of_bool (counts ctx shadow idx))\<rparr>"
    unfolding counted_def by presburger
  finally show ?thesis .
qed

subsection \<open>Properties\<close>

text \<open>
  Every evaluated request is counted once. One call of \<open>sentinel_metrics_record\<close> adds one to
  the request counter, to the counter of the verdict, to the counter of each signal that fired
  and, for a decision that shadow mode suppresses, to the shadow counter, and changes nothing else.
\<close>

theorem metrics_count_what_happened:
  assumes "mcf_metrics mcf = Some m"
  shows "sentinel_metrics_record ctx shadow mcf =
    mcf\<lparr>mcf_metrics := Some (\<lambda>idx. m idx + of_bool (counts ctx shadow idx))\<rparr>"
  by (rule metrics_record [OF assms])

definition block_ctx :: ngx_sentinel_ctx where
  "block_ctx = \<lparr>ctx_inputs = zero_inputs\<lparr>honeypot := True\<rparr>, ctx_score = 100, ctx_verdict = VERDICT_BLOCK,
     ctx_computed = True, ctx_throttled = False, ctx_shielded = False, ctx_pow_state = POW_OFF\<rparr>"

theorem metrics_count_what_happened_witness:
  "mcf_metrics (sentinel_metrics_record block_ctx 1
      (ngx_sentinel_create_main_conf\<lparr>mcf_metrics := Some (\<lambda>_. 7)\<rparr>)) =
    Some (\<lambda>idx. 7 + of_bool (counts block_ctx 1 idx))"
  using metrics_count_what_happened
    [of "ngx_sentinel_create_main_conf\<lparr>mcf_metrics := Some (\<lambda>_. 7)\<rparr>" "\<lambda>_. 7"] by simp

text \<open>
  Claim C40: the status page is never truncated. While a printed 64-bit counter has at most 20 digits,
  the whole text fits the 4096-byte buffer, and the announced length is the length of the text.
\<close>

theorem status_page_is_whole:
  assumes digits: "\<forall>w. length (print_counter ngx w) \<le> 20"
    and "sentinel_metrics_status_handler ngx env r mcf = (rc, Some n, Some body)"
  shows "body = status_text ngx mcf \<and> n = length (status_text ngx mcf) \<and> n < SENTINEL_STATUS_BUFSZ"
proof -
  have p: "length (plain ngx f w) \<le> length f + 22" for f w using digits by (simp add: plain_def)
  have l: "length (labelled ngx f l mcf m) \<le> length f + length l + length (snd m) + 27" for f l m
    using digits by (simp add: labelled_def)
  have sum: "length (concat (map (labelled ngx f l mcf) ms)) \<le> sum_list (map (\<lambda>m. length f + length l + length (snd m) + 27) ms)"
    for f l ms
  proof (induction ms)
    case (Cons m ms)
    then show ?case using l [of f l m] by simp
  qed simp
  have fits: "length (status_text ngx mcf) < SENTINEL_STATUS_BUFSZ"
    using sum [of "''sentinel_verdict_total''" "''v''" sentinel_verdict_labels]
      sum [of "''sentinel_signal_total''" "''s''" sentinel_signal_labels]
      p [of "''sentinel_requests_total''" "sentinel_metric_get mcf M_REQUESTS"]
      p [of "''sentinel_shadow_total''" "sentinel_metric_get mcf M_SHADOW"]
      p [of "''sentinel_tarpit_active''" "sentinel_tarpit_active mcf"]
    by (simp add: status_text_def SENTINEL_STATUS_BUFSZ_def sentinel_verdict_labels_def sentinel_signal_labels_def)
  then show ?thesis
    using assms(2) by (auto simp: sentinel_metrics_status_handler_def Let_def split: if_splits)
qed

lemma shim_decimal_length: "n < 10 ^ Suc k \<Longrightarrow> length (shim_decimal n) \<le> Suc k"
proof (induction k arbitrary: n)
  case 0
  then show ?case by (simp add: shim_decimal.simps [of n])
next
  case (Suc k)
  then have "n div 10 < 10 ^ Suc k" by (simp add: less_mult_imp_div_less)
  then show ?case using Suc.IH [of "n div 10"] by (simp add: shim_decimal.simps [of n])
qed

lemma shim_counter_length: "length (print_counter ngx_shim w) \<le> 20"
proof -
  have "unat w < 2 ^ 64" using unsigned_less [where ?'a = nat, of w] by simp
  then have "unat w < 10 ^ Suc 19" by simp
  then show ?thesis using shim_decimal_length [of "unat w" 19] by (simp add: print_counter_def ngx_shim_def)
qed

theorem status_page_is_whole_witness:
  "\<exists>body. sentinel_metrics_status_handler ngx_shim
      \<lparr>se_discard = NGX_OK, se_pnalloc = True, se_send_header = NGX_OK, se_header_only = False, se_buf = True,
       se_output = NGX_OK\<rparr> browser_request (ngx_sentinel_create_main_conf\<lparr>mcf_metrics := Some (\<lambda>_. - 1)\<rparr>) =
      (NGX_OK, Some (length body), Some body) \<and>
    body = status_text ngx_shim (ngx_sentinel_create_main_conf\<lparr>mcf_metrics := Some (\<lambda>_. - 1)\<rparr>)"
proof -
  let ?mcf = "ngx_sentinel_create_main_conf\<lparr>mcf_metrics := Some (\<lambda>_. - 1)\<rparr>"
  let ?env = "\<lparr>se_discard = NGX_OK, se_pnalloc = True, se_send_header = NGX_OK, se_header_only = False, se_buf = True,
    se_output = NGX_OK\<rparr>"
  obtain n body where res: "sentinel_metrics_status_handler ngx_shim ?env browser_request ?mcf = (NGX_OK, Some n, Some body)"
    by (simp add: sentinel_metrics_status_handler_def browser_request_def Let_def)
  from status_page_is_whole [OF _ res] res show ?thesis using shim_counter_length by auto
qed

end
