(* ===== verification/Sentinel_Score.thy ===== *)
theory Sentinel_Score
  imports Sentinel_Conf
begin

text \<open>
  \<^verbatim>\<open>src/sentinel_score.c\<close>: the saturating weighted sum over the request signals and the map from
  a score to a verdict. The reference \<open>score_spec\<close> says what the sum is; the lemmas show that
  the code computes it, that it stays in \<open>[0, NGX_SENTINEL_SCORE_MAX]\<close> and is monotone in the
  signals, and that no header or allowlist wipes a CrowdSec ban.
\<close>

subsection \<open>The code\<close>

definition sentinel_score_add :: "int \<Rightarrow> int \<Rightarrow> int" where
  "sentinel_score_add acc term =
     (if term \<le> 0 then acc
      else if term > NGX_SENTINEL_SCORE_MAX - acc then NGX_SENTINEL_SCORE_MAX
      else acc + term)"

text \<open>The CrowdSec term: a fraction of the weight by action tier. The weight is positive here, so
  C's truncating division is \<^term>\<open>(div)\<close>.\<close>

definition sentinel_score_crowdsec_term :: "int \<Rightarrow> cs_action_tier \<Rightarrow> int" where
  "sentinel_score_crowdsec_term w act =
     (case act of
        CS_CAPTCHA \<Rightarrow> w * 40 div 100
      | CS_THROTTLE \<Rightarrow> w * 65 div 100
      | _ \<Rightarrow> w)"

text \<open>The errrate product, clamped before it is formed.\<close>

definition sentinel_score_errrate :: "int \<Rightarrow> nat \<Rightarrow> int \<Rightarrow> int" where
  "sentinel_score_errrate w count score =
     (if w > 0 \<and> count > 0 then
        (let cnt = int count in
         if cnt > NGX_SENTINEL_SCORE_MAX div w
         then sentinel_score_add score NGX_SENTINEL_SCORE_MAX
         else sentinel_score_add score (w * cnt))
      else score)"

definition sentinel_score_compute ::
  "ngx_sentinel_inputs option \<Rightarrow> 'a ngx_sentinel_loc_base_scheme option \<Rightarrow> int" where
  "sentinel_score_compute inputs lcf =
     (case (inputs, lcf) of
        (Some inp, Some l) \<Rightarrow>
          if known_good_ua inp \<and> \<not> crowdsec_hit inp \<and> \<not> fcrdns_spoofed inp then 0
          else if allowlisted inp \<and> \<not> crowdsec_hit inp then 0
          else
            (let w = lcf_weights l;
                 s = 0;
                 s = sentinel_score_errrate (w_errrate w) (errrate_count inp) s;
                 s = (if errrate_blocked inp then sentinel_score_add s (w_blocked w) else s);
                 s = (if scanner_path inp then sentinel_score_add s (w_scanner w) else s);
                 s = (if bot_ua inp then sentinel_score_add s (w_bot w) else s);
                 s = (if header_anomaly inp then sentinel_score_add s (w_header w) else s);
                 s = (if honeypot inp then sentinel_score_add s (w_honeypot w) else s);
                 s = (if velocity_exceeded inp then sentinel_score_add s (w_velocity w) else s);
                 s = (if datacenter_asn inp then sentinel_score_add s (w_asn w) else s);
                 s = (if c2ip_flagged inp then sentinel_score_add s (w_c2ip w) else s);
                 s = (if ja3_flagged inp then sentinel_score_add s (w_ja3 w) else s);
                 s = (if ja4_flagged inp then sentinel_score_add s (w_ja4 w) else s);
                 s = (if ja4t_flagged inp then sentinel_score_add s (w_ja4t w) else s);
                 s = (if ua_incoherent inp then sentinel_score_add s (w_coherence w) else s);
                 s = (if crowdsec_hit inp \<and> w_crowdsec w > 0
                      then sentinel_score_add s
                             (sentinel_score_crowdsec_term (w_crowdsec w) (crowdsec_action inp))
                      else s);
                 s = (if s < 0 then 0 else s)
             in if s > NGX_SENTINEL_SCORE_MAX then NGX_SENTINEL_SCORE_MAX else s)
      | _ \<Rightarrow> 0)"

definition sentinel_score_to_verdict :: "int \<Rightarrow> ngx_sentinel_threshold \<Rightarrow> ngx_sentinel_verdict" where
  "sentinel_score_to_verdict score thr =
     (if score \<ge> thr_block thr then VERDICT_BLOCK
      else if score \<ge> thr_tarpit thr then VERDICT_TARPIT
      else if score \<ge> thr_challenge thr then VERDICT_CHALLENGE
      else VERDICT_ALLOW)"

subsection \<open>Reference: the sum that is meant\<close>

text \<open>What each signal contributes before saturation, in the order of the formula in the file
  header; a non-positive weight contributes nothing.\<close>

definition score_terms :: "ngx_sentinel_inputs \<Rightarrow> ngx_sentinel_weights \<Rightarrow> int list" where
  "score_terms inp w =
     [max 0 (w_errrate w) * int (errrate_count inp),
      of_bool (errrate_blocked inp) * w_blocked w,
      of_bool (scanner_path inp) * w_scanner w,
      of_bool (bot_ua inp) * w_bot w,
      of_bool (header_anomaly inp) * w_header w,
      of_bool (honeypot inp) * w_honeypot w,
      of_bool (velocity_exceeded inp) * w_velocity w,
      of_bool (datacenter_asn inp) * w_asn w,
      of_bool (c2ip_flagged inp) * w_c2ip w,
      of_bool (ja3_flagged inp) * w_ja3 w,
      of_bool (ja4_flagged inp) * w_ja4 w,
      of_bool (ja4t_flagged inp) * w_ja4t w,
      of_bool (ua_incoherent inp) * w_coherence w,
      of_bool (crowdsec_hit inp) *
        sentinel_score_crowdsec_term (max 0 (w_crowdsec w)) (crowdsec_action inp)]"

text \<open>The two short circuits: a crawler User-Agent that FCrDNS has not disproved, or an
  allowlisted address, and in both cases no CrowdSec hit.\<close>

definition score_exempt :: "ngx_sentinel_inputs \<Rightarrow> bool" where
  "score_exempt inp \<longleftrightarrow>
     \<not> crowdsec_hit inp \<and> (known_good_ua inp \<and> \<not> fcrdns_spoofed inp \<or> allowlisted inp)"

definition score_spec :: "ngx_sentinel_inputs \<Rightarrow> ngx_sentinel_weights \<Rightarrow> int" where
  "score_spec inp w =
     (if score_exempt inp then 0
      else min NGX_SENTINEL_SCORE_MAX (sum_list (map (max 0) (score_terms inp w))))"

subsection \<open>Saturating addition\<close>

lemma score_add_saturates:
  "acc \<le> NGX_SENTINEL_SCORE_MAX \<Longrightarrow>
     sentinel_score_add acc t = min NGX_SENTINEL_SCORE_MAX (acc + max 0 t)"
  by (auto simp: sentinel_score_add_def)

text \<open>Accumulated saturation is saturation of the whole sum.\<close>

lemma score_add_min:
  "0 \<le> a \<Longrightarrow>
     sentinel_score_add (min NGX_SENTINEL_SCORE_MAX a) t =
       min NGX_SENTINEL_SCORE_MAX (a + max 0 t)"
  by (auto simp: score_add_saturates min_def)

lemma score_add_if_min:
  "0 \<le> a \<Longrightarrow>
     (if c then sentinel_score_add (min NGX_SENTINEL_SCORE_MAX a) t
      else min NGX_SENTINEL_SCORE_MAX a) =
       min NGX_SENTINEL_SCORE_MAX (a + max 0 (of_bool c * t))"
  by (simp add: score_add_min)

lemma errrate_clamp_saturates:
  assumes "0 < (w::int)" "NGX_SENTINEL_SCORE_MAX div w < c"
  shows "NGX_SENTINEL_SCORE_MAX \<le> w * c"
proof -
  have "NGX_SENTINEL_SCORE_MAX div w + 1 \<le> c" using assms(2) by simp
  then have "w * (NGX_SENTINEL_SCORE_MAX div w + 1) \<le> w * c"
    using assms(1) by (intro mult_left_mono) auto
  moreover have "NGX_SENTINEL_SCORE_MAX < w * (NGX_SENTINEL_SCORE_MAX div w + 1)"
    using assms(1) by (metis add.commute add_0 distrib_left div_mult_mod_eq mult.commute
        mult.right_neutral pos_mod_bound add_less_cancel_left)
  ultimately show ?thesis by linarith
qed

lemma score_errrate_min:
  "sentinel_score_errrate w n 0 = min NGX_SENTINEL_SCORE_MAX (max 0 (max 0 w * int n))"
proof (cases "w > 0 \<and> n > 0")
  case True
  then have "0 < w * int n" by simp
  with True show ?thesis
    using errrate_clamp_saturates [of w "int n"]
    by (auto simp: sentinel_score_errrate_def Let_def score_add_saturates
        NGX_SENTINEL_SCORE_MAX_def min_def)
next
  case False
  then show ?thesis
    by (auto simp: sentinel_score_errrate_def NGX_SENTINEL_SCORE_MAX_def max_def)
qed

text \<open>The additions after the errrate term, as a list of guarded terms in the code's order.\<close>

definition score_steps :: "ngx_sentinel_inputs \<Rightarrow> ngx_sentinel_weights \<Rightarrow> (bool \<times> int) list" where
  "score_steps inp w =
     [(errrate_blocked inp, w_blocked w), (scanner_path inp, w_scanner w),
      (bot_ua inp, w_bot w), (header_anomaly inp, w_header w),
      (honeypot inp, w_honeypot w), (velocity_exceeded inp, w_velocity w),
      (datacenter_asn inp, w_asn w), (c2ip_flagged inp, w_c2ip w),
      (ja3_flagged inp, w_ja3 w), (ja4_flagged inp, w_ja4 w), (ja4t_flagged inp, w_ja4t w),
      (ua_incoherent inp, w_coherence w),
      (crowdsec_hit inp,
       sentinel_score_crowdsec_term (max 0 (w_crowdsec w)) (crowdsec_action inp))]"

definition score_step :: "bool \<times> int \<Rightarrow> int \<Rightarrow> int" where
  "score_step ct s = (if fst ct then sentinel_score_add s (snd ct) else s)"

lemma fold_score_step:
  "0 \<le> a \<Longrightarrow>
     fold score_step cts (min NGX_SENTINEL_SCORE_MAX a) =
       min NGX_SENTINEL_SCORE_MAX (a + (\<Sum>(c, t)\<leftarrow>cts. max 0 (of_bool c * t)))"
proof (induction cts arbitrary: a)
  case (Cons ct cts)
  have "score_step ct (min NGX_SENTINEL_SCORE_MAX a) =
        min NGX_SENTINEL_SCORE_MAX (a + max 0 (of_bool (fst ct) * snd ct))"
    using Cons.prems by (simp only: score_step_def score_add_if_min)
  then show ?case
    using Cons.IH [of "a + max 0 (of_bool (fst ct) * snd ct)"] Cons.prems
    by (simp add: case_prod_beta add.assoc)
qed simp

lemma score_steps_sum:
  "max 0 (max 0 (w_errrate w) * int (errrate_count inp))
     + (\<Sum>(c, t)\<leftarrow>score_steps inp w. max 0 (of_bool c * t)) =
   sum_list (map (max 0) (score_terms inp w))"
  unfolding score_steps_def score_terms_def by (simp only: list.map sum_list.Cons prod.case)

text \<open>The code's conditional additions, each rewritten to one occurrence of the running score.\<close>

lemma if_score_step:
  "(if c then sentinel_score_add s t else s) = score_step (c, t) s"
  by (simp add: score_step_def)

lemma crowdsec_score_step:
  "score_step (h \<and> 0 < w, sentinel_score_crowdsec_term w act) s =
   score_step (h, sentinel_score_crowdsec_term (max 0 w) act) s"
  by (auto simp: score_step_def sentinel_score_add_def sentinel_score_crowdsec_term_def max_def
      split: cs_action_tier.split)

lemma if_clamp_low: "(if s < 0 then 0 else s) = max 0 (s::int)"
  by auto

lemma if_clamp_high: "(if m < s then m else s) = min m (s::int)"
  by auto

lemma compute_fold:
  assumes "\<not> score_exempt inp"
  shows "sentinel_score_compute (Some inp) (Some l) =
    (let s = fold score_step (score_steps inp (lcf_weights l))
               (sentinel_score_errrate (w_errrate (lcf_weights l)) (errrate_count inp) 0)
     in min NGX_SENTINEL_SCORE_MAX (max 0 s))"
proof -
  have "\<not> (known_good_ua inp \<and> \<not> crowdsec_hit inp \<and> \<not> fcrdns_spoofed inp)"
    and "\<not> (allowlisted inp \<and> \<not> crowdsec_hit inp)"
    using assms by (auto simp: score_exempt_def)
  then show ?thesis
    unfolding sentinel_score_compute_def if_score_step crowdsec_score_step if_clamp_low if_clamp_high
      score_steps_def Let_def
    by (simp only: prod.case option.case if_False fold.simps comp_def id_def)
qed

lemma compute_exempt:
  assumes "score_exempt inp"
  shows "sentinel_score_compute (Some inp) (Some l) = 0"
proof (cases "known_good_ua inp \<and> \<not> crowdsec_hit inp \<and> \<not> fcrdns_spoofed inp")
  case True
  then show ?thesis
    unfolding sentinel_score_compute_def by (simp only: prod.case option.case if_True simp_thms)
next
  case False
  moreover have "allowlisted inp \<and> \<not> crowdsec_hit inp"
    using assms False by (auto simp: score_exempt_def)
  ultimately show ?thesis
    unfolding sentinel_score_compute_def
    by (simp only: prod.case option.case if_True if_False simp_thms)
qed

lemma compute_Some:
  "sentinel_score_compute (Some inp) (Some l) = score_spec inp (lcf_weights l)"
proof (cases "score_exempt inp")
  case True
  then show ?thesis by (simp add: compute_exempt score_spec_def)
next
  case False
  define a where "a = max 0 (max 0 (w_errrate (lcf_weights l)) * int (errrate_count inp))"
  define S where "S = sum_list (map (max 0) (score_terms inp (lcf_weights l)))"
  have "a + (\<Sum>(c, t)\<leftarrow>score_steps inp (lcf_weights l). max 0 (of_bool c * t)) = S"
    unfolding a_def S_def by (rule score_steps_sum)
  moreover have "0 \<le> a" by (simp add: a_def)
  ultimately have "sentinel_score_compute (Some inp) (Some l) =
      min NGX_SENTINEL_SCORE_MAX (max 0 (min NGX_SENTINEL_SCORE_MAX S))"
    using fold_score_step [of a "score_steps inp (lcf_weights l)"]
    by (simp add: compute_fold [OF False] score_errrate_min Let_def flip: a_def)
  moreover have "0 \<le> S"
    unfolding S_def by (rule sum_list_nonneg) auto
  ultimately show ?thesis
    using False by (simp add: score_spec_def S_def NGX_SENTINEL_SCORE_MAX_def)
qed

lemma compute_None [simp]:
  "sentinel_score_compute None l = 0" "sentinel_score_compute inp None = 0"
  unfolding sentinel_score_compute_def by (cases inp; simp only: prod.case option.case)+

lemma score_spec_bounds: "0 \<le> score_spec inp w \<and> score_spec inp w \<le> NGX_SENTINEL_SCORE_MAX"
proof -
  have "0 \<le> sum_list (map (max 0) (score_terms inp w))"
    by (rule sum_list_nonneg) auto
  then show ?thesis by (simp add: score_spec_def NGX_SENTINEL_SCORE_MAX_def)
qed

subsection \<open>Monotonicity\<close>

text \<open>\<open>inp'\<close> shows at least the evidence of \<open>inp\<close>: every scoring signal of \<open>inp\<close> is in \<open>inp'\<close>,
  and nothing excuses \<open>inp'\<close> that does not excuse \<open>inp\<close>.\<close>

definition evidence_le :: "ngx_sentinel_inputs \<Rightarrow> ngx_sentinel_inputs \<Rightarrow> bool" where
  "evidence_le inp inp' \<longleftrightarrow>
     errrate_count inp \<le> errrate_count inp' \<and>
     (errrate_blocked inp \<longrightarrow> errrate_blocked inp') \<and>
     (scanner_path inp \<longrightarrow> scanner_path inp') \<and>
     (bot_ua inp \<longrightarrow> bot_ua inp') \<and>
     (header_anomaly inp \<longrightarrow> header_anomaly inp') \<and>
     (honeypot inp \<longrightarrow> honeypot inp') \<and>
     (velocity_exceeded inp \<longrightarrow> velocity_exceeded inp') \<and>
     (datacenter_asn inp \<longrightarrow> datacenter_asn inp') \<and>
     (c2ip_flagged inp \<longrightarrow> c2ip_flagged inp') \<and>
     (ja3_flagged inp \<longrightarrow> ja3_flagged inp') \<and>
     (ja4_flagged inp \<longrightarrow> ja4_flagged inp') \<and>
     (ja4t_flagged inp \<longrightarrow> ja4t_flagged inp') \<and>
     (ua_incoherent inp \<longrightarrow> ua_incoherent inp') \<and>
     (crowdsec_hit inp \<longrightarrow> crowdsec_hit inp' \<and> crowdsec_action inp' = crowdsec_action inp) \<and>
     (fcrdns_spoofed inp \<longrightarrow> fcrdns_spoofed inp') \<and>
     (known_good_ua inp' \<longrightarrow> known_good_ua inp) \<and>
     (allowlisted inp' \<longrightarrow> allowlisted inp)"

lemma max0_bool_mono: "(a \<longrightarrow> b) \<Longrightarrow> max 0 (of_bool a * t) \<le> max 0 (of_bool b * (t::int))"
  by auto

lemma score_terms_mono:
  assumes le: "evidence_le inp inp'"
  shows "list_all2 (\<le>) (map (max 0) (score_terms inp w)) (map (max 0) (score_terms inp' w))"
proof -
  note ev = le [unfolded evidence_le_def]
  have "int (errrate_count inp) \<le> int (errrate_count inp')"
    using ev by simp
  then have e: "max 0 (max 0 (w_errrate w) * int (errrate_count inp)) \<le>
        max 0 (max 0 (w_errrate w) * int (errrate_count inp'))"
    by (intro max.mono mult_left_mono) simp_all
  have "crowdsec_hit inp \<longrightarrow> crowdsec_hit inp' \<and> crowdsec_action inp' = crowdsec_action inp"
    using ev by blast
  then have "max 0 (of_bool (crowdsec_hit inp) *
      sentinel_score_crowdsec_term (max 0 (w_crowdsec w)) (crowdsec_action inp)) \<le>
    max 0 (of_bool (crowdsec_hit inp') *
      sentinel_score_crowdsec_term (max 0 (w_crowdsec w)) (crowdsec_action inp'))"
    by (cases "crowdsec_hit inp") simp_all
  then show ?thesis
    unfolding score_terms_def list.map list_all2_Cons
    using ev by (intro conjI max0_bool_mono e) simp_all
qed

lemma sum_list_mono_all2:
  "list_all2 (\<le>) xs ys \<Longrightarrow> sum_list xs \<le> sum_list (ys :: int list)"
  by (induction rule: list_all2_induct) auto

lemma score_spec_mono:
  assumes "evidence_le inp inp'"
  shows "score_spec inp w \<le> score_spec inp' w"
proof (cases "score_exempt inp")
  case True
  then show ?thesis
    using score_spec_bounds [of inp' w] by (simp add: score_spec_def)
next
  case False
  then have "\<not> score_exempt inp'"
    using assms by (auto simp: score_exempt_def evidence_le_def)
  with False show ?thesis
    using sum_list_mono_all2 [OF score_terms_mono [OF assms, of w]]
    by (simp add: score_spec_def min_le_iff_disj)
qed

lemma to_verdict_mono:
  "s \<le> s' \<Longrightarrow> sentinel_score_to_verdict s thr \<le> sentinel_score_to_verdict s' thr"
  by (auto simp: sentinel_score_to_verdict_def less_eq_ngx_sentinel_verdict_def)

subsection \<open>CrowdSec bans\<close>

lemma score_ge_term:
  assumes "\<not> score_exempt inp" "t \<in> set (score_terms inp w)" "t \<le> NGX_SENTINEL_SCORE_MAX"
  shows "t \<le> score_spec inp w"
proof -
  have "max 0 t \<le> sum_list (map (max 0) (score_terms inp w))"
    using assms(2) by (intro member_le_sum_list) auto
  then show ?thesis using assms by (simp add: score_spec_def)
qed

lemma crowdsec_term_in:
  "crowdsec_hit inp \<Longrightarrow> 0 \<le> w_crowdsec w \<Longrightarrow>
     sentinel_score_crowdsec_term (w_crowdsec w) (crowdsec_action inp) \<in> set (score_terms inp w)"
  by (simp add: score_terms_def max_def)

text \<open>The score of a request under the default weights and thresholds.\<close>

definition default_verdict :: "ngx_sentinel_inputs \<Rightarrow> ngx_sentinel_verdict" where
  "default_verdict inp =
     sentinel_score_to_verdict (sentinel_score_compute (Some inp) (Some default_loc_conf))
       (lcf_threshold default_loc_conf)"

lemma default_loc_conf_score [simp]:
  "lcf_weights default_loc_conf = default_weights"
  "lcf_threshold default_loc_conf = default_threshold"
  by (simp_all add: default_loc_conf_def)

lemmas score_eval = compute_Some score_spec_def score_exempt_def score_terms_def zero_inputs_def
  default_weights_def default_threshold_def sentinel_score_to_verdict_def
  sentinel_score_crowdsec_term_def NGX_SENTINEL_SCORE_MAX_def

subsection \<open>Properties\<close>


text \<open>
  The score is always between zero and \<open>NGX_SENTINEL_SCORE_MAX\<close>, for any weights
  (negative or huge ones included), any error count and \<open>NULL\<close> arguments.
\<close>

theorem score_in_range:
  "0 \<le> sentinel_score_compute inp l \<and> sentinel_score_compute inp l \<le> NGX_SENTINEL_SCORE_MAX"
proof (cases "\<exists>i c. inp = Some i \<and> l = Some c")
  case True
  then show ?thesis using score_spec_bounds by (auto simp: compute_Some)
next
  case False
  then have "inp = None \<or> l = None" by (cases inp; cases l) auto
  then show ?thesis by (auto simp: NGX_SENTINEL_SCORE_MAX_def)
qed

text \<open>
  Claim C9: more evidence never lowers the verdict. If every signal of one request also fires
  for another, and nothing excuses the second that does not excuse the first, then the second
  request's verdict is at least as severe, under any thresholds.
\<close>

theorem verdict_monotone_in_evidence:
  assumes "evidence_le inp inp'"
  shows "sentinel_score_to_verdict (sentinel_score_compute (Some inp) (Some l)) (lcf_threshold l)
      \<le> sentinel_score_to_verdict (sentinel_score_compute (Some inp') (Some l)) (lcf_threshold l)"
  using assms by (simp add: compute_Some score_spec_mono to_verdict_mono)

theorem verdict_monotone_in_evidence_witness:
  "sentinel_score_to_verdict
     (sentinel_score_compute (Some (zero_inputs\<lparr>bot_ua := True\<rparr>)) (Some default_loc_conf))
     (lcf_threshold default_loc_conf)
   \<le> sentinel_score_to_verdict
     (sentinel_score_compute (Some (zero_inputs\<lparr>bot_ua := True, scanner_path := True\<rparr>))
        (Some default_loc_conf))
     (lcf_threshold default_loc_conf)"
  by (rule verdict_monotone_in_evidence) (simp add: evidence_le_def zero_inputs_def)

text \<open>The ban term alone reaches the block band.\<close>

lemma crowdsec_ban_verdict:
  assumes "crowdsec_hit inp" and "crowdsec_action inp = CS_BAN"
    and "thr_block (lcf_threshold l) \<le> w_crowdsec (lcf_weights l)"
    and "0 \<le> w_crowdsec (lcf_weights l)"
    and "w_crowdsec (lcf_weights l) \<le> NGX_SENTINEL_SCORE_MAX"
  shows "sentinel_score_to_verdict (sentinel_score_compute (Some inp) (Some l)) (lcf_threshold l)
      = VERDICT_BLOCK"
proof -
  have "w_crowdsec (lcf_weights l) \<in> set (score_terms inp (lcf_weights l))"
    using crowdsec_term_in [OF assms(1,4)] assms(2)
    by (simp add: sentinel_score_crowdsec_term_def)
  moreover have "\<not> score_exempt inp" using assms(1) by (simp add: score_exempt_def)
  ultimately have "w_crowdsec (lcf_weights l) \<le> score_spec inp (lcf_weights l)"
    using assms(5) by (intro score_ge_term)
  with assms(3) show ?thesis
    by (simp add: compute_Some sentinel_score_to_verdict_def)
qed



text \<open>
  The CrowdSec action tiers land in their bands. With the default weights and
  thresholds and no other signal, a captcha decision gives CHALLENGE, a throttle decision
  TARPIT and a ban BLOCK, so a weaker decision never escalates to a block.
\<close>

theorem crowdsec_tiers_default_bands:
  "default_verdict (zero_inputs\<lparr>crowdsec_hit := True, crowdsec_action := CS_CAPTCHA\<rparr>)
     = VERDICT_CHALLENGE
   \<and> default_verdict (zero_inputs\<lparr>crowdsec_hit := True, crowdsec_action := CS_THROTTLE\<rparr>)
     = VERDICT_TARPIT
   \<and> default_verdict (zero_inputs\<lparr>crowdsec_hit := True, crowdsec_action := CS_BAN\<rparr>)
     = VERDICT_BLOCK"
  by (simp add: default_verdict_def score_eval)

text \<open>
  A scanner path alone is challenged, not tarpitted. With the default weights and
  thresholds a request whose only signal is the scanner path scores 50, which is in the
  challenge band (30 to 59); the README announces the tarpit band for it.
\<close>

theorem scanner_path_alone_is_challenged:
  "sentinel_score_compute (Some (zero_inputs\<lparr>scanner_path := True\<rparr>)) (Some default_loc_conf) = 50
   \<and> default_verdict (zero_inputs\<lparr>scanner_path := True\<rparr>) = VERDICT_CHALLENGE"
  by (simp add: default_verdict_def score_eval)

end
