(* ===== verification/Sentinel_Module.thy ===== *)
theory Sentinel_Module
  imports Sentinel_Cssink Sentinel_Fcrdns Sentinel_Metrics Sentinel_Score
begin

text \<open>
  The request path of \<^verbatim>\<open>src/ngx_http_sentinel_module.c\<close>: the per-request context, the variables, the
  preaccess and the log handler, and what runs when a worker starts. \<open>worker\<close> is what the handlers
  share in one worker process (the main configuration with its zones, the shared rings by name,
  the Redis and the sink context, the DNS lookups under way), \<open>req_state\<close> what they write to the
  request. Log lines are not modelled. The module context of a request is one untyped pointer
  that the tarpit also uses (\<open>module_ctx\<close>); \<open>re_layout\<close> is what the bytes of a tarpit context read
  as when they are taken for a sentinel context.
\<close>

datatype module_ctx = NoCtx | SentinelCtx ngx_sentinel_ctx | TarpitCtx sentinel_tarpit_ctx

record worker =
  wk_mcf :: main_conf
  wk_rings :: "string \<Rightarrow> ngx_sentinel_ring option"
  wk_redis :: "sentinel_redis_ctx option"
  wk_sink :: "sentinel_cssink_ctx option"
  wk_lookups :: "sentinel_fcrdns_carrier list"

record req_state =
  rq_ctx :: module_ctx
  rq_limit_rate :: "int option"
  rq_pow :: pow_out
  rq_conn :: "tarpit_conn option"

text \<open>What one event sees of its surroundings: the cached clock, the allocations, the resolver,
  the proof-of-work and tarpit environments, the worker's number and \<open>NGX_SOCKADDR_STRLEN\<close>.\<close>

record req_env =
  re_now :: int
  re_alloc :: bool
  re_dns :: dns_env
  re_pow :: pow_env
  re_tarpit :: start_env
  re_worker :: nat
  re_strlen :: nat
  re_layout :: "sentinel_tarpit_ctx \<Rightarrow> ngx_sentinel_ctx"

type_synonym req_world = "worker \<times> req_state"

subsection \<open>The context\<close>

text \<open>The signals, in the order of the source.\<close>

definition gather_signals :: "ngx_api \<Rightarrow> req_env \<Rightarrow> request \<Rightarrow> loc_conf \<Rightarrow> main_conf \<Rightarrow>
    (inputs \<times> main_conf) \<times> sentinel_fcrdns_carrier option" where
  "gather_signals ngx env r lcf mcf =
     (let now = re_now env;
          inp = zero_inputs\<lparr>ja4h := sentinel_ja4h_compute ngx r\<rparr>;
          (inp, mcf) = sentinel_errrate_signal ngx now r lcf (inp, mcf);
          inp = sentinel_botua_signal r inp;
          inp = sentinel_header_signal ngx (Some r) inp;
          inp = sentinel_honeypot_signal (Some r) (Some lcf) inp;
          inp = sentinel_allowlist_signal ngx (Some r) (Some lcf) inp;
          (inp, mcf) = sentinel_velocity_signal ngx now (Some r) (Some lcf) (inp, mcf);
          inp = sentinel_asn_signal ngx (Some r) (Some lcf) inp;
          inp = sentinel_c2ip_signal ngx (Some r) (Some lcf) inp;
          inp = sentinel_ja3_signal ngx (Some r) (Some lcf) inp;
          inp = sentinel_ja4_signal ngx (Some r) (Some lcf) inp;
          inp = sentinel_ja4t_signal ngx (Some r) (Some lcf) inp;
          inp = sentinel_coherence_signal (Some r) inp;
          ((inp, mcf), lookup) = sentinel_fcrdns_signal ngx ((re_dns env)\<lparr>de_now := now\<rparr>) r lcf (inp, mcf)
      in (sentinel_crowdsec_signal ngx now r lcf (inp, mcf), lookup))"

definition new_ctx :: "inputs \<Rightarrow> loc_conf \<Rightarrow> ngx_sentinel_ctx" where
  "new_ctx inp lcf =
     (let score = sentinel_score_compute (Some inp) (Some lcf)
      in \<lparr>ctx_inputs = inp, ctx_score = score,
          ctx_verdict = sentinel_score_to_verdict score (lcf_threshold lcf), ctx_computed = True,
          ctx_throttled = False, ctx_shielded = False, ctx_pow_state = POW_OFF\<rparr>)"

definition ngx_sentinel_get_ctx :: "ngx_api \<Rightarrow> req_env \<Rightarrow> request \<Rightarrow> loc_conf \<Rightarrow> req_world \<Rightarrow>
    ngx_sentinel_ctx option \<times> req_world" where
  "ngx_sentinel_get_ctx ngx env r lcf st =
     (case st of (w, q) \<Rightarrow>
        (case rq_ctx q of
           SentinelCtx ctx \<Rightarrow> (Some ctx, st)
         | TarpitCtx t \<Rightarrow> (Some (re_layout env t), st)
         | NoCtx \<Rightarrow>
             if \<not> re_alloc env then (None, st)
             else
               (case gather_signals ngx env r lcf (wk_mcf w) of
                  ((inp, mcf), lookup) \<Rightarrow>
                    let ctx = new_ctx inp lcf
                    in (Some ctx,
                        w\<lparr>wk_mcf := mcf,
                          wk_lookups := (case lookup of None \<Rightarrow> wk_lookups w | Some c \<Rightarrow> c # wk_lookups w)\<rparr>,
                        q\<lparr>rq_ctx := SentinelCtx ctx\<rparr>))))"

text \<open>A store through the context pointer. Where the pointer is the tarpit's, the store goes into
  the tarpit context, which the model leaves alone.\<close>

definition store_ctx :: "ngx_sentinel_ctx \<Rightarrow> req_state \<Rightarrow> req_state" where
  "store_ctx ctx q = (case rq_ctx q of SentinelCtx c \<Rightarrow> q\<lparr>rq_ctx := SentinelCtx ctx\<rparr> | _ \<Rightarrow> q)"

subsection \<open>Variables\<close>

text \<open>A variable: not found, an error of the handler, or its bytes and whether it may be cached.\<close>

datatype var_value = VarNotFound | VarError | VarValue string bool

definition with_ctx :: "ngx_api \<Rightarrow> req_env \<Rightarrow> request \<Rightarrow> loc_conf \<Rightarrow> (ngx_sentinel_ctx \<Rightarrow> var_value) \<Rightarrow>
    req_world \<Rightarrow> var_value \<times> req_world" where
  "with_ctx ngx env r lcf f st =
     (case ngx_sentinel_get_ctx ngx env r lcf st of
        (None, st) \<Rightarrow> (VarNotFound, st)
      | (Some ctx, st) \<Rightarrow> (f ctx, st))"

definition flag_value :: "bool \<Rightarrow> var_value" where
  "flag_value b = VarValue (if b then ''1'' else ''0'') True"

text \<open>\<open>alloc\<close>: whether the digits' buffer could be allocated.\<close>

definition ngx_sentinel_var_score :: "ngx_api \<Rightarrow> req_env \<Rightarrow> request \<Rightarrow> loc_conf \<Rightarrow> bool \<Rightarrow> req_world \<Rightarrow>
    var_value \<times> req_world" where
  "ngx_sentinel_var_score ngx env r lcf alloc =
     with_ctx ngx env r lcf (\<lambda>ctx. if \<not> alloc then VarError else VarValue (sprint_int ngx (ctx_score ctx)) True)"

definition verdict_strings :: "string list" where
  "verdict_strings = [''allow'', ''challenge'', ''tarpit'', ''block'']"

definition ngx_sentinel_var_verdict :: "ngx_api \<Rightarrow> req_env \<Rightarrow> request \<Rightarrow> loc_conf \<Rightarrow> req_world \<Rightarrow>
    var_value \<times> req_world" where
  "ngx_sentinel_var_verdict ngx env r lcf =
     with_ctx ngx env r lcf (\<lambda>ctx. VarValue (verdict_strings ! verdict_index (ctx_verdict ctx)) True)"

definition ngx_sentinel_var_ja4h :: "ngx_api \<Rightarrow> req_env \<Rightarrow> request \<Rightarrow> loc_conf \<Rightarrow> req_world \<Rightarrow>
    var_value \<times> req_world" where
  "ngx_sentinel_var_ja4h ngx env r lcf =
     with_ctx ngx env r lcf (\<lambda>ctx. VarValue (take NGX_SENTINEL_JA4H_HEX_LEN (ja4h (ctx_inputs ctx))) True)"

definition ngx_sentinel_var_header :: "ngx_api \<Rightarrow> req_env \<Rightarrow> request \<Rightarrow> loc_conf \<Rightarrow> req_world \<Rightarrow>
    var_value \<times> req_world" where
  "ngx_sentinel_var_header ngx env r lcf =
     with_ctx ngx env r lcf (\<lambda>ctx. flag_value (header_anomaly (ctx_inputs ctx)))"

definition ngx_sentinel_var_honeypot :: "ngx_api \<Rightarrow> req_env \<Rightarrow> request \<Rightarrow> loc_conf \<Rightarrow> req_world \<Rightarrow>
    var_value \<times> req_world" where
  "ngx_sentinel_var_honeypot ngx env r lcf =
     with_ctx ngx env r lcf (\<lambda>ctx. flag_value (honeypot (ctx_inputs ctx)))"

definition ngx_sentinel_var_velocity :: "ngx_api \<Rightarrow> req_env \<Rightarrow> request \<Rightarrow> loc_conf \<Rightarrow> req_world \<Rightarrow>
    var_value \<times> req_world" where
  "ngx_sentinel_var_velocity ngx env r lcf =
     with_ctx ngx env r lcf (\<lambda>ctx. flag_value (velocity_exceeded (ctx_inputs ctx)))"

definition ngx_sentinel_var_asn :: "ngx_api \<Rightarrow> req_env \<Rightarrow> request \<Rightarrow> loc_conf \<Rightarrow> req_world \<Rightarrow>
    var_value \<times> req_world" where
  "ngx_sentinel_var_asn ngx env r lcf =
     with_ctx ngx env r lcf (\<lambda>ctx. flag_value (datacenter_asn (ctx_inputs ctx)))"

definition ngx_sentinel_var_c2ip :: "ngx_api \<Rightarrow> req_env \<Rightarrow> request \<Rightarrow> loc_conf \<Rightarrow> req_world \<Rightarrow>
    var_value \<times> req_world" where
  "ngx_sentinel_var_c2ip ngx env r lcf =
     with_ctx ngx env r lcf (\<lambda>ctx. flag_value (c2ip_flagged (ctx_inputs ctx)))"

definition ngx_sentinel_var_ja3 :: "ngx_api \<Rightarrow> req_env \<Rightarrow> request \<Rightarrow> loc_conf \<Rightarrow> req_world \<Rightarrow>
    var_value \<times> req_world" where
  "ngx_sentinel_var_ja3 ngx env r lcf =
     with_ctx ngx env r lcf (\<lambda>ctx. flag_value (ja3_flagged (ctx_inputs ctx)))"

definition ngx_sentinel_var_ja4 :: "ngx_api \<Rightarrow> req_env \<Rightarrow> request \<Rightarrow> loc_conf \<Rightarrow> req_world \<Rightarrow>
    var_value \<times> req_world" where
  "ngx_sentinel_var_ja4 ngx env r lcf =
     with_ctx ngx env r lcf (\<lambda>ctx. flag_value (ja4_flagged (ctx_inputs ctx)))"

definition ngx_sentinel_var_ja4t :: "ngx_api \<Rightarrow> req_env \<Rightarrow> request \<Rightarrow> loc_conf \<Rightarrow> req_world \<Rightarrow>
    var_value \<times> req_world" where
  "ngx_sentinel_var_ja4t ngx env r lcf =
     with_ctx ngx env r lcf (\<lambda>ctx. flag_value (ja4t_flagged (ctx_inputs ctx)))"

definition ngx_sentinel_var_coherence :: "ngx_api \<Rightarrow> req_env \<Rightarrow> request \<Rightarrow> loc_conf \<Rightarrow> req_world \<Rightarrow>
    var_value \<times> req_world" where
  "ngx_sentinel_var_coherence ngx env r lcf =
     with_ctx ngx env r lcf (\<lambda>ctx. flag_value (ua_incoherent (ctx_inputs ctx)))"

definition ngx_sentinel_var_fcrdns :: "ngx_api \<Rightarrow> req_env \<Rightarrow> request \<Rightarrow> loc_conf \<Rightarrow> req_world \<Rightarrow>
    var_value \<times> req_world" where
  "ngx_sentinel_var_fcrdns ngx env r lcf =
     with_ctx ngx env r lcf (\<lambda>ctx.
       VarValue (if fcrdns_verified (ctx_inputs ctx) then ''verified''
                 else if fcrdns_spoofed (ctx_inputs ctx) then ''spoofed'' else ''pending'') True)"

definition ngx_sentinel_var_allowlist :: "ngx_api \<Rightarrow> req_env \<Rightarrow> request \<Rightarrow> loc_conf \<Rightarrow> req_world \<Rightarrow>
    var_value \<times> req_world" where
  "ngx_sentinel_var_allowlist ngx env r lcf =
     with_ctx ngx env r lcf (\<lambda>ctx. flag_value (allowlisted (ctx_inputs ctx)))"

definition ngx_sentinel_var_bot :: "ngx_api \<Rightarrow> req_env \<Rightarrow> request \<Rightarrow> loc_conf \<Rightarrow> req_world \<Rightarrow>
    var_value \<times> req_world" where
  "ngx_sentinel_var_bot ngx env r lcf =
     with_ctx ngx env r lcf (\<lambda>ctx. flag_value (bot_ua (ctx_inputs ctx)))"

definition ngx_sentinel_var_shield :: "ngx_api \<Rightarrow> req_env \<Rightarrow> request \<Rightarrow> loc_conf \<Rightarrow> req_world \<Rightarrow>
    var_value \<times> req_world" where
  "ngx_sentinel_var_shield ngx env r lcf =
     with_ctx ngx env r lcf (\<lambda>ctx. VarValue (if ctx_shielded ctx then ''1'' else ''0'') False)"

definition ngx_sentinel_var_throttled :: "ngx_api \<Rightarrow> req_env \<Rightarrow> request \<Rightarrow> loc_conf \<Rightarrow> req_world \<Rightarrow>
    var_value \<times> req_world" where
  "ngx_sentinel_var_throttled ngx env r lcf =
     with_ctx ngx env r lcf (\<lambda>ctx. VarValue (if ctx_throttled ctx then ''1'' else ''0'') False)"

definition ngx_sentinel_var_pow :: "ngx_api \<Rightarrow> req_env \<Rightarrow> request \<Rightarrow> loc_conf \<Rightarrow> req_world \<Rightarrow>
    var_value \<times> req_world" where
  "ngx_sentinel_var_pow ngx env r lcf =
     with_ctx ngx env r lcf (\<lambda>ctx.
       VarValue (case ctx_pow_state ctx of POW_VERIFIED \<Rightarrow> ''verified'' | POW_CHALLENGE \<Rightarrow> ''challenge'' | POW_OFF \<Rightarrow> ''off'')
         False)"

definition ngx_sentinel_var_scanner :: "ngx_api \<Rightarrow> req_env \<Rightarrow> request \<Rightarrow> loc_conf \<Rightarrow> req_world \<Rightarrow>
    var_value \<times> req_world" where
  "ngx_sentinel_var_scanner ngx env r lcf =
     with_ctx ngx env r lcf (\<lambda>ctx. flag_value (scanner_path (ctx_inputs ctx)))"

definition ngx_sentinel_var_errrate :: "ngx_api \<Rightarrow> req_env \<Rightarrow> request \<Rightarrow> loc_conf \<Rightarrow> bool \<Rightarrow> req_world \<Rightarrow>
    var_value \<times> req_world" where
  "ngx_sentinel_var_errrate ngx env r lcf alloc =
     with_ctx ngx env r lcf (\<lambda>ctx.
       if \<not> alloc then VarError else VarValue (sprint_int ngx (int (errrate_count (ctx_inputs ctx)))) True)"

definition ngx_sentinel_var_crowdsec :: "ngx_api \<Rightarrow> req_env \<Rightarrow> request \<Rightarrow> loc_conf \<Rightarrow> req_world \<Rightarrow>
    var_value \<times> req_world" where
  "ngx_sentinel_var_crowdsec ngx env r lcf =
     with_ctx ngx env r lcf (\<lambda>ctx. flag_value (crowdsec_hit (ctx_inputs ctx)))"

fun sentinel_cs_action_strings :: "cs_action_tier \<Rightarrow> string" where
  "sentinel_cs_action_strings CS_NONE = ''none''"
| "sentinel_cs_action_strings CS_BAN = ''ban''"
| "sentinel_cs_action_strings CS_CAPTCHA = ''captcha''"
| "sentinel_cs_action_strings CS_THROTTLE = ''throttle''"
| "sentinel_cs_action_strings (CS_OTHER act) = ''none''"

definition ngx_sentinel_var_crowdsec_action :: "ngx_api \<Rightarrow> req_env \<Rightarrow> request \<Rightarrow> loc_conf \<Rightarrow> req_world \<Rightarrow>
    var_value \<times> req_world" where
  "ngx_sentinel_var_crowdsec_action ngx env r lcf =
     with_ctx ngx env r lcf (\<lambda>ctx. VarValue (sentinel_cs_action_strings (crowdsec_action (ctx_inputs ctx))) True)"

subsection \<open>The preaccess handler\<close>

text \<open>The soft ban of a block.\<close>

definition block_softban :: "ngx_api \<Rightarrow> int \<Rightarrow> request \<Rightarrow> loc_conf \<Rightarrow> main_conf \<Rightarrow> main_conf" where
  "block_softban ngx now r lcf mcf =
     (case lcf_zone lcf of
        None \<Rightarrow> mcf
      | Some i \<Rightarrow>
          if lcf_block_ttl lcf > 0 \<and> r_addr_text r \<noteq> []
          then mcf\<lparr>mcf_zones :=
                 snd (call_zone (\<lambda>z. sentinel_shm_softban_set ngx z (sha256 ngx (r_addr_text r)) now (lcf_block_ttl lcf))
                        i (mcf_zones mcf))\<rparr>
          else mcf)"

text \<open>The two exports of a block.\<close>

definition block_export :: "int \<Rightarrow> nat \<Rightarrow> request \<Rightarrow> loc_conf \<Rightarrow> ngx_sentinel_ctx \<Rightarrow> worker \<Rightarrow> worker" where
  "block_export now strlen r lcf ctx w =
     (let ip = r_addr_text r;
          local_ban = (\<not> crowdsec_hit (ctx_inputs ctx) \<and> ip \<noteq> []);
          w = (if length (lcf_redis_host lcf) > 0 \<and> local_ban
               then w\<lparr>wk_rings := sentinel_redis_enqueue_ban strlen (wk_redis w) lcf ip CS_BAN
                        (now + lcf_redis_ttl lcf) (wk_rings w)\<rparr>
               else w)
      in if length (lcf_cs_sink_path lcf) > 0 \<and> local_ban
         then w\<lparr>wk_rings := sentinel_cssink_enqueue_ban strlen (wk_sink w) lcf ip CS_BAN
                  (now + lcf_cs_sink_ttl lcf) (wk_rings w)\<rparr>
         else w)"

definition enforce_challenge :: "ngx_api \<Rightarrow> req_env \<Rightarrow> request \<Rightarrow> loc_conf \<Rightarrow> ngx_sentinel_ctx \<Rightarrow> req_world \<Rightarrow>
    ngx_rc \<times> req_world" where
  "enforce_challenge ngx env r lcf ctx st =
     (case st of (w, q) \<Rightarrow>
        (case sentinel_pow_dispatch ngx ((re_pow env)\<lparr>pe_now := re_now env\<rparr>) r lcf ctx of
           (prc, ctx, out) \<Rightarrow>
             let q = (store_ctx ctx q)\<lparr>rq_pow := out\<rparr>
             in if prc = NGX_DONE then (NGX_DONE, w, q) else (NGX_DECLINED, w, q)))"

definition enforce_tarpit :: "req_env \<Rightarrow> loc_conf \<Rightarrow> ngx_sentinel_ctx \<Rightarrow> req_world \<Rightarrow> ngx_rc \<times> req_world" where
  "enforce_tarpit env lcf ctx st =
     (case st of (w, q) \<Rightarrow>
        if lcf_throttle_rate lcf > 0
        then (NGX_DECLINED, w, (store_ctx (ctx\<lparr>ctx_throttled := True\<rparr>) q)\<lparr>rq_limit_rate := Some (lcf_throttle_rate lcf)\<rparr>)
        else if lcf_shield lcf \<noteq> 0
        then (NGX_DECLINED, w, store_ctx (ctx\<lparr>ctx_shielded := True\<rparr>) q)
        else if lcf_tarpit_max_conns lcf = 0 then (NGX_HTTP_CLOSE, w, q)
        else
          (case sentinel_tarpit_start (re_tarpit env) (re_worker env) lcf (mcf_tarpit_conns (wk_mcf w)) of
             (trc, conns, cn) \<Rightarrow>
               let w = w\<lparr>wk_mcf := (wk_mcf w)\<lparr>mcf_tarpit_conns := conns\<rparr>\<rparr>;
                   q = q\<lparr>rq_conn := cn,
                         rq_ctx := (case cn of None \<Rightarrow> rq_ctx q
                                    | Some c \<Rightarrow> if cn_has_ctx c then TarpitCtx (cn_tctx c) else rq_ctx q)\<rparr>
               in if trc = NGX_DONE then (NGX_DONE, w, q)
                  else if trc = NGX_HTTP_CLOSE then (NGX_HTTP_CLOSE, w, q)
                  else (NGX_DECLINED, w, q)))"

definition enforce_block :: "ngx_api \<Rightarrow> req_env \<Rightarrow> request \<Rightarrow> loc_conf \<Rightarrow> ngx_sentinel_ctx \<Rightarrow> req_world \<Rightarrow>
    ngx_rc \<times> req_world" where
  "enforce_block ngx env r lcf ctx st =
     (case st of (w, q) \<Rightarrow>
        let w = w\<lparr>wk_mcf := block_softban ngx (re_now env) r lcf (wk_mcf w)\<rparr>;
            w = block_export (re_now env) (re_strlen env) r lcf ctx w
        in (NGX_STATUS (lcf_block_status lcf), w, q))"

definition ngx_sentinel_preaccess_handler :: "ngx_api \<Rightarrow> req_env \<Rightarrow> request \<Rightarrow> loc_conf \<Rightarrow> req_world \<Rightarrow>
    ngx_rc \<times> req_world" where
  "ngx_sentinel_preaccess_handler ngx env r lcf st =
     (if lcf_enabled lcf = 0 then (NGX_DECLINED, st)
      else
        (case ngx_sentinel_get_ctx ngx env r lcf st of
           (None, st) \<Rightarrow> (NGX_DECLINED, st)
         | (Some ctx, w, q) \<Rightarrow>
             let w = w\<lparr>wk_mcf := sentinel_metrics_record ctx (lcf_shadow lcf) (wk_mcf w)\<rparr>
             in if lcf_shadow lcf \<noteq> 0 then (NGX_DECLINED, w, q)
                else
                  (case ctx_verdict ctx of
                     VERDICT_ALLOW \<Rightarrow> (NGX_DECLINED, w, q)
                   | VERDICT_CHALLENGE \<Rightarrow> enforce_challenge ngx env r lcf ctx (w, q)
                   | VERDICT_TARPIT \<Rightarrow> enforce_tarpit env lcf ctx (w, q)
                   | VERDICT_BLOCK \<Rightarrow> enforce_block ngx env r lcf ctx (w, q))))"

subsection \<open>The log handler\<close>

definition record_in :: "ngx_api \<Rightarrow> int \<Rightarrow> string \<Rightarrow> nat \<Rightarrow> ngx_sentinel_zone list \<Rightarrow> ngx_sentinel_zone list" where
  "record_in ngx now key i zs = snd (call_zone (\<lambda>z. sentinel_shm_errrate_record ngx z key now) i zs)"

definition ngx_sentinel_log_handler :: "ngx_api \<Rightarrow> int \<Rightarrow> request \<Rightarrow> loc_conf \<Rightarrow> main_conf \<Rightarrow> ngx_rc \<times> main_conf" where
  "ngx_sentinel_log_handler ngx now r lcf mcf =
     (if lcf_enabled lcf = 0 then (NGX_OK, mcf)
      else if length (r_addr_text r) = 0 then (NGX_OK, mcf)
      else
        let key = sha256 ngx (r_addr_text r);
            mcf = (case zone_at (lcf_vel_zone lcf) of
                     None \<Rightarrow> mcf
                   | Some i \<Rightarrow> mcf\<lparr>mcf_vel_zones := record_in ngx now key i (mcf_vel_zones mcf)\<rparr>)
        in case lcf_zone lcf of
             None \<Rightarrow> (NGX_OK, mcf)
           | Some i \<Rightarrow>
               let status = (if r_err_status r \<noteq> 0 then r_err_status r else r_out_status r)
               in if status < 400 then (NGX_OK, mcf)
                  else (NGX_OK, mcf\<lparr>mcf_zones := record_in ngx now key i (mcf_zones mcf)\<rparr>))"

subsection \<open>Start-up\<close>

text \<open>The shared segment of the counters; the parameters are what \<open>ngx_shared_memory_add\<close> answers
  and the page size.\<close>

definition ngx_sentinel_init_tarpit_shm :: "ngx_api \<Rightarrow> ngx_rc" where
  "ngx_sentinel_init_tarpit_shm ngx =
     (if \<not> shared_memory_add ngx ''sentinel_tarpit_conns'' (8 * pagesize ngx) then NGX_ERROR else NGX_OK)"

text \<open>\<open>push1\<close> and \<open>push2\<close>: whether the two handlers could be registered.\<close>

definition ngx_sentinel_init :: "ngx_api \<Rightarrow> bool \<Rightarrow> bool \<Rightarrow> main_conf option \<Rightarrow> ngx_rc" where
  "ngx_sentinel_init ngx push1 push2 mcf =
     (if \<not> push1 then NGX_ERROR
      else if \<not> push2 then NGX_ERROR
      else if mcf \<noteq> None \<and> ngx_sentinel_init_tarpit_shm ngx \<noteq> NGX_OK then NGX_ERROR
      else NGX_OK)"

text \<open>\<open>block\<close> is the block in an inherited segment (\<open>None\<close>: the segment is new), \<open>alloc\<close> whether the
  slab has room for it. The result has the block that the pool now points to.\<close>

definition ngx_sentinel_tarpit_shm_init :: "(64 word list \<times> (ngx_sentinel_metric \<Rightarrow> 64 word)) option \<Rightarrow> bool \<Rightarrow>
    main_conf \<Rightarrow> ngx_rc \<times> main_conf \<times> (64 word list \<times> (ngx_sentinel_metric \<Rightarrow> 64 word)) option" where
  "ngx_sentinel_tarpit_shm_init block alloc mcf =
     (case block of
        Some (conns, metrics) \<Rightarrow> (NGX_OK, mcf\<lparr>mcf_tarpit_conns := Some conns, mcf_metrics := Some metrics\<rparr>, block)
      | None \<Rightarrow>
          if \<not> alloc then (NGX_ERROR, mcf, None)
          else
            let conns = replicate NGX_MAX_PROCESSES 0; metrics = (\<lambda>_. 0)
            in (NGX_OK, mcf\<lparr>mcf_tarpit_conns := Some conns, mcf_metrics := Some metrics\<rparr>, Some (conns, metrics)))"

text \<open>The four parts that a worker starts: its tarpit slot, the feed timers, the Redis and the sink
  context. None of them refuses to start.\<close>

definition ngx_sentinel_init_process :: "(loc_conf option \<times> location_tree) list \<Rightarrow> nat \<Rightarrow> bool \<Rightarrow> bool \<Rightarrow> bool \<Rightarrow>
    worker \<Rightarrow> ngx_rc \<times> worker \<times> (sentinel_feed_timer \<times> int) list" where
  "ngx_sentinel_init_process servers n alloc_redis alloc_sink alloc_set w =
     (let mcf = wk_mcf w;
          w = w\<lparr>wk_mcf := mcf\<lparr>mcf_tarpit_conns := sentinel_tarpit_init_process n (mcf_tarpit_conns mcf)\<rparr>\<rparr>;
          timers = sentinel_crowdsec_init_process (map snd servers);
          w = w\<lparr>wk_redis := sentinel_redis_init_process servers alloc_redis (wk_rings w)\<rparr>;
          w = w\<lparr>wk_sink := sentinel_cssink_init_process servers n alloc_sink alloc_set (wk_rings w)\<rparr>
      in (NGX_OK, w, timers))"

subsection \<open>What the signals write\<close>

lemmas signal_defs = sentinel_botua_signal_def sentinel_header_signal_def sentinel_honeypot_signal_def
  sentinel_allowlist_signal_def sentinel_asn_signal_def sentinel_c2ip_signal_def sentinel_ja3_signal_def
  sentinel_ja4_signal_def sentinel_ja4t_signal_def sentinel_coherence_signal_def

lemma signals_keep_block [simp]:
  "errrate_blocked (sentinel_botua_signal r inp) = errrate_blocked inp"
  "errrate_blocked (sentinel_header_signal ngx ro inp) = errrate_blocked inp"
  "errrate_blocked (sentinel_honeypot_signal ro lo inp) = errrate_blocked inp"
  "errrate_blocked (sentinel_allowlist_signal ngx ro lo inp) = errrate_blocked inp"
  "errrate_blocked (sentinel_asn_signal ngx ro lo inp) = errrate_blocked inp"
  "errrate_blocked (sentinel_c2ip_signal ngx ro lo inp) = errrate_blocked inp"
  "errrate_blocked (sentinel_ja3_signal ngx ro lo inp) = errrate_blocked inp"
  "errrate_blocked (sentinel_ja4_signal ngx ro lo inp) = errrate_blocked inp"
  "errrate_blocked (sentinel_ja4t_signal ngx ro lo inp) = errrate_blocked inp"
  "errrate_blocked (sentinel_coherence_signal ro inp) = errrate_blocked inp"
  by (auto simp: signal_defs Let_def split: option.splits if_splits sockaddr.splits)

lemma signals_keep_claim [simp]:
  "known_good_ua (sentinel_header_signal ngx ro inp) = known_good_ua inp"
  "known_good_ua (sentinel_honeypot_signal ro lo inp) = known_good_ua inp"
  "known_good_ua (sentinel_allowlist_signal ngx ro lo inp) = known_good_ua inp"
  "known_good_ua (sentinel_asn_signal ngx ro lo inp) = known_good_ua inp"
  "known_good_ua (sentinel_c2ip_signal ngx ro lo inp) = known_good_ua inp"
  "known_good_ua (sentinel_ja3_signal ngx ro lo inp) = known_good_ua inp"
  "known_good_ua (sentinel_ja4_signal ngx ro lo inp) = known_good_ua inp"
  "known_good_ua (sentinel_ja4t_signal ngx ro lo inp) = known_good_ua inp"
  "known_good_ua (sentinel_coherence_signal ro inp) = known_good_ua inp"
  by (auto simp: signal_defs Let_def split: option.splits if_splits sockaddr.splits)

lemma signals_keep_allowlist [simp]:
  "allowlisted (sentinel_botua_signal r inp) = allowlisted inp"
  "allowlisted (sentinel_header_signal ngx ro inp) = allowlisted inp"
  "allowlisted (sentinel_honeypot_signal ro lo inp) = allowlisted inp"
  "allowlisted (sentinel_asn_signal ngx ro lo inp) = allowlisted inp"
  "allowlisted (sentinel_c2ip_signal ngx ro lo inp) = allowlisted inp"
  "allowlisted (sentinel_ja3_signal ngx ro lo inp) = allowlisted inp"
  "allowlisted (sentinel_ja4_signal ngx ro lo inp) = allowlisted inp"
  "allowlisted (sentinel_ja4t_signal ngx ro lo inp) = allowlisted inp"
  "allowlisted (sentinel_coherence_signal ro inp) = allowlisted inp"
  by (auto simp: signal_defs Let_def split: option.splits if_splits sockaddr.splits)

text \<open>A signal does not depend on what was gathered before it.\<close>

lemma signal_alone:
  "known_good_ua (sentinel_botua_signal r inp) = known_good_ua (sentinel_botua_signal r inp')"
  "allowlisted (sentinel_allowlist_signal ngx ro lo inp) = allowlisted (sentinel_allowlist_signal ngx ro lo inp')"
  by (auto simp: sentinel_botua_signal_def sentinel_allowlist_signal_def Let_def split: option.splits if_splits)

lemma errrate_frame:
  assumes "sentinel_errrate_signal ngx now r lcf (inp, mcf) = (inp', mcf')"
  shows "mcf_cs_zones mcf' = mcf_cs_zones mcf" "mcf_tarpit_conns mcf' = mcf_tarpit_conns mcf" "mcf_metrics mcf' = mcf_metrics mcf"
  using assms by (auto simp: sentinel_errrate_signal_def Let_def split: option.splits if_splits prod.splits)

lemma velocity_frame:
  assumes "sentinel_velocity_signal ngx now (Some r) (Some lcf) (inp, mcf) = (inp', mcf')"
  shows "mcf_zones mcf' = mcf_zones mcf" "mcf_cs_zones mcf' = mcf_cs_zones mcf" "mcf_tarpit_conns mcf' = mcf_tarpit_conns mcf" "mcf_metrics mcf' = mcf_metrics mcf"
    "errrate_blocked inp' = errrate_blocked inp" "known_good_ua inp' = known_good_ua inp" "allowlisted inp' = allowlisted inp"
  using assms by (auto simp: sentinel_velocity_signal_def Let_def split: option.splits if_splits prod.splits)

lemma fcrdns_frame:
  assumes "sentinel_fcrdns_signal ngx env r lcf (inp, mcf) = ((inp', mcf'), l)"
  shows "mcf_zones mcf' = mcf_zones mcf" "mcf_cs_zones mcf' = mcf_cs_zones mcf" "mcf_tarpit_conns mcf' = mcf_tarpit_conns mcf" "mcf_metrics mcf' = mcf_metrics mcf"
    "errrate_blocked inp' = errrate_blocked inp" "known_good_ua inp' = known_good_ua inp" "allowlisted inp' = allowlisted inp"
  using assms by (auto simp: sentinel_fcrdns_signal_def Let_def split: option.splits if_splits prod.splits)

lemma crowdsec_frame:
  assumes "sentinel_crowdsec_signal ngx now r lcf (inp, mcf) = (inp', mcf')"
  shows "mcf_zones mcf' = mcf_zones mcf" "mcf_tarpit_conns mcf' = mcf_tarpit_conns mcf" "mcf_metrics mcf' = mcf_metrics mcf"
    "errrate_blocked inp' = errrate_blocked inp" "known_good_ua inp' = known_good_ua inp" "allowlisted inp' = allowlisted inp"
  using assms by (auto simp: sentinel_crowdsec_signal_def Let_def split: option.splits if_splits prod.splits)

text \<open>The whole pass: the error-rate signal decides the block bit on the zones as they are, the
  CrowdSec signal its hit on the ban tables as they are, and no signal writes the counters.\<close>

lemma gather_frame:
  assumes g: "gather_signals ngx env r lcf mcf = ((inp, mcf'), l)"
    and e: "sentinel_errrate_signal ngx (re_now env) r lcf (zero_inputs\<lparr>ja4h := sentinel_ja4h_compute ngx r\<rparr>, mcf) = (inp1, mcf1)"
  shows "errrate_blocked inp = errrate_blocked inp1" "mcf_zones mcf' = mcf_zones mcf1"
    "known_good_ua inp = known_good_ua (sentinel_botua_signal r zero_inputs)"
    "allowlisted inp = allowlisted (sentinel_allowlist_signal ngx (Some r) (Some lcf) zero_inputs)"
    "mcf_tarpit_conns mcf' = mcf_tarpit_conns mcf" "mcf_metrics mcf' = mcf_metrics mcf"
    "\<exists>inp2 mcf2. sentinel_crowdsec_signal ngx (re_now env) r lcf (inp2, mcf2) = (inp, mcf') \<and> mcf_cs_zones mcf2 = mcf_cs_zones mcf"
proof -
  let ?i1 = "sentinel_allowlist_signal ngx (Some r) (Some lcf) (sentinel_honeypot_signal (Some r) (Some lcf)
    (sentinel_header_signal ngx (Some r) (sentinel_botua_signal r inp1)))"
  obtain inp2 mcf2 where v: "sentinel_velocity_signal ngx (re_now env) (Some r) (Some lcf) (?i1, mcf1) = (inp2, mcf2)"
    by fastforce
  let ?i2 = "sentinel_coherence_signal (Some r) (sentinel_ja4t_signal ngx (Some r) (Some lcf)
    (sentinel_ja4_signal ngx (Some r) (Some lcf) (sentinel_ja3_signal ngx (Some r) (Some lcf)
    (sentinel_c2ip_signal ngx (Some r) (Some lcf) (sentinel_asn_signal ngx (Some r) (Some lcf) inp2)))))"
  obtain inp3 mcf3 l' where f: "sentinel_fcrdns_signal ngx ((re_dns env)\<lparr>de_now := re_now env\<rparr>) r lcf (?i2, mcf2) = ((inp3, mcf3), l')"
    by (metis prod.exhaust)
  have c: "sentinel_crowdsec_signal ngx (re_now env) r lcf (inp3, mcf3) = (inp, mcf')"
    using g by (simp add: gather_signals_def Let_def e v f)
  note frames = errrate_frame [OF e] velocity_frame [OF v] fcrdns_frame [OF f] crowdsec_frame [OF c]
  show "errrate_blocked inp = errrate_blocked inp1" using frames by simp
  show "mcf_zones mcf' = mcf_zones mcf1" using frames by simp
  show "known_good_ua inp = known_good_ua (sentinel_botua_signal r zero_inputs)"
    using frames signal_alone(1) [of r inp1 zero_inputs] by simp
  show "allowlisted inp = allowlisted (sentinel_allowlist_signal ngx (Some r) (Some lcf) zero_inputs)"
    using frames signal_alone(2) [of ngx "Some r" "Some lcf" "sentinel_honeypot_signal (Some r) (Some lcf)
      (sentinel_header_signal ngx (Some r) (sentinel_botua_signal r inp1))" zero_inputs] by simp
  show "mcf_tarpit_conns mcf' = mcf_tarpit_conns mcf" using frames by simp
  show "mcf_metrics mcf' = mcf_metrics mcf" using frames by simp
  show "\<exists>inp2 mcf2. sentinel_crowdsec_signal ngx (re_now env) r lcf (inp2, mcf2) = (inp, mcf') \<and> mcf_cs_zones mcf2 = mcf_cs_zones mcf"
    using c frames by (intro exI [of _ inp3] exI [of _ mcf3]) simp
qed

lemma get_ctx_new:
  assumes "rq_ctx q = NoCtx" "re_alloc env" "gather_signals ngx env r lcf (wk_mcf w) = ((inp, mcf), l)"
  shows "ngx_sentinel_get_ctx ngx env r lcf (w, q) =
    (Some (new_ctx inp lcf),
     w\<lparr>wk_mcf := mcf, wk_lookups := (case l of None \<Rightarrow> wk_lookups w | Some c \<Rightarrow> c # wk_lookups w)\<rparr>,
     q\<lparr>rq_ctx := SentinelCtx (new_ctx inp lcf)\<rparr>)"
  using assms by (simp add: ngx_sentinel_get_ctx_def Let_def)

lemma get_ctx_frame:
  assumes "ngx_sentinel_get_ctx ngx env r lcf (w, q) = (c, w', q')"
  shows "wk_rings w' = wk_rings w" "wk_redis w' = wk_redis w" "wk_sink w' = wk_sink w"
    "mcf_tarpit_conns (wk_mcf w') = mcf_tarpit_conns (wk_mcf w)" "mcf_metrics (wk_mcf w') = mcf_metrics (wk_mcf w)"
    "q' = q\<lparr>rq_ctx := rq_ctx q'\<rparr>"
proof -
  obtain inp1 mcf1 where e: "sentinel_errrate_signal ngx (re_now env) r lcf
      (zero_inputs\<lparr>ja4h := sentinel_ja4h_compute ngx r\<rparr>, wk_mcf w) = (inp1, mcf1)" by fastforce
  note g = gather_frame [OF _ e]
  show "wk_rings w' = wk_rings w" "wk_redis w' = wk_redis w" "wk_sink w' = wk_sink w" "q' = q\<lparr>rq_ctx := rq_ctx q'\<rparr>"
    using assms by (auto simp: ngx_sentinel_get_ctx_def Let_def split: module_ctx.splits if_splits prod.splits)
  show "mcf_tarpit_conns (wk_mcf w') = mcf_tarpit_conns (wk_mcf w)" "mcf_metrics (wk_mcf w') = mcf_metrics (wk_mcf w)"
    using assms g(5,6) by (auto simp: ngx_sentinel_get_ctx_def Let_def split: module_ctx.splits if_splits prod.splits)
qed

text \<open>A second access finds the context of the first and gathers nothing, whatever has happened
  in between to the clock, the allocator or the configuration.\<close>

lemma get_ctx_again:
  assumes "ngx_sentinel_get_ctx ngx env r lcf st = (Some ctx, st')" "re_layout env' = re_layout env"
  shows "ngx_sentinel_get_ctx ngx env' r lcf' st' = (Some ctx, st')"
  using assms by (auto simp: ngx_sentinel_get_ctx_def Let_def split: module_ctx.splits if_splits prod.splits)

subsection \<open>The error-rate zone\<close>

lemma lookup_no_error: "fst (fst (errrate_lookup_locked ngx key now z sh)) \<noteq> NGX_ERROR"
  by (auto simp: errrate_lookup_locked_def Let_def split: option.splits)

lemma errrate_signal_zone:
  assumes "lcf_zone lcf = Some i" "i < length (mcf_zones mcf)" "zone_sh (mcf_zones mcf ! i) = Some sh" "r_addr_text r \<noteq> []"
    and l: "errrate_lookup_locked ngx (sha256 ngx (r_addr_text r)) now (mcf_zones mcf ! i) sh = ((rc, cnt, until), sh')"
    and s: "sentinel_errrate_signal ngx now r lcf (inp, mcf) = (inp', mcf')"
  shows "errrate_blocked inp' \<longleftrightarrow> rc = NGX_BUSY"
    "mcf_zones mcf' = (mcf_zones mcf)[i := (mcf_zones mcf ! i)\<lparr>zone_sh := Some sh'\<rparr>]"
proof -
  have "rc \<noteq> NGX_ERROR" using lookup_no_error [of ngx _ now] l by (metis fst_conv)
  then show "errrate_blocked inp' \<longleftrightarrow> rc = NGX_BUSY"
    "mcf_zones mcf' = (mcf_zones mcf)[i := (mcf_zones mcf ! i)\<lparr>zone_sh := Some sh'\<rparr>]"
    using assms by (auto simp: sentinel_errrate_signal_def call_zone_def sentinel_shm_errrate_lookup_def on_zone_def Let_def)
qed

lemma zone_param_eqs [simp]:
  "errrate_lookup_locked ngx key now (z\<lparr>zone_sh := s\<rparr>) sh = errrate_lookup_locked ngx key now z sh"
  "errrate_record_locked ngx key now (z\<lparr>zone_sh := s\<rparr>) sh = errrate_record_locked ngx key now z sh"
  "softban_set_locked ngx key now ttl (z\<lparr>zone_sh := s\<rparr>) sh = softban_set_locked ngx key now ttl z sh"
proof -
  have z: "zone_interval (z\<lparr>zone_sh := s\<rparr>) = zone_interval z" "zone_threshold (z\<lparr>zone_sh := s\<rparr>) = zone_threshold z"
    "zone_block (z\<lparr>zone_sh := s\<rparr>) = zone_block z" by simp_all
  show "errrate_lookup_locked ngx key now (z\<lparr>zone_sh := s\<rparr>) sh = errrate_lookup_locked ngx key now z sh"
    unfolding errrate_lookup_locked_def z ..
  show "errrate_record_locked ngx key now (z\<lparr>zone_sh := s\<rparr>) sh = errrate_record_locked ngx key now z sh"
    unfolding errrate_record_locked_def z ..
  show "softban_set_locked ngx key now ttl (z\<lparr>zone_sh := s\<rparr>) sh = softban_set_locked ngx key now ttl z sh"
    unfolding softban_set_locked_def z ..
qed

text \<open>The weights make a block on record enough for the block band.\<close>

definition blocks_stick :: "loc_conf \<Rightarrow> bool" where
  "blocks_stick lcf \<longleftrightarrow> thr_block (lcf_threshold lcf) \<le> w_blocked (lcf_weights lcf) \<and>
     w_blocked (lcf_weights lcf) \<le> NGX_SENTINEL_SCORE_MAX"

lemma blocked_verdict:
  assumes "blocks_stick lcf" "errrate_blocked inp" "\<not> score_exempt inp"
  shows "ctx_verdict (new_ctx inp lcf) = VERDICT_BLOCK"
proof -
  have "w_blocked (lcf_weights lcf) \<in> set (score_terms inp (lcf_weights lcf))" using assms(2) by (simp add: score_terms_def)
  from score_ge_term [OF assms(3) this] have "thr_block (lcf_threshold lcf) \<le> score_spec inp (lcf_weights lcf)"
    using assms(1) by (simp add: blocks_stick_def)
  then show ?thesis by (simp add: new_ctx_def Let_def compute_Some sentinel_score_to_verdict_def)
qed

text \<open>A location that enforces, and a request whose client has a zone to be looked up in.\<close>

definition enforcing :: "loc_conf \<Rightarrow> bool" where
  "enforcing lcf \<longleftrightarrow> lcf_enabled lcf \<noteq> 0 \<and> lcf_shadow lcf = 0"

definition fresh_request :: "req_env \<Rightarrow> request \<Rightarrow> req_state \<Rightarrow> bool" where
  "fresh_request env r q \<longleftrightarrow> re_alloc env \<and> rq_ctx q = NoCtx \<and> r_addr_text r \<noteq> []"

text \<open>The location's error-rate zone is mapped and has the given state.\<close>

definition zone_state :: "loc_conf \<Rightarrow> main_conf \<Rightarrow> ngx_sentinel_zone \<Rightarrow> ngx_sentinel_shctx \<Rightarrow> bool" where
  "zone_state lcf mcf z sh \<longleftrightarrow>
     (\<exists>i. lcf_zone lcf = Some i \<and> i < length (mcf_zones mcf) \<and> mcf_zones mcf ! i = z\<lparr>zone_sh := Some sh\<rparr>)"

text \<open>The client neither claims to be a known crawler nor is on the allowlist.\<close>

definition convictable :: "ngx_api \<Rightarrow> request \<Rightarrow> loc_conf \<Rightarrow> bool" where
  "convictable ngx r lcf \<longleftrightarrow> \<not> known_good_ua (sentinel_botua_signal r zero_inputs) \<and>
     \<not> allowlisted (sentinel_allowlist_signal ngx (Some r) (Some lcf) zero_inputs)"

lemma preaccess_ctx:
  assumes "enforcing lcf" "ngx_sentinel_get_ctx ngx env r lcf (w, q) = (Some ctx, w1, q1)" "ctx_verdict ctx = VERDICT_BLOCK"
  shows "ngx_sentinel_preaccess_handler ngx env r lcf (w, q) =
    enforce_block ngx env r lcf ctx (w1\<lparr>wk_mcf := sentinel_metrics_record ctx (lcf_shadow lcf) (wk_mcf w1)\<rparr>, q1)"
  using assms by (simp add: ngx_sentinel_preaccess_handler_def enforcing_def Let_def)

lemma blocked_is_refused:
  assumes "enforcing lcf" "blocks_stick lcf" "fresh_request env r q" "zone_state lcf (wk_mcf w) z sh"
    "convictable ngx r lcf"
    and b: "fst (fst (errrate_lookup_locked ngx (sha256 ngx (r_addr_text r)) (re_now env) z sh)) = NGX_BUSY"
  shows "fst (ngx_sentinel_preaccess_handler ngx env r lcf (w, q)) = NGX_STATUS (lcf_block_status lcf)"
proof -
  from assms(4) obtain i where i: "lcf_zone lcf = Some i" "i < length (mcf_zones (wk_mcf w))"
    "mcf_zones (wk_mcf w) ! i = z\<lparr>zone_sh := Some sh\<rparr>" by (auto simp: zone_state_def)
  obtain cnt until sh' where l: "errrate_lookup_locked ngx (sha256 ngx (r_addr_text r)) (re_now env) z sh = ((NGX_BUSY, cnt, until), sh')"
    using b by (metis fst_conv prod.exhaust)
  obtain inp1 mcf1 where e: "sentinel_errrate_signal ngx (re_now env) r lcf
      (zero_inputs\<lparr>ja4h := sentinel_ja4h_compute ngx r\<rparr>, wk_mcf w) = (inp1, mcf1)" by fastforce
  obtain inp mcf' lk where g: "gather_signals ngx env r lcf (wk_mcf w) = ((inp, mcf'), lk)" by (metis prod.exhaust)
  have "errrate_blocked inp1"
    using errrate_signal_zone(1) [OF i(1,2) _ _ _ e, of sh NGX_BUSY cnt until sh'] i(3) l assms(3) by (simp add: fresh_request_def)
  then have "errrate_blocked inp" using gather_frame(1) [OF g e] by simp
  moreover have "\<not> score_exempt inp"
    using assms(5) gather_frame(3,4) [OF g e] by (simp add: convictable_def score_exempt_def)
  ultimately have "ctx_verdict (new_ctx inp lcf) = VERDICT_BLOCK" using blocked_verdict [OF assms(2)] by blast
  from preaccess_ctx [OF assms(1) get_ctx_new [OF _ _ g] this] show ?thesis
    using assms(3) by (simp add: fresh_request_def enforce_block_def Let_def)
qed

subsection \<open>What a block and an error leave in the zone\<close>

lemma find_or_create_succeeds:
  assumes "slab_room ngx" "zone_inv ngx sh"
  shows "find_or_create ngx threshold key now sh \<noteq> None"
proof -
  obtain a where "slab_calloc ngx sh (create_node_size ngx threshold (length key)) = Some a"
    using assms unfolding slab_room_def by blast
  then show ?thesis
    by (auto simp: find_or_create_def Let_def sentinel_shm_create_node_def split: option.splits)
qed

lemma softban_succeeds:
  assumes "zone_laws ngx" "slab_room ngx" "zone_inv ngx sh" "0 < ttl"
  shows "\<exists>sh'. softban_set_locked ngx key now ttl z sh = (NGX_OK, sh')"
proof -
  have "zone_inv ngx (sentinel_shm_expire ngx (zone_interval z) now NGX_SENTINEL_EXPIRE_BATCH sh)"
    using expire_refines [OF assms(1,3)] by blast
  from find_or_create_succeeds [OF assms(2) this, of "zone_threshold z" key now] show ?thesis
    using assms(4) by (auto simp: softban_set_locked_def Let_def)
qed

lemma record_succeeds:
  assumes "zone_laws ngx" "slab_room ngx" "zone_inv ngx sh"
  shows "fst (fst (errrate_record_locked ngx key now z sh)) \<noteq> NGX_ERROR"
proof -
  have "zone_inv ngx (sentinel_shm_expire ngx (zone_interval z) now NGX_SENTINEL_EXPIRE_BATCH sh)"
    using expire_refines [OF assms(1,3)] by blast
  from find_or_create_succeeds [OF assms(2) this, of "zone_threshold z" key now] show ?thesis
    by (auto simp: errrate_record_locked_def Let_def split: if_splits)
qed

lemma metrics_keep_zones [simp]: "mcf_zones (sentinel_metrics_record ctx shadow mcf) = mcf_zones mcf"
  by (cases "mcf_metrics mcf") (simp add: sentinel_metrics_record_def, simp add: metrics_record)

lemma metrics_keep_conns [simp]: "mcf_tarpit_conns (sentinel_metrics_record ctx shadow mcf) = mcf_tarpit_conns mcf"
  by (cases "mcf_metrics mcf") (simp add: sentinel_metrics_record_def, simp add: metrics_record)

lemma export_keeps_mcf [simp]: "wk_mcf (block_export now strlen r lcf ctx w) = wk_mcf w"
  by (simp add: block_export_def Let_def)

lemma block_leaves_a_ban:
  assumes laws: "zone_laws ngx" "digest_laws ngx" "slab_room ngx"
    and conf: "enforcing lcf" "0 < lcf_block_ttl lcf"
    and req: "fresh_request env r q" "zone_state lcf (wk_mcf w) z sh" "zone_inv ngx sh"
    and ctx: "ngx_sentinel_get_ctx ngx env r lcf (w, q) = (Some ctx, w0, q0)" "ctx_verdict ctx = VERDICT_BLOCK"
    and res: "ngx_sentinel_preaccess_handler ngx env r lcf (w, q) = (rc, w1, q1)"
  shows "\<exists>sh0 sh1. zone_inv ngx sh0 \<and> zone_state lcf (wk_mcf w1) z sh1 \<and>
    softban_set_locked ngx (sha256 ngx (r_addr_text r)) (re_now env) (lcf_block_ttl lcf) z sh0 = (NGX_OK, sh1)"
proof -
  let ?key = "sha256 ngx (r_addr_text r)"
  from req(2) obtain i where i: "lcf_zone lcf = Some i" "i < length (mcf_zones (wk_mcf w))"
    "mcf_zones (wk_mcf w) ! i = z\<lparr>zone_sh := Some sh\<rparr>" by (auto simp: zone_state_def)
  have addr: "r_addr_text r \<noteq> []" "re_alloc env" "rq_ctx q = NoCtx" using req(1) by (auto simp: fresh_request_def)
  have key: "length ?key < 65536" using laws(2) by (simp add: digest_laws_def)
  obtain a b c sh0 where l: "errrate_lookup_locked ngx ?key (re_now env) z sh = ((a, b, c), sh0)" by (metis prod.exhaust)
  obtain inp1 mcf1 where e: "sentinel_errrate_signal ngx (re_now env) r lcf
      (zero_inputs\<lparr>ja4h := sentinel_ja4h_compute ngx r\<rparr>, wk_mcf w) = (inp1, mcf1)" by fastforce
  obtain inp mcf' lk where g: "gather_signals ngx env r lcf (wk_mcf w) = ((inp, mcf'), lk)" by (metis prod.exhaust)
  have "mcf_zones (wk_mcf w0) = (mcf_zones (wk_mcf w))[i := z\<lparr>zone_sh := Some sh0\<rparr>]"
    using get_ctx_new [OF addr(3,2) g] ctx(1) gather_frame(2) [OF g e] i(3) l addr(1)
      errrate_signal_zone(2) [OF i(1,2) _ _ _ e, of sh a b c sh0] by auto
  moreover have "zone_inv ngx sh0" using lookup_refines(1) [OF laws(1) req(3) key l] .
  moreover from softban_succeeds [OF laws(1,3) this conf(2)] obtain sh1 where
    b: "softban_set_locked ngx ?key (re_now env) (lcf_block_ttl lcf) z sh0 = (NGX_OK, sh1)" by blast
  ultimately have "mcf_zones (wk_mcf w1) = (mcf_zones (wk_mcf w))[i := z\<lparr>zone_sh := Some sh1\<rparr>]"
    using res preaccess_ctx [OF conf(1) ctx] i(1,2) conf(2) addr(1)
    by (auto simp: enforce_block_def Let_def block_softban_def call_zone_def sentinel_shm_softban_set_def on_zone_def)
  then show ?thesis using \<open>zone_inv ngx sh0\<close> b i(1,2) unfolding zone_state_def by auto
qed

text \<open>A client's error responses, one log handler each.\<close>

definition log_run :: "ngx_api \<Rightarrow> request \<Rightarrow> loc_conf \<Rightarrow> int list \<Rightarrow> main_conf \<Rightarrow> main_conf" where
  "log_run ngx r lcf = fold (\<lambda>t mcf. snd (ngx_sentinel_log_handler ngx t r lcf mcf))"

definition error_response :: "request \<Rightarrow> bool" where
  "error_response r \<longleftrightarrow> 400 \<le> (if r_err_status r \<noteq> 0 then r_err_status r else r_out_status r) \<and> r_addr_text r \<noteq> []"

lemma log_run_records:
  assumes "lcf_enabled lcf \<noteq> 0" "error_response r"
  shows "zone_state lcf mcf z sh \<Longrightarrow>
    zone_state lcf (log_run ngx r lcf ts mcf) z (snd (record_run ngx z (sha256 ngx (r_addr_text r)) ts sh))"
proof (induction ts arbitrary: mcf sh)
  case (Cons t ts)
  from Cons.prems obtain i where i: "lcf_zone lcf = Some i" "i < length (mcf_zones mcf)"
    "mcf_zones mcf ! i = z\<lparr>zone_sh := Some sh\<rparr>" by (auto simp: zone_state_def)
  obtain res sh1 where r1: "errrate_record_locked ngx (sha256 ngx (r_addr_text r)) t z sh = (res, sh1)" by fastforce
  have "mcf_zones (snd (ngx_sentinel_log_handler ngx t r lcf mcf)) = (mcf_zones mcf)[i := z\<lparr>zone_sh := Some sh1\<rparr>]"
    using assms i r1
    by (simp add: ngx_sentinel_log_handler_def error_response_def Let_def record_in_def call_zone_def
        sentinel_shm_errrate_record_def on_zone_def split: option.splits)
  then have "zone_state lcf (snd (ngx_sentinel_log_handler ngx t r lcf mcf)) z sh1" using i by (auto simp: zone_state_def)
  from Cons.IH [OF this] show ?case using r1 by (auto simp: log_run_def split: prod.splits)
qed (simp add: log_run_def)

lemma record_run_succeeds:
  assumes "zone_laws ngx" "slab_room ngx" "length key < 65536"
  shows "zone_inv ngx sh \<Longrightarrow> record_run ngx z key ts sh = (rs, sh') \<Longrightarrow> \<forall>r \<in> set rs. fst r \<noteq> NGX_ERROR"
proof (induction ts arbitrary: sh rs)
  case (Cons t ts)
  obtain r sh1 where r: "errrate_record_locked ngx key t z sh = (r, sh1)" by fastforce
  have "zone_inv ngx sh1" using zone_step_inv [OF assms(1) Cons.prems(1), of "ZRecord key t" z] assms(3) r by (simp add: op_ok_def)
  then show ?case
    using Cons.IH [of sh1] Cons.prems(2) r record_succeeds [OF assms(1,2) Cons.prems(1), of key t z]
    by (auto split: prod.splits)
qed simp

subsection \<open>The ban table\<close>

lemma crowdsec_signal_hit:
  assumes laws: "zone_laws ngx" and z: "zone_at (lcf_cs_zone lcf) = Some i" "i < length (mcf_cs_zones mcf)"
    "zone_sh (mcf_cs_zones mcf ! i) = Some sh" "zone_inv ngx sh"
    and ban: "ban_of sh (sentinel_feed_digest ngx (r_addr_text r)) = Some (e, act)" "now < e" "r_addr_text r \<noteq> []"
    and s: "sentinel_crowdsec_signal ngx now r lcf (inp, mcf) = (inp', mcf')"
  shows "crowdsec_hit inp'" "crowdsec_action inp' = act"
proof -
  let ?key = "sentinel_feed_digest ngx (r_addr_text r)" and ?z = "mcf_cs_zones mcf ! i"
  obtain n where n: "find_node ?key (zone_nodes sh) = Some n" "blocked_until n = e" "cs_action n = act"
    using ban(1) by (auto simp: ban_of_def)
  then have "find_node ?key (expire_nodes (zone_interval ?z) now NGX_SENTINEL_EXPIRE_BATCH (zone_nodes sh)) = Some n"
    using ban(2) by (intro expire_keeps) auto
  moreover obtain res sh' where l: "crowdsec_lookup_locked ngx ?key now ?z sh = (res, sh')" by fastforce
  ultimately have "res = (NGX_BUSY, act)"
    using cs_lookup_refines [OF laws z(4) l] n ban(2) by (simp add: cs_lookup_spec_def Let_def)
  then show "crowdsec_hit inp'" "crowdsec_action inp' = act"
    using s z(1-3) l ban(3)
    by (auto simp: sentinel_crowdsec_signal_def Let_def call_zone_def sentinel_shm_crowdsec_lookup_def on_zone_def)
qed

lemma export_guard: "crowdsec_hit (ctx_inputs ctx) \<Longrightarrow> block_export now strlen r lcf ctx w = w"
  by (simp add: block_export_def)

text \<open>Only a block touches the rings.\<close>

lemma preaccess_rings:
  assumes "ngx_sentinel_preaccess_handler ngx env r lcf (w, q) = (rc, w', q')"
    and "\<And>ctx w0 q0. ngx_sentinel_get_ctx ngx env r lcf (w, q) = (Some ctx, w0, q0) \<Longrightarrow> crowdsec_hit (ctx_inputs ctx)"
  shows "wk_rings w' = wk_rings w"
proof -
  obtain c w0 q0 where c: "ngx_sentinel_get_ctx ngx env r lcf (w, q) = (c, w0, q0)" by (metis prod.exhaust)
  have hit: "c = Some ctx \<Longrightarrow> crowdsec_hit (ctx_inputs ctx)" for ctx using assms(2) c by blast
  show ?thesis
    using assms(1) get_ctx_frame(1) [OF c] hit
    by (auto simp: ngx_sentinel_preaccess_handler_def c Let_def enforce_challenge_def enforce_tarpit_def enforce_block_def
        export_guard split: if_splits option.splits ngx_sentinel_verdict.splits prod.splits)
qed

lemma imported_ban_hit:
  assumes laws: "zone_laws ngx" and "rq_ctx q = NoCtx"
    and zone: "zone_at (lcf_cs_zone lcf) = Some i" "i < length (mcf_cs_zones (wk_mcf w))"
      "zone_sh (mcf_cs_zones (wk_mcf w) ! i) = Some sh" "zone_inv ngx sh"
    and ban: "ban_of sh (sentinel_feed_digest ngx (r_addr_text r)) = Some (e, act)" "re_now env < e" "r_addr_text r \<noteq> []"
    and c: "ngx_sentinel_get_ctx ngx env r lcf (w, q) = (Some ctx, w0, q0)"
  shows "crowdsec_hit (ctx_inputs ctx) \<and> crowdsec_action (ctx_inputs ctx) = act \<and> ctx = new_ctx (ctx_inputs ctx) lcf"
proof -
  obtain inp1 mcf1 where e: "sentinel_errrate_signal ngx (re_now env) r lcf
      (zero_inputs\<lparr>ja4h := sentinel_ja4h_compute ngx r\<rparr>, wk_mcf w) = (inp1, mcf1)" by fastforce
  obtain inp mcf' lk where g: "gather_signals ngx env r lcf (wk_mcf w) = ((inp, mcf'), lk)" by (metis prod.exhaust)
  from gather_frame(7) [OF g e] obtain inp2 mcf2 where
    s: "sentinel_crowdsec_signal ngx (re_now env) r lcf (inp2, mcf2) = (inp, mcf')" "mcf_cs_zones mcf2 = mcf_cs_zones (wk_mcf w)"
    by blast
  have "crowdsec_hit inp" "crowdsec_action inp = act"
    using crowdsec_signal_hit [OF laws zone(1) _ _ zone(4) ban s(1)] zone(2,3) s(2) by simp_all
  moreover have "ctx = new_ctx inp lcf" "ctx_inputs (new_ctx inp lcf) = inp"
    using c assms(2) g by (auto simp: ngx_sentinel_get_ctx_def Let_def new_ctx_def split: if_splits)
  ultimately show ?thesis by simp
qed

text \<open>A block without a hit queues the ban for Redis; the sink writes another ring.\<close>

lemma block_queues_for_redis:
  assumes conf: "enforcing lcf" "lcf_redis_host lcf \<noteq> []"
    and ctx: "ngx_sentinel_get_ctx ngx env r lcf (w, q) = (Some ctx, w0, q0)" "ctx_verdict ctx = VERDICT_BLOCK"
      "\<not> crowdsec_hit (ctx_inputs ctx)"
    and addr: "r_addr_text r \<noteq> []" "length (r_addr_text r) < re_strlen env"
    and redis: "wk_redis w = Some rd" "rd_push rd = Some nm" "lcf_redis_push_zone lcf = Some nm" "wk_rings w nm = Some push"
    and sink: "lcf_cs_sink_zone lcf \<noteq> Some nm"
    and res: "ngx_sentinel_preaccess_handler ngx env r lcf (w, q) = (rc, w', q')"
  shows "wk_rings w' nm =
      Some (redis_put \<lparr>push_ip = r_addr_text r, push_action = CS_BAN, push_expiry = re_now env + lcf_redis_ttl lcf\<rparr> push) \<and>
    rc = NGX_STATUS (lcf_block_status lcf)"
  using res preaccess_ctx [OF conf(1) ctx(1,2)] conf ctx(3) addr redis sink get_ctx_frame(1-3) [OF ctx(1)]
  by (auto simp: enforce_block_def Let_def block_export_def sentinel_redis_enqueue_ban_def sentinel_cssink_enqueue_ban_def
      split: option.split)

subsection \<open>A sample worker\<close>

text \<open>A location in which every request reaches the block band, so that the verdict needs no
  evidence; both exports and the soft ban are on.\<close>

definition strict_lcf :: loc_conf where
  "strict_lcf = default_loc_conf\<lparr>lcf_enabled := 1, lcf_shadow := 0, lcf_zone := Some 0,
     lcf_threshold := \<lparr>thr_challenge = 0, thr_tarpit = 0, thr_block = 0\<rparr>, lcf_block_ttl := 60,
     lcf_redis_host := ''127.0.0.1'', lcf_redis_push_zone := Some ''p'', lcf_cs_sink_path := ''/f'', lcf_cs_sink_zone := Some ''s''\<rparr>"

definition sample_req_env :: "int \<Rightarrow> req_env" where
  "sample_req_env now = \<lparr>re_now = now, re_alloc = True, re_dns = dns_sample, re_pow = pow_sample_env, re_tarpit = sample_start,
     re_worker = 0, re_strlen = 46, re_layout = (\<lambda>t. block_ctx)\<rparr>"

definition sample_req :: req_state where
  "sample_req = \<lparr>rq_ctx = NoCtx, rq_limit_rate = None, rq_pow = \<lparr>out_cookie = CookieNone, out_page = None\<rparr>, rq_conn = None\<rparr>"

definition error_zone :: ngx_sentinel_zone where
  "error_zone = new_zone ''z'' 300 3600 2"

definition sample_worker :: worker where
  "sample_worker = \<lparr>wk_mcf = ngx_sentinel_create_main_conf\<lparr>mcf_zones := [error_zone\<lparr>zone_sh := Some fresh_shctx\<rparr>]\<rparr>,
     wk_rings = [''p'' \<mapsto> ring_zero NGX_SENTINEL_REDIS_PUSH_RING, ''s'' \<mapsto> ring_zero NGX_SENTINEL_CSSINK_RING],
     wk_redis = Some sample_ctx, wk_sink = Some (sample_sink\<lparr>sc_ring := ''s''\<rparr>), wk_lookups = []\<rparr>"

lemma strict_simps [simp]:
  "enforcing strict_lcf" "blocks_stick strict_lcf" "lcf_block_ttl strict_lcf = 60" "lcf_block_status strict_lcf = 403"
  "lcf_enabled strict_lcf \<noteq> 0" "lcf_cs_zone strict_lcf = ZNull" "lcf_zone strict_lcf = Some 0"
  by (simp_all add: strict_lcf_def enforcing_def blocks_stick_def default_loc_conf_def default_weights_def NGX_SENTINEL_SCORE_MAX_def)

lemma sample_req_simps [simp]:
  "fresh_request (sample_req_env now) browser_request sample_req" "re_now (sample_req_env now) = now" "rq_ctx sample_req = NoCtx"
  "re_alloc (sample_req_env now)" "re_strlen (sample_req_env now) = 46"
  by (simp_all add: fresh_request_def sample_req_env_def sample_req_def browser_request_def)

lemma sample_convictable: "convictable feed_shim browser_request strict_lcf"
proof -
  have "lcf_allow_cidrs strict_lcf = []" by (simp add: strict_lcf_def default_loc_conf_def)
  moreover have "\<not> known_good_ua (sentinel_botua_signal browser_request zero_inputs)"
    by code_simp
  ultimately show ?thesis by (simp add: convictable_def sentinel_allowlist_signal_def zero_inputs_def split: option.splits)
qed

lemma sample_zone_state: "zone_state strict_lcf (wk_mcf sample_worker) error_zone fresh_shctx"
  by (simp add: zone_state_def sample_worker_def)

lemma strict_blocks:
  assumes "rq_ctx q = NoCtx" "re_alloc env" "zone_at (lcf_cs_zone lcf) = None" "thr_block (lcf_threshold lcf) = 0"
  shows "\<exists>ctx w0 q0. ngx_sentinel_get_ctx ngx env r lcf (w, q) = (Some ctx, w0, q0) \<and>
    ctx_verdict ctx = VERDICT_BLOCK \<and> \<not> crowdsec_hit (ctx_inputs ctx)"
proof -
  obtain inp1 mcf1 where e: "sentinel_errrate_signal ngx (re_now env) r lcf
      (zero_inputs\<lparr>ja4h := sentinel_ja4h_compute ngx r\<rparr>, wk_mcf w) = (inp1, mcf1)" by fastforce
  obtain inp mcf' lk where g: "gather_signals ngx env r lcf (wk_mcf w) = ((inp, mcf'), lk)" by (metis prod.exhaust)
  from gather_frame(7) [OF g e] have "\<not> crowdsec_hit inp"
    using assms(3) by (auto simp: sentinel_crowdsec_signal_def Let_def)
  moreover have "ctx_verdict (new_ctx inp lcf) = VERDICT_BLOCK"
    using score_spec_bounds [of inp "lcf_weights lcf"] assms(4)
    by (simp add: new_ctx_def Let_def compute_Some sentinel_score_to_verdict_def)
  ultimately show ?thesis using get_ctx_new [OF assms(1,2) g] by (auto simp: new_ctx_def Let_def)
qed

lemma strict_request:
  obtains ctx w0 q0 where "ngx_sentinel_get_ctx feed_shim (sample_req_env now) browser_request strict_lcf (w, sample_req) = (Some ctx, w0, q0)"
    "ctx_verdict ctx = VERDICT_BLOCK" "\<not> crowdsec_hit (ctx_inputs ctx)"
  using strict_blocks [of sample_req "sample_req_env now" strict_lcf feed_shim browser_request w]
  by (auto simp: strict_lcf_def default_loc_conf_def)

subsection \<open>Properties\<close>

text \<open>
  Claim C7: a location that is off or in shadow mode never acts on a request. The preaccess
  handler declines, and whatever the verdict the request is neither throttled, challenged nor
  tarpitted, no tarpit slot is taken and nothing is queued for Redis or the sink.
\<close>

theorem passive_mode_never_enforces:
  assumes "lcf_enabled lcf = 0 \<or> lcf_shadow lcf \<noteq> 0"
    and "ngx_sentinel_preaccess_handler ngx env r lcf (w, q) = (rc, w', q')"
  shows "rc = NGX_DECLINED \<and> wk_rings w' = wk_rings w \<and>
    mcf_tarpit_conns (wk_mcf w') = mcf_tarpit_conns (wk_mcf w) \<and>
    rq_limit_rate q' = rq_limit_rate q \<and> rq_pow q' = rq_pow q \<and> rq_conn q' = rq_conn q"
proof -
  obtain c w0 q0 where c: "ngx_sentinel_get_ctx ngx env r lcf (w, q) = (c, w0, q0)" by (metis prod.exhaust)
  have "rq_limit_rate q0 = rq_limit_rate q \<and> rq_pow q0 = rq_pow q \<and> rq_conn q0 = rq_conn q"
    by (subst (1 2 3) get_ctx_frame(6) [OF c]) simp
  then show ?thesis
    using assms get_ctx_frame(1,4) [OF c]
    by (auto simp: ngx_sentinel_preaccess_handler_def c Let_def split: if_splits option.splits)
qed

theorem passive_mode_never_enforces_witness:
  "fst (ngx_sentinel_preaccess_handler feed_shim (sample_req_env 100) browser_request (strict_lcf\<lparr>lcf_shadow := 1\<rparr>)
     (sample_worker, sample_req)) = NGX_DECLINED"
proof -
  obtain rc w' q' where r: "ngx_sentinel_preaccess_handler feed_shim (sample_req_env 100) browser_request (strict_lcf\<lparr>lcf_shadow := 1\<rparr>)
    (sample_worker, sample_req) = (rc, w', q')" by (metis prod.exhaust)
  from passive_mode_never_enforces [OF _ r] show ?thesis using r by simp
qed





text \<open>
  Claim C5: an imported ban is never exported again. While a decision for the client's address is
  live in the location's ban table, where the feed and the Redis pull put it, no request of that
  client, whatever the verdict, queues anything for Redis or for the CrowdSec sink; bans
  cannot circulate between nodes.
\<close>

theorem imported_ban_is_never_republished:
  assumes laws: "zone_laws ngx" and "rq_ctx q = NoCtx"
    and zone: "zone_at (lcf_cs_zone lcf) = Some i" "i < length (mcf_cs_zones (wk_mcf w))"
      "zone_sh (mcf_cs_zones (wk_mcf w) ! i) = Some sh" "zone_inv ngx sh"
    and ban: "ban_of sh (sentinel_feed_digest ngx (r_addr_text r)) = Some (e, act)" "re_now env < e" "r_addr_text r \<noteq> []"
    and res: "ngx_sentinel_preaccess_handler ngx env r lcf (w, q) = (rc, w', q')"
  shows "wk_rings w' = wk_rings w"
  using preaccess_rings [OF res] imported_ban_hit [OF laws assms(2) zone ban] by blast

theorem imported_ban_is_never_republished_witness:
  "\<exists>sh. ban_of sh (sentinel_feed_digest feed_shim ''192.0.2.1'') = Some (200, CS_BAN) \<and>
    wk_rings (fst (snd (ngx_sentinel_preaccess_handler feed_shim (sample_req_env 100) browser_request
      (strict_lcf\<lparr>lcf_cs_zone := ZAt 0\<rparr>)
      (sample_worker\<lparr>wk_mcf := (wk_mcf sample_worker)\<lparr>mcf_cs_zones := [error_zone\<lparr>zone_sh := Some sh\<rparr>]\<rparr>\<rparr>, sample_req)))) =
    wk_rings sample_worker"
proof -
  let ?key = "sentinel_feed_digest feed_shim ''192.0.2.1''" and ?lcf = "strict_lcf\<lparr>lcf_cs_zone := ZAt 0\<rparr>"
  have key: "length ?key < 65536" using feed_shim_laws(2) by (simp add: sentinel_feed_digest_def digest_laws_def)
  obtain rc sh where u: "crowdsec_upsert_locked feed_shim ?key 200 CS_BAN 1 100 False fresh_shctx = (rc, sh)" by fastforce
  have "rc = NGX_OK" by (rule upsert_succeeds [OF feed_shim_laws(6) fresh_inv u])
  then have s: "zone_inv feed_shim sh" "zone_nodes sh = upsert_spec feed_shim ?key 200 CS_BAN 1 100 False (zone_nodes fresh_shctx)"
    using upsert_refines [OF feed_shim_laws(1) fresh_inv key u] by auto
  have ban: "ban_of sh ?key = Some (200, CS_BAN)" by (simp add: ban_of_def s(2) find_upsert [OF key])
  let ?w = "sample_worker\<lparr>wk_mcf := (wk_mcf sample_worker)\<lparr>mcf_cs_zones := [error_zone\<lparr>zone_sh := Some sh\<rparr>]\<rparr>\<rparr>"
  obtain rc' w' q' where r: "ngx_sentinel_preaccess_handler feed_shim (sample_req_env 100) browser_request ?lcf (?w, sample_req) =
      (rc', w', q')" by (metis prod.exhaust)
  have addr: "r_addr_text browser_request = ''192.0.2.1''" by (simp add: browser_request_def)
  have "wk_rings w' = wk_rings ?w"
    by (rule imported_ban_is_never_republished [OF feed_shim_laws(1) _ _ _ _ s(1) _ _ _ r, where i = 0 and e = 200 and act = CS_BAN])
      (simp_all add: addr ban)
  then show ?thesis using r ban by (intro exI [of _ sh]) simp
qed

text \<open>
  Claim C6: a block that this node decided is exported. A block without a CrowdSec hit queues the
  client's address as the last pending entry of the Redis push ring and of the sink ring, as a ban
  with the configured lifetimes, while the rings have room; no other ring changes.
\<close>

theorem local_block_is_exported:
  assumes conf: "enforcing lcf" "lcf_redis_host lcf \<noteq> []" "lcf_cs_sink_path lcf \<noteq> []"
    and ctx: "ngx_sentinel_get_ctx ngx env r lcf (w, q) = (Some ctx, w0, q0)" "ctx_verdict ctx = VERDICT_BLOCK"
      "\<not> crowdsec_hit (ctx_inputs ctx)"
    and addr: "r_addr_text r \<noteq> []" "length (r_addr_text r) < re_strlen env"
    and redis: "wk_redis w = Some rd" "rd_push rd = Some nm" "lcf_redis_push_zone lcf = Some nm"
      "wk_rings w nm = Some push" "ring_inv NGX_SENTINEL_REDIS_PUSH_RING push"
      "length (push_entries push) < NGX_SENTINEL_REDIS_PUSH_RING"
    and sink: "wk_sink w = Some sc" "sc_ring sc = nm'" "lcf_cs_sink_zone lcf = Some nm'" "nm' \<noteq> nm"
      "wk_rings w nm' = Some sring" "ring_inv NGX_SENTINEL_CSSINK_RING sring"
      "length (sink_entries sring) < NGX_SENTINEL_CSSINK_RING"
    and res: "ngx_sentinel_preaccess_handler ngx env r lcf (w, q) = (rc, w', q')"
  shows "rc = NGX_STATUS (lcf_block_status lcf) \<and>
    map_option push_entries (wk_rings w' nm) = Some (push_entries push @
      [\<lparr>push_ip = r_addr_text r, push_action = CS_BAN, push_expiry = re_now env + lcf_redis_ttl lcf\<rparr>]) \<and>
    map_option sink_entries (wk_rings w' nm') = Some (sink_entries sring @
      [\<lparr>push_ip = r_addr_text r, push_action = CS_BAN, push_expiry = re_now env + lcf_cs_sink_ttl lcf\<rparr>]) \<and>
    (\<forall>x. x \<noteq> nm \<longrightarrow> x \<noteq> nm' \<longrightarrow> wk_rings w' x = wk_rings w x)"
proof -
  let ?p = "\<lparr>push_ip = r_addr_text r, push_action = CS_BAN, push_expiry = re_now env + lcf_redis_ttl lcf\<rparr>"
    and ?s = "\<lparr>push_ip = r_addr_text r, push_action = CS_BAN, push_expiry = re_now env + lcf_cs_sink_ttl lcf\<rparr>"
  have "wk_rings w' = (wk_rings w)(nm \<mapsto> redis_put ?p push, nm' \<mapsto> cssink_put ?s sring) \<and>
      rc = NGX_STATUS (lcf_block_status lcf)"
    using res preaccess_ctx [OF conf(1) ctx(1,2)] conf ctx(3) addr redis(1-4) sink(1-5) get_ctx_frame(1-3) [OF ctx(1)]
    by (auto simp: enforce_block_def Let_def block_export_def sentinel_redis_enqueue_ban_def sentinel_cssink_enqueue_ban_def)
  then show ?thesis
    using push_ring.put_entries [OF redis(5), of ?p] sink_ring.put_entries [OF sink(6), of ?s] redis(6) sink(4,7) by simp
qed

theorem local_block_is_exported_witness:
  "map_option push_entries (wk_rings (fst (snd (ngx_sentinel_preaccess_handler feed_shim (sample_req_env 100) browser_request
      strict_lcf (sample_worker, sample_req)))) ''p'') =
    Some [\<lparr>push_ip = ''192.0.2.1'', push_action = CS_BAN, push_expiry = 3700\<rparr>]"
proof -
  obtain ctx w0 q0 where c: "ngx_sentinel_get_ctx feed_shim (sample_req_env 100) browser_request strict_lcf (sample_worker, sample_req) =
      (Some ctx, w0, q0)" "ctx_verdict ctx = VERDICT_BLOCK" "\<not> crowdsec_hit (ctx_inputs ctx)" by (rule strict_request)
  obtain rc w1 q1 where r: "ngx_sentinel_preaccess_handler feed_shim (sample_req_env 100) browser_request strict_lcf
      (sample_worker, sample_req) = (rc, w1, q1)" by (metis prod.exhaust)
  have l: "lcf_redis_host strict_lcf \<noteq> []" "lcf_cs_sink_path strict_lcf \<noteq> []" "lcf_redis_push_zone strict_lcf = Some ''p''"
    "lcf_cs_sink_zone strict_lcf = Some ''s''" "lcf_redis_ttl strict_lcf = 3600"
    by (simp_all add: strict_lcf_def default_loc_conf_def)
  have a: "r_addr_text browser_request = ''192.0.2.1''" by (simp add: browser_request_def)
  have w: "wk_redis sample_worker = Some sample_ctx" "rd_push sample_ctx = Some ''p''"
    "wk_rings sample_worker ''p'' = Some (ring_zero NGX_SENTINEL_REDIS_PUSH_RING)"
    "wk_sink sample_worker = Some (sample_sink\<lparr>sc_ring := ''s''\<rparr>)"
    "wk_rings sample_worker ''s'' = Some (ring_zero NGX_SENTINEL_CSSINK_RING)"
    by (simp_all add: sample_worker_def sample_ctx_def)
  show ?thesis
    using local_block_is_exported [OF _ l(1,2) c _ _ w(1,2) l(3) w(3) _ _ w(4) _ l(4) _ w(5) _ _ r] l(5) a r
    by (simp add: NGX_SENTINEL_REDIS_PUSH_RING_def NGX_SENTINEL_CSSINK_RING_def)
qed

subsection \<open>The context of a tarpitted request\<close>

text \<open>The tarpit stores its own context under the module's index, so that a variable evaluated
  after it (in the access log, say) reads the bytes of the tarpit context as a sentinel context.\<close>

lemma tarpitted_request_reads_the_wrong_context:
  assumes "enforce_tarpit env lcf ctx (w, q) = (NGX_DONE, w', q')" "rq_conn q' = Some cn" "cn_has_ctx cn"
    and "lcf_throttle_rate lcf \<le> 0" "lcf_shield lcf = 0" "rq_conn q = None"
  shows "ngx_sentinel_var_score ngx env' r lcf True (w', q') =
    (VarValue (sprint_int ngx (ctx_score (re_layout env' (cn_tctx cn)))) True, w', q')"
proof -
  have "rq_ctx q' = TarpitCtx (cn_tctx cn)"
    using assms by (auto simp: enforce_tarpit_def Let_def split: prod.splits if_splits option.splits)
  then show ?thesis by (simp add: ngx_sentinel_var_score_def with_ctx_def ngx_sentinel_get_ctx_def)
qed

end
