(* ===== verification/Sentinel_Commands.thy ===== *)
theory Sentinel_Commands
  imports Sentinel_Module
begin

text \<open>
  The directive table and the variable table of \<^verbatim>\<open>src/ngx_http_sentinel_module.c\<close>. A command has its
  name, the blocks it may stand in, its arity and its setter, as in the source; an offset is a
  field: the function that reads it and the one that updates it. nginx's generic slot setters are
  the parameter \<open>slot_api\<close>. nginx calls a setter only in a block and with a number of arguments
  that the table allows; \<open>conf_read\<close> is every state that reading an \<open>http\<close> block can lead to under
  this rule, and \<open>conf_serves\<close> every state of the merge that follows.
\<close>

datatype http_ctx = HTTP_MAIN | HTTP_SRV | HTTP_LOC

datatype conf_args = CONF_FLAG | CONF_TAKE1 | CONF_1MORE | CONF_NOARGS

abbreviation http_any :: "http_ctx list" where
  "http_any \<equiv> [HTTP_MAIN, HTTP_SRV, HTTP_LOC]"

text \<open>The number of arguments after the directive's name.\<close>

fun args_ok :: "conf_args \<Rightarrow> string list \<Rightarrow> bool" where
  "args_ok CONF_FLAG args = (length args = 1)"
| "args_ok CONF_TAKE1 args = (length args = 1)"
| "args_ok CONF_1MORE args = (length args \<ge> 1)"
| "args_ok CONF_NOARGS args = (args = [])"

type_synonym 'a field = "(loc_conf \<Rightarrow> 'a) \<times> (('a \<Rightarrow> 'a) \<Rightarrow> loc_conf \<Rightarrow> loc_conf)"

definition weight_slot :: "(ngx_sentinel_weights \<Rightarrow> int) \<Rightarrow>
    ((int \<Rightarrow> int) \<Rightarrow> ngx_sentinel_weights \<Rightarrow> ngx_sentinel_weights) \<Rightarrow> int field" where
  "weight_slot get upd = (\<lambda>l. get (lcf_weights l), \<lambda>f. lcf_weights_update (upd f))"

datatype setter =
    FlagSlot "int field" | NumSlot "int field" | SecSlot "int field" | SizeSlot "int field"
  | StrSlot "string option field"
  | LocSet "ngx_api \<Rightarrow> string list \<Rightarrow> loc_conf \<Rightarrow> loc_result"
  | MainSet "ngx_api \<Rightarrow> string list \<Rightarrow> main_conf \<Rightarrow> conf_error + main_conf"
  | CoreSet

datatype ngx_command =
  Command (cmd_name: string) (cmd_ctx: "http_ctx list") (cmd_args: conf_args) (cmd_set: setter)

text \<open>The threshold setter writes the threshold record of the location.\<close>

definition set_threshold :: "ngx_api \<Rightarrow> string list \<Rightarrow> loc_conf \<Rightarrow> loc_result" where
  "set_threshold ngx args lcf =
     conf_then (ngx_sentinel_set_threshold ngx args (lcf_threshold lcf)) (\<lambda>t. Inr (lcf\<lparr>lcf_threshold := t\<rparr>))"

subsection \<open>Generic slots\<close>

text \<open>What the slot setters of nginx store, from the current value and the argument. A value that
  is set already is a duplicate; numbers, times and sizes are not negative, and no argument is
  read as the unset value.\<close>

record slot_api =
  flag_slot :: "int \<Rightarrow> string \<Rightarrow> conf_error + int"
  num_slot :: "int \<Rightarrow> string \<Rightarrow> conf_error + int"
  sec_slot :: "int \<Rightarrow> string \<Rightarrow> conf_error + int"
  size_slot :: "int \<Rightarrow> string \<Rightarrow> conf_error + int"
  str_slot :: "string option \<Rightarrow> string \<Rightarrow> conf_error + string option"

definition int_slot_law :: "int \<Rightarrow> int set \<Rightarrow> (int \<Rightarrow> string \<Rightarrow> conf_error + int) \<Rightarrow> bool" where
  "int_slot_law unset vals f \<longleftrightarrow>
     (\<forall>cur s. cur \<noteq> unset \<longrightarrow> f cur s = Inl CONF_DUPLICATE) \<and> (\<forall>s v. f unset s = Inr v \<longrightarrow> v \<in> vals)"

definition slot_laws :: "slot_api \<Rightarrow> bool" where
  "slot_laws sl \<longleftrightarrow>
     int_slot_law NGX_CONF_UNSET {0, 1} (flag_slot sl) \<and>
     int_slot_law NGX_CONF_UNSET {0..} (num_slot sl) \<and>
     int_slot_law NGX_CONF_UNSET {0..} (sec_slot sl) \<and>
     int_slot_law NGX_CONF_UNSET_SIZE {0..<NGX_CONF_UNSET_SIZE} (size_slot sl) \<and>
     (\<forall>c s. str_slot sl (Some c) s = Inl CONF_DUPLICATE) \<and> (\<forall>s. str_slot sl None s = Inr (Some s))"

definition set_field :: "('a \<Rightarrow> string \<Rightarrow> conf_error + 'a) \<Rightarrow> 'a field \<Rightarrow> string \<Rightarrow> loc_conf \<Rightarrow> loc_result" where
  "set_field f fld s lcf = conf_then (f (fst fld lcf) s) (\<lambda>v. Inr (snd fld (\<lambda>_. v) lcf))"

subsection \<open>The directive table\<close>

text \<open>Switches, mode, zone, thresholds and the first weights.\<close>

definition core_commands :: "ngx_command list" where
  "core_commands =
    [Command ''sentinel'' http_any CONF_FLAG
       (FlagSlot (lcf_enabled, lcf_enabled_update)),
     Command ''sentinel_mode'' http_any CONF_TAKE1
       (LocSet (\<lambda>ngx args. ngx_sentinel_set_mode (args ! 0))),
     Command ''sentinel_zone'' [HTTP_MAIN] CONF_TAKE1
       (MainSet (\<lambda>ngx args. ngx_sentinel_set_zone ngx (args ! 0))),
     Command ''sentinel_fail'' http_any CONF_TAKE1
       (LocSet (\<lambda>ngx args. ngx_sentinel_set_fail (args ! 0))),
     Command ''sentinel_threshold'' http_any CONF_1MORE
       (LocSet set_threshold),
     Command ''sentinel_weight_errrate'' http_any CONF_TAKE1
       (NumSlot (weight_slot w_errrate w_errrate_update)),
     Command ''sentinel_weight_blocked'' http_any CONF_TAKE1
       (NumSlot (weight_slot w_blocked w_blocked_update)),
     Command ''sentinel_weight_scanner'' http_any CONF_TAKE1
       (NumSlot (weight_slot w_scanner w_scanner_update)),
     Command ''sentinel_weight_bot'' http_any CONF_TAKE1
       (NumSlot (weight_slot w_bot w_bot_update)),
     Command ''sentinel_weight_header'' http_any CONF_TAKE1
       (NumSlot (weight_slot w_header w_header_update)),
     Command ''sentinel_weight_honeypot'' http_any CONF_TAKE1
       (NumSlot (weight_slot w_honeypot w_honeypot_update))]"

text \<open>The velocity zone, more weights, the ASN and C2 lists.\<close>

definition signal_commands :: "ngx_command list" where
  "signal_commands =
    [Command ''sentinel_velocity_zone'' [HTTP_MAIN] CONF_1MORE
       (MainSet (\<lambda>ngx args. ngx_sentinel_set_velocity_zone ngx (args ! 0) (tl args))),
     Command ''sentinel_weight_velocity'' http_any CONF_TAKE1
       (NumSlot (weight_slot w_velocity w_velocity_update)),
     Command ''sentinel_weight_asn'' http_any CONF_TAKE1
       (NumSlot (weight_slot w_asn w_asn_update)),
     Command ''sentinel_weight_coherence'' http_any CONF_TAKE1
       (NumSlot (weight_slot w_coherence w_coherence_update)),
     Command ''sentinel_asn'' http_any CONF_TAKE1
       (LocSet (\<lambda>ngx args. sentinel_conf_asn_source (args ! 0))),
     Command ''sentinel_datacenter_asn'' http_any CONF_1MORE
       (LocSet (\<lambda>ngx args. sentinel_conf_datacenter_asn ngx args)),
     Command ''sentinel_weight_c2ip'' http_any CONF_TAKE1
       (NumSlot (weight_slot w_c2ip w_c2ip_update)),
     Command ''sentinel_c2ip_deny'' http_any CONF_1MORE
       (LocSet (\<lambda>ngx args. sentinel_conf_c2ip_deny ngx args))]"

text \<open>Fingerprints, velocity binding, decoys and allowlist.\<close>

definition fingerprint_commands :: "ngx_command list" where
  "fingerprint_commands =
    [Command ''sentinel_weight_ja3'' http_any CONF_TAKE1
       (NumSlot (weight_slot w_ja3 w_ja3_update)),
     Command ''sentinel_ja3'' http_any CONF_TAKE1
       (LocSet (\<lambda>ngx args. sentinel_conf_ja3_source (args ! 0))),
     Command ''sentinel_ja3_deny'' http_any CONF_1MORE
       (LocSet (\<lambda>ngx args. sentinel_conf_ja3_deny args)),
     Command ''sentinel_weight_ja4'' http_any CONF_TAKE1
       (NumSlot (weight_slot w_ja4 w_ja4_update)),
     Command ''sentinel_ja4'' http_any CONF_TAKE1
       (LocSet (\<lambda>ngx args. sentinel_conf_ja4_source (args ! 0))),
     Command ''sentinel_ja4_deny'' http_any CONF_1MORE
       (LocSet (\<lambda>ngx args. sentinel_conf_ja4_deny args)),
     Command ''sentinel_weight_ja4t'' http_any CONF_TAKE1
       (NumSlot (weight_slot w_ja4t w_ja4t_update)),
     Command ''sentinel_ja4t'' http_any CONF_TAKE1
       (LocSet (\<lambda>ngx args. sentinel_conf_ja4t_source (args ! 0))),
     Command ''sentinel_ja4t_deny'' http_any CONF_1MORE
       (LocSet (\<lambda>ngx args. sentinel_conf_ja4t_deny args)),
     Command ''sentinel_velocity'' http_any CONF_TAKE1
       (LocSet (\<lambda>ngx args. ngx_sentinel_set_velocity_bind (args ! 0))),
     Command ''sentinel_honeypot'' http_any CONF_1MORE
       (LocSet (\<lambda>ngx args. sentinel_conf_honeypot args)),
     Command ''sentinel_allowlist'' http_any CONF_1MORE
       (LocSet (\<lambda>ngx args. sentinel_conf_allowlist ngx args))]"

text \<open>Tarpit, block, throttle, shield and proof of work.\<close>

definition action_commands :: "ngx_command list" where
  "action_commands =
    [Command ''sentinel_tarpit_max_conns'' http_any CONF_TAKE1
       (NumSlot (lcf_tarpit_max_conns, lcf_tarpit_max_conns_update)),
     Command ''sentinel_tarpit_delay'' http_any CONF_TAKE1
       (LocSet (\<lambda>ngx args. ngx_sentinel_set_tarpit_delay ngx (args ! 0))),
     Command ''sentinel_tarpit_bytes'' http_any CONF_TAKE1
       (LocSet (\<lambda>ngx args. ngx_sentinel_set_tarpit_bytes ngx (args ! 0))),
     Command ''sentinel_tarpit_max_lifetime'' http_any CONF_TAKE1
       (LocSet (\<lambda>ngx args. ngx_sentinel_set_tarpit_lifetime ngx (args ! 0))),
     Command ''sentinel_tarpit_maze'' http_any CONF_FLAG
       (FlagSlot (lcf_tarpit_maze, lcf_tarpit_maze_update)),
     Command ''sentinel_block_status'' http_any CONF_TAKE1
       (NumSlot (lcf_block_status, lcf_block_status_update)),
     Command ''sentinel_block_ttl'' http_any CONF_TAKE1
       (NumSlot (lcf_block_ttl, lcf_block_ttl_update)),
     Command ''sentinel_throttle_rate'' http_any CONF_TAKE1
       (SizeSlot (lcf_throttle_rate, lcf_throttle_rate_update)),
     Command ''sentinel_shield'' http_any CONF_FLAG
       (FlagSlot (lcf_shield, lcf_shield_update)),
     Command ''sentinel_pow'' http_any CONF_FLAG
       (FlagSlot (lcf_pow_enabled, lcf_pow_enabled_update)),
     Command ''sentinel_pow_secret'' http_any CONF_TAKE1
       (StrSlot (lcf_pow_secret, lcf_pow_secret_update)),
     Command ''sentinel_pow_difficulty'' http_any CONF_TAKE1
       (NumSlot (lcf_pow_difficulty, lcf_pow_difficulty_update)),
     Command ''sentinel_pow_ttl'' http_any CONF_TAKE1
       (SecSlot (lcf_pow_ttl, lcf_pow_ttl_update))]"

text \<open>CrowdSec and FCrDNS.\<close>

definition feed_commands :: "ngx_command list" where
  "feed_commands =
    [Command ''sentinel_crowdsec_zone'' [HTTP_MAIN] CONF_TAKE1
       (MainSet (\<lambda>ngx args. ngx_sentinel_set_crowdsec_zone ngx (args ! 0))),
     Command ''sentinel_fcrdns_zone'' [HTTP_MAIN] CONF_TAKE1
       (MainSet (\<lambda>ngx args. ngx_sentinel_set_fcrdns_zone ngx (args ! 0))),
     Command ''sentinel_fcrdns'' http_any CONF_TAKE1
       (LocSet (\<lambda>ngx args. ngx_sentinel_set_fcrdns (args ! 0))),
     Command ''sentinel_fcrdns_ttl'' http_any CONF_TAKE1
       (SecSlot (lcf_fcrdns_ttl, lcf_fcrdns_ttl_update)),
     Command ''sentinel_fcrdns_verify_suffix'' http_any CONF_1MORE
       (LocSet (\<lambda>ngx args. ngx_sentinel_set_fcrdns_suffix args)),
     Command ''sentinel_crowdsec_feed'' http_any CONF_TAKE1
       (LocSet (\<lambda>ngx args. ngx_sentinel_set_crowdsec_feed (args ! 0))),
     Command ''sentinel_crowdsec_interval'' http_any CONF_TAKE1
       (SecSlot (lcf_cs_interval, lcf_cs_interval_update)),
     Command ''sentinel_crowdsec_default_ttl'' http_any CONF_TAKE1
       (SecSlot (lcf_cs_default_ttl, lcf_cs_default_ttl_update)),
     Command ''sentinel_crowdsec_stale_after'' http_any CONF_TAKE1
       (SecSlot (lcf_cs_stale_after, lcf_cs_stale_after_update)),
     Command ''sentinel_crowdsec_max_bytes'' http_any CONF_TAKE1
       (SizeSlot (lcf_cs_max_bytes, lcf_cs_max_bytes_update))]"

text \<open>Redis, the CrowdSec weight, the sink and the status page.\<close>

definition export_commands :: "ngx_command list" where
  "export_commands =
    [Command ''sentinel_redis'' http_any CONF_TAKE1
       (LocSet (\<lambda>ngx args. ngx_sentinel_set_redis ngx (args ! 0))),
     Command ''sentinel_redis_password'' http_any CONF_TAKE1
       (StrSlot (lcf_redis_password, lcf_redis_password_update)),
     Command ''sentinel_redis_prefix'' http_any CONF_TAKE1
       (StrSlot (lcf_redis_prefix, lcf_redis_prefix_update)),
     Command ''sentinel_redis_interval'' http_any CONF_TAKE1
       (SecSlot (lcf_redis_interval, lcf_redis_interval_update)),
     Command ''sentinel_redis_ttl'' http_any CONF_TAKE1
       (SecSlot (lcf_redis_ttl, lcf_redis_ttl_update)),
     Command ''sentinel_weight_crowdsec'' http_any CONF_TAKE1
       (NumSlot (weight_slot w_crowdsec w_crowdsec_update)),
     Command ''sentinel_cs_sink_path'' http_any CONF_TAKE1
       (LocSet (\<lambda>ngx args. ngx_sentinel_set_cs_sink ngx (args ! 0))),
     Command ''sentinel_cs_sink_interval'' http_any CONF_TAKE1
       (SecSlot (lcf_cs_sink_interval, lcf_cs_sink_interval_update)),
     Command ''sentinel_cs_sink_ttl'' http_any CONF_TAKE1
       (SecSlot (lcf_cs_sink_ttl, lcf_cs_sink_ttl_update)),
     Command ''sentinel_cs_sink_scenario'' http_any CONF_TAKE1
       (StrSlot (lcf_cs_sink_scenario, lcf_cs_sink_scenario_update)),
     Command ''sentinel_status'' [HTTP_LOC] CONF_NOARGS
       (CoreSet)]"

definition ngx_sentinel_commands :: "ngx_command list" where
  "ngx_sentinel_commands =
     core_commands @ signal_commands @ fingerprint_commands @ action_commands @ feed_commands @ export_commands"

subsection \<open>Running a directive\<close>

text \<open>A block of the configuration file: its kind, its location configuration, and whether it has
  the status page as its content handler.\<close>

record conf_block =
  blk_ctx :: http_ctx
  blk_lcf :: loc_conf
  blk_status :: bool

definition ngx_sentinel_set_status :: "conf_block \<Rightarrow> conf_error + conf_block" where
  "ngx_sentinel_set_status b = Inr (b\<lparr>blk_status := True\<rparr>)"

record conf_state =
  cs_main :: main_conf
  cs_blocks :: "conf_block list"

definition set_loc :: "nat \<Rightarrow> loc_conf \<Rightarrow> conf_state \<Rightarrow> conf_state" where
  "set_loc b l s = s\<lparr>cs_blocks := (cs_blocks s)[b := (cs_blocks s ! b)\<lparr>blk_lcf := l\<rparr>]\<rparr>"

fun slot_set :: "ngx_api \<Rightarrow> slot_api \<Rightarrow> setter \<Rightarrow> string list \<Rightarrow> loc_conf \<Rightarrow> loc_result" where
  "slot_set ngx sl (FlagSlot f) args l = set_field (flag_slot sl) f (args ! 0) l"
| "slot_set ngx sl (NumSlot f) args l = set_field (num_slot sl) f (args ! 0) l"
| "slot_set ngx sl (SecSlot f) args l = set_field (sec_slot sl) f (args ! 0) l"
| "slot_set ngx sl (SizeSlot f) args l = set_field (size_slot sl) f (args ! 0) l"
| "slot_set ngx sl (StrSlot f) args l = set_field (str_slot sl) f (args ! 0) l"
| "slot_set ngx sl (LocSet f) args l = f ngx args l"
| "slot_set ngx sl (MainSet f) args l = Inr l"
| "slot_set ngx sl CoreSet args l = Inr l"

fun run_setter :: "ngx_api \<Rightarrow> slot_api \<Rightarrow> setter \<Rightarrow> string list \<Rightarrow> nat \<Rightarrow> conf_state \<Rightarrow> conf_error + conf_state" where
  "run_setter ngx sl (MainSet f) args b s = conf_then (f ngx args (cs_main s)) (\<lambda>m. Inr (s\<lparr>cs_main := m\<rparr>))"
| "run_setter ngx sl CoreSet args b s =
     conf_then (ngx_sentinel_set_status (cs_blocks s ! b)) (\<lambda>c. Inr (s\<lparr>cs_blocks := (cs_blocks s)[b := c]\<rparr>))"
| "run_setter ngx sl st args b s =
     conf_then (slot_set ngx sl st args (blk_lcf (cs_blocks s ! b))) (\<lambda>l. Inr (set_loc b l s))"

definition new_block :: "http_ctx \<Rightarrow> conf_block" where
  "new_block ctx = \<lparr>blk_ctx = ctx, blk_lcf = ngx_sentinel_create_loc_conf, blk_status = False\<rparr>"

definition http_start :: conf_state where
  "http_start = \<lparr>cs_main = ngx_sentinel_create_main_conf, cs_blocks = [new_block HTTP_MAIN]\<rparr>"

inductive conf_step :: "ngx_api \<Rightarrow> slot_api \<Rightarrow> conf_state \<Rightarrow> conf_state \<Rightarrow> bool" for ngx sl where
  block: "ctx \<noteq> HTTP_MAIN \<Longrightarrow> conf_step ngx sl s (s\<lparr>cs_blocks := cs_blocks s @ [new_block ctx]\<rparr>)"
| directive: "cmd \<in> set ngx_sentinel_commands \<Longrightarrow> b < length (cs_blocks s) \<Longrightarrow>
     blk_ctx (cs_blocks s ! b) \<in> set (cmd_ctx cmd) \<Longrightarrow> args_ok (cmd_args cmd) args \<Longrightarrow>
     run_setter ngx sl (cmd_set cmd) args b s = Inr s' \<Longrightarrow> conf_step ngx sl s s'"

definition conf_read :: "ngx_api \<Rightarrow> slot_api \<Rightarrow> conf_state \<Rightarrow> bool" where
  "conf_read ngx sl s \<longleftrightarrow> (conf_step ngx sl)\<^sup>*\<^sup>* http_start s"

text \<open>The merge: a server with the \<open>http\<close> block, a location with a server or location merged before.\<close>

inductive conf_serves :: "ngx_api \<Rightarrow> slot_api \<Rightarrow> conf_state \<Rightarrow> loc_conf list \<Rightarrow> main_conf \<Rightarrow> bool" for ngx sl where
  read: "conf_read ngx sl s \<Longrightarrow> conf_serves ngx sl s [] (cs_main s)"
| server: "conf_serves ngx sl s ms m \<Longrightarrow> b < length (cs_blocks s) \<Longrightarrow> blk_ctx (cs_blocks s ! b) = HTTP_SRV \<Longrightarrow>
     ngx_sentinel_merge_loc_conf ngx m (blk_lcf (cs_blocks s ! 0)) (blk_lcf (cs_blocks s ! b)) = Inr (m', c) \<Longrightarrow>
     conf_serves ngx sl s (c # ms) m'"
| location: "conf_serves ngx sl s ms m \<Longrightarrow> prev \<in> set ms \<Longrightarrow> b < length (cs_blocks s) \<Longrightarrow>
     blk_ctx (cs_blocks s ! b) = HTTP_LOC \<Longrightarrow>
     ngx_sentinel_merge_loc_conf ngx m prev (blk_lcf (cs_blocks s ! b)) = Inr (m', c) \<Longrightarrow>
     conf_serves ngx sl s (c # ms) m'"

subsection \<open>The variable table\<close>

type_synonym var_getter = "ngx_api \<Rightarrow> req_env \<Rightarrow> request \<Rightarrow> loc_conf \<Rightarrow> bool \<Rightarrow> req_world \<Rightarrow> var_value \<times> req_world"

datatype ngx_http_variable = Variable (var_name: string) (var_get: var_getter) (var_nocacheable: bool)

definition ngx_sentinel_vars :: "ngx_http_variable list" where
  "ngx_sentinel_vars =
    [Variable ''sentinel_score'' ngx_sentinel_var_score True,
     Variable ''sentinel_verdict'' (\<lambda>ngx env r lcf alloc. ngx_sentinel_var_verdict ngx env r lcf) True,
     Variable ''sentinel_ja4h'' (\<lambda>ngx env r lcf alloc. ngx_sentinel_var_ja4h ngx env r lcf) True,
     Variable ''sentinel_header_anomaly'' (\<lambda>ngx env r lcf alloc. ngx_sentinel_var_header ngx env r lcf) True,
     Variable ''sentinel_honeypot'' (\<lambda>ngx env r lcf alloc. ngx_sentinel_var_honeypot ngx env r lcf) True,
     Variable ''sentinel_velocity'' (\<lambda>ngx env r lcf alloc. ngx_sentinel_var_velocity ngx env r lcf) True,
     Variable ''sentinel_asn'' (\<lambda>ngx env r lcf alloc. ngx_sentinel_var_asn ngx env r lcf) True,
     Variable ''sentinel_c2ip'' (\<lambda>ngx env r lcf alloc. ngx_sentinel_var_c2ip ngx env r lcf) True,
     Variable ''sentinel_ja3'' (\<lambda>ngx env r lcf alloc. ngx_sentinel_var_ja3 ngx env r lcf) True,
     Variable ''sentinel_ja4'' (\<lambda>ngx env r lcf alloc. ngx_sentinel_var_ja4 ngx env r lcf) True,
     Variable ''sentinel_ja4t'' (\<lambda>ngx env r lcf alloc. ngx_sentinel_var_ja4t ngx env r lcf) True,
     Variable ''sentinel_coherence'' (\<lambda>ngx env r lcf alloc. ngx_sentinel_var_coherence ngx env r lcf) True,
     Variable ''sentinel_fcrdns'' (\<lambda>ngx env r lcf alloc. ngx_sentinel_var_fcrdns ngx env r lcf) True,
     Variable ''sentinel_allowlist'' (\<lambda>ngx env r lcf alloc. ngx_sentinel_var_allowlist ngx env r lcf) True,
     Variable ''sentinel_bot'' (\<lambda>ngx env r lcf alloc. ngx_sentinel_var_bot ngx env r lcf) True,
     Variable ''sentinel_shield'' (\<lambda>ngx env r lcf alloc. ngx_sentinel_var_shield ngx env r lcf) True,
     Variable ''sentinel_throttled'' (\<lambda>ngx env r lcf alloc. ngx_sentinel_var_throttled ngx env r lcf) True,
     Variable ''sentinel_pow'' (\<lambda>ngx env r lcf alloc. ngx_sentinel_var_pow ngx env r lcf) True,
     Variable ''sentinel_scanner'' (\<lambda>ngx env r lcf alloc. ngx_sentinel_var_scanner ngx env r lcf) True,
     Variable ''sentinel_errrate'' ngx_sentinel_var_errrate True,
     Variable ''sentinel_crowdsec'' (\<lambda>ngx env r lcf alloc. ngx_sentinel_var_crowdsec ngx env r lcf) True,
     Variable ''sentinel_crowdsec_action'' (\<lambda>ngx env r lcf alloc. ngx_sentinel_var_crowdsec_action ngx env r lcf) True]"

text \<open>\<open>ngx_http_add_variable\<close> returns the entry of the name in nginx's own table, a new one or one of an
  earlier declaration, or \<open>NULL\<close>; \<open>add\<close> tells whether it does. The loop writes the getter there.\<close>

fun ngx_sentinel_add_variables :: "(string \<Rightarrow> bool) \<Rightarrow> ngx_http_variable list \<Rightarrow>
    (string \<rightharpoonup> var_getter \<times> bool) \<Rightarrow> ngx_rc \<times> (string \<rightharpoonup> var_getter \<times> bool)" where
  "ngx_sentinel_add_variables add [] reg = (NGX_OK, reg)"
| "ngx_sentinel_add_variables add (v # vs) reg =
     (if \<not> add (var_name v) then (NGX_ERROR, reg)
      else ngx_sentinel_add_variables add vs (reg(var_name v \<mapsto> (var_get v, var_nocacheable v))))"

subsection \<open>What the tables say\<close>

lemmas command_table = ngx_sentinel_commands_def core_commands_def signal_commands_def fingerprint_commands_def
  action_commands_def feed_commands_def export_commands_def

abbreviation table_setters :: "setter list" where
  "table_setters \<equiv> map cmd_set ngx_sentinel_commands"

lemma command_names_distinct: "distinct (map cmd_name ngx_sentinel_commands)"
  unfolding command_table by simp

lemma variable_names_distinct: "distinct (map var_name ngx_sentinel_vars)"
  unfolding ngx_sentinel_vars_def by simp

text \<open>Exactly the setters of the main configuration are restricted to the \<open>http\<close> block, and the status
  page to a location.\<close>

lemma main_setters_main_only:
  "list_all (\<lambda>c. cmd_ctx c = (case cmd_set c of MainSet f \<Rightarrow> [HTTP_MAIN] | CoreSet \<Rightarrow> [HTTP_LOC] | _ \<Rightarrow> http_any))
     ngx_sentinel_commands"
  unfolding command_table by simp

text \<open>Two fields that do not overlap.\<close>

definition apart :: "int field \<Rightarrow> int field \<Rightarrow> bool" where
  "apart f g \<longleftrightarrow> (\<forall>l v. fst g (snd f (\<lambda>_. v) l) = fst g l)"

fun int_slot :: "setter \<Rightarrow> int field option" where
  "int_slot (FlagSlot f) = Some f"
| "int_slot (NumSlot f) = Some f"
| "int_slot (SecSlot f) = Some f"
| "int_slot (SizeSlot f) = Some f"
| "int_slot _ = None"

fun slot_unset :: "setter \<Rightarrow> int" where
  "slot_unset (SizeSlot f) = NGX_CONF_UNSET_SIZE"
| "slot_unset _ = NGX_CONF_UNSET"

definition slots_apart :: "setter \<Rightarrow> setter \<Rightarrow> bool" where
  "slots_apart s t \<longleftrightarrow>
     (case int_slot s of None \<Rightarrow> True | Some f \<Rightarrow>
        (case int_slot t of None \<Rightarrow> True | Some g \<Rightarrow> apart f g \<and> apart g f))"

lemma table_slots_apart: "sorted_wrt slots_apart table_setters"
  unfolding command_table by (simp add: slots_apart_def apart_def weight_slot_def)

lemma other_slot_apart:
  assumes "cmd \<in> set ngx_sentinel_commands" "cmd' \<in> set ngx_sentinel_commands" "cmd' \<noteq> cmd"
    and "int_slot (cmd_set cmd) = Some f" "int_slot (cmd_set cmd') = Some g"
  shows "apart f g"
proof -
  from assms(1,2) obtain i j where ij: "i < length ngx_sentinel_commands" "ngx_sentinel_commands ! i = cmd"
    "j < length ngx_sentinel_commands" "ngx_sentinel_commands ! j = cmd'" by (metis in_set_conv_nth)
  have "slots_apart (cmd_set cmd) (cmd_set cmd') \<or> slots_apart (cmd_set cmd') (cmd_set cmd)"
    using sorted_wrt_nth_less [OF table_slots_apart, of i j] sorted_wrt_nth_less [OF table_slots_apart, of j i]
      ij assms(3) by (cases i j rule: linorder_cases) auto
  then show ?thesis using assms(4,5) by (auto simp: slots_apart_def)
qed

text \<open>What was stored in a slot is read back.\<close>

lemma table_get_put:
  "list_all (\<lambda>s. case int_slot s of None \<Rightarrow> True | Some f \<Rightarrow> \<forall>l v. fst f (snd f (\<lambda>_. v) l) = v) table_setters"
  unfolding command_table by (simp add: weight_slot_def)

text \<open>The rest of a location configuration that the slots and the setters must leave alone.\<close>

definition unslotted :: "loc_conf \<Rightarrow> nat option \<times> zone_ptr \<times> zone_ptr \<times> zone_ptr \<times> int" where
  "unslotted l = (lcf_zone l, lcf_vel_zone l, lcf_fcrdns_zone l, lcf_cs_zone l, lcf_shadow l)"

lemma table_slots_frame:
  "list_all (\<lambda>s. case int_slot s of None \<Rightarrow> True | Some f \<Rightarrow> \<forall>l v. unslotted (snd f (\<lambda>_. v) l) = unslotted l)
     table_setters"
  unfolding command_table by (simp add: weight_slot_def unslotted_def)

definition slotted :: "loc_conf \<Rightarrow> int list \<times> ngx_sentinel_weights" where
  "slotted l =
     ([lcf_enabled l, lcf_tarpit_max_conns l, lcf_tarpit_maze l, lcf_block_status l, lcf_block_ttl l,
       lcf_throttle_rate l, lcf_shield l, lcf_pow_enabled l, lcf_pow_difficulty l, lcf_pow_ttl l,
       lcf_fcrdns_ttl l, lcf_cs_interval l, lcf_cs_default_ttl l, lcf_cs_stale_after l, lcf_cs_max_bytes l,
       lcf_redis_interval l, lcf_redis_ttl l, lcf_cs_sink_interval l, lcf_cs_sink_ttl l], lcf_weights l)"

lemma table_slotted:
  assumes "slotted l' = slotted l"
  shows "list_all (\<lambda>s. case int_slot s of None \<Rightarrow> True | Some f \<Rightarrow> fst f l' = fst f l) table_setters"
  using assms unfolding command_table by (simp add: weight_slot_def slotted_def)

text \<open>No other setter touches a slot, and only \<open>sentinel_mode\<close> writes anything of the rest.\<close>

definition keeps :: "loc_conf \<Rightarrow> loc_conf \<Rightarrow> bool" where
  "keeps l l' \<longleftrightarrow> slotted l' = slotted l \<and>
     (unslotted l' = unslotted l \<or> (\<exists>v \<in> {0, 1}. unslotted l' = unslotted (l\<lparr>lcf_shadow := v\<rparr>)))"

lemma keeps_refl: "keeps l l"
  by (simp add: keeps_def)

lemma c2ip_deny_keeps: "sentinel_conf_c2ip_deny ngx args l = Inr l' \<Longrightarrow> keeps l l'"
  by (induction ngx args l rule: sentinel_conf_c2ip_deny.induct)
    (auto simp: keeps_def slotted_def unslotted_def split: option.splits ngx_cidr.splits)

lemmas setter_defs = ngx_sentinel_set_mode_def ngx_sentinel_set_fail_def set_threshold_def
  sentinel_conf_asn_source_def sentinel_conf_datacenter_asn_def sentinel_conf_ja3_source_def
  sentinel_conf_ja3_deny_def sentinel_conf_ja4_source_def sentinel_conf_ja4_deny_def
  sentinel_conf_ja4t_source_def sentinel_conf_ja4t_deny_def ngx_sentinel_set_velocity_bind_def
  sentinel_conf_honeypot_def sentinel_conf_allowlist_def ngx_sentinel_set_tarpit_delay_def
  ngx_sentinel_set_tarpit_bytes_def ngx_sentinel_set_tarpit_lifetime_def ngx_sentinel_set_fcrdns_def
  ngx_sentinel_set_fcrdns_suffix_def ngx_sentinel_set_crowdsec_feed_def ngx_sentinel_set_redis_def
  ngx_sentinel_set_cs_sink_def

lemma locset_keeps:
  "list_all (\<lambda>s. case s of LocSet h \<Rightarrow> \<forall>ngx args l l'. h ngx args l = Inr l' \<longrightarrow> keeps l l'
     | StrSlot f \<Rightarrow> \<forall>l v. keeps l (snd f (\<lambda>_. v) l) | _ \<Rightarrow> True) table_setters"
  unfolding command_table
  by (simp add: c2ip_deny_keeps)
    (auto simp: setter_defs keeps_def slotted_def unslotted_def Let_def split: if_splits)

subsection \<open>One block\<close>

text \<open>An accepted directive of a location configuration.\<close>

definition loc_step :: "ngx_api \<Rightarrow> slot_api \<Rightarrow> loc_conf \<Rightarrow> loc_conf \<Rightarrow> bool" where
  "loc_step ngx sl l l' \<longleftrightarrow>
     (\<exists>cmd \<in> set ngx_sentinel_commands. \<exists>args. slot_set ngx sl (cmd_set cmd) args l = Inr l')"

lemma table_all:
  assumes "list_all P table_setters" "cmd \<in> set ngx_sentinel_commands"
  shows "P (cmd_set cmd)"
  using assms by (simp add: list_all_iff)

lemma set_field_law:
  assumes "int_slot_law u V g" "set_field g f s l = Inr l'"
  shows "fst f l = u \<and> (\<exists>v \<in> V. l' = snd f (\<lambda>_. v) l)"
proof -
  from assms(2) obtain v where v: "g (fst f l) s = Inr v" "l' = snd f (\<lambda>_. v) l"
    by (auto simp: set_field_def)
  have "fst f l = u"
  proof (rule ccontr)
    assume "fst f l \<noteq> u"
    then have "g (fst f l) s = Inl CONF_DUPLICATE" using assms(1) by (simp add: int_slot_law_def)
    then show False using v(1) by simp
  qed
  moreover from this have "v \<in> V" using assms(1) v(1) unfolding int_slot_law_def by blast
  ultimately show ?thesis using v(2) by blast
qed

lemma int_slot_set:
  assumes "slot_laws sl" "int_slot st = Some f" "slot_set ngx sl st args l = Inr l'"
  shows "fst f l = slot_unset st"
    and "\<exists>v. l' = snd f (\<lambda>_. v) l \<and> 0 \<le> v \<and> v \<noteq> slot_unset st \<and> ((\<exists>g. st = FlagSlot g) \<longrightarrow> v \<in> {0, 1})"
proof -
  have laws: "int_slot_law NGX_CONF_UNSET {0, 1} (flag_slot sl)" "int_slot_law NGX_CONF_UNSET {0..} (num_slot sl)"
    "int_slot_law NGX_CONF_UNSET {0..} (sec_slot sl)"
    "int_slot_law NGX_CONF_UNSET_SIZE {0..<NGX_CONF_UNSET_SIZE} (size_slot sl)"
    using assms(1) by (simp_all add: slot_laws_def)
  note field = set_field_law [OF laws(1)] set_field_law [OF laws(2)] set_field_law [OF laws(3)]
    set_field_law [OF laws(4)]
  consider "st = FlagSlot f" | "st = NumSlot f" | "st = SecSlot f" | "st = SizeSlot f"
    using assms(2) by (cases st) auto
  then have "fst f l = slot_unset st \<and>
    (\<exists>v. l' = snd f (\<lambda>_. v) l \<and> 0 \<le> v \<and> v \<noteq> slot_unset st \<and> ((\<exists>g. st = FlagSlot g) \<longrightarrow> v \<in> {0, 1}))"
  proof cases
    case 1
    then show ?thesis using field(1) [of f "args ! 0" l l'] assms(3) by (auto simp: NGX_CONF_UNSET_def)
  next
    case 2
    then show ?thesis using field(2) [of f "args ! 0" l l'] assms(3) by (auto simp: NGX_CONF_UNSET_def)
  next
    case 3
    then show ?thesis using field(3) [of f "args ! 0" l l'] assms(3) by (auto simp: NGX_CONF_UNSET_def)
  next
    case 4
    then show ?thesis using field(4) [of f "args ! 0" l l'] assms(3) by auto
  qed
  then show "fst f l = slot_unset st"
    "\<exists>v. l' = snd f (\<lambda>_. v) l \<and> 0 \<le> v \<and> v \<noteq> slot_unset st \<and> ((\<exists>g. st = FlagSlot g) \<longrightarrow> v \<in> {0, 1})"
    by blast+
qed

text \<open>Every directive sets its slot or keeps all of them.\<close>

lemma other_setters_keep:
  assumes "cmd \<in> set ngx_sentinel_commands" "int_slot (cmd_set cmd) = None" "slot_set ngx sl (cmd_set cmd) args l = Inr l'"
  shows "keeps l l'"
  using assms(2,3) table_all [OF locset_keeps assms(1)]
  by (cases "cmd_set cmd") (auto simp: set_field_def keeps_refl)

lemma set_slot_stays:
  assumes laws: "slot_laws sl" and cmd: "cmd \<in> set ngx_sentinel_commands" "int_slot (cmd_set cmd) = Some f"
    and set: "fst f l \<noteq> slot_unset (cmd_set cmd)" and step: "loc_step ngx sl l l'"
  shows "fst f l' = fst f l"
proof -
  from step obtain cmd' args where c: "cmd' \<in> set ngx_sentinel_commands" "slot_set ngx sl (cmd_set cmd') args l = Inr l'"
    by (auto simp: loc_step_def)
  show ?thesis
  proof (cases "int_slot (cmd_set cmd')")
    case None
    then have "slotted l' = slotted l" using other_setters_keep [OF c(1) _ c(2)] by (simp add: keeps_def)
    from table_all [OF table_slotted [OF this] cmd(1)] show ?thesis by (simp add: cmd(2))
  next
    case (Some g)
    note s = int_slot_set [OF laws Some c(2)]
    from s(2) obtain v where l': "l' = snd g (\<lambda>_. v) l" by blast
    have "cmd' \<noteq> cmd" using s(1) set Some cmd(2) by auto
    from other_slot_apart [OF c(1) cmd(1) not_sym [OF this] Some cmd(2)] show ?thesis
      by (simp add: l' apart_def)
  qed
qed

text \<open>What holds of a location configuration while it is read.\<close>

definition slots_ok :: "loc_conf \<Rightarrow> bool" where
  "slots_ok l \<longleftrightarrow> (\<forall>cmd \<in> set ngx_sentinel_commands. \<forall>f. int_slot (cmd_set cmd) = Some f \<longrightarrow> - 1 \<le> fst f l)"

lemma slots_okI:
  "(\<And>cmd f. cmd \<in> set ngx_sentinel_commands \<Longrightarrow> int_slot (cmd_set cmd) = Some f \<Longrightarrow> - 1 \<le> fst f l) \<Longrightarrow> slots_ok l"
  by (simp add: slots_ok_def)

lemma slots_okD:
  "slots_ok l \<Longrightarrow> cmd \<in> set ngx_sentinel_commands \<Longrightarrow> int_slot (cmd_set cmd) = Some f \<Longrightarrow> - 1 \<le> fst f l"
  unfolding slots_ok_def by blast

definition block_ok :: "loc_conf \<Rightarrow> bool" where
  "block_ok l \<longleftrightarrow>
     slots_ok l \<and> lcf_enabled l \<in> {- 1, 0, 1} \<and> lcf_shadow l \<in> {- 1, 0, 1} \<and>
     unslotted l = (None, ZUnset, ZUnset, ZUnset, lcf_shadow l)"

lemma create_block_ok: "block_ok ngx_sentinel_create_loc_conf"
proof -
  have "list_all (\<lambda>s. case int_slot s of None \<Rightarrow> True | Some f \<Rightarrow> - 1 \<le> fst f ngx_sentinel_create_loc_conf) table_setters"
    unfolding command_table
    by (simp add: weight_slot_def ngx_sentinel_create_loc_conf_def unset_weights_def
        NGX_CONF_UNSET_def NGX_CONF_UNSET_SIZE_def)
  from table_all [OF this] have "slots_ok ngx_sentinel_create_loc_conf" by (intro slots_okI) fastforce
  then show ?thesis
    by (simp add: block_ok_def unslotted_def ngx_sentinel_create_loc_conf_def NGX_CONF_UNSET_def)
qed

lemma table_enabled:
  "list_all (\<lambda>s. case int_slot s of None \<Rightarrow> True | Some f \<Rightarrow>
     s = FlagSlot (lcf_enabled, lcf_enabled_update) \<or> (\<forall>l v. lcf_enabled (snd f (\<lambda>_. v) l) = lcf_enabled l)) table_setters"
  unfolding command_table by (simp add: weight_slot_def)

lemma loc_step_ok:
  assumes laws: "slot_laws sl" and step: "loc_step ngx sl l l'" and ok: "block_ok l"
  shows "block_ok l'"
proof -
  from step obtain cmd args where c: "cmd \<in> set ngx_sentinel_commands" "slot_set ngx sl (cmd_set cmd) args l = Inr l'"
    by (auto simp: loc_step_def)
  show ?thesis
  proof (cases "int_slot (cmd_set cmd)")
    case None
    note k = other_setters_keep [OF c(1) None c(2)]
    then have "slotted l' = slotted l" by (simp add: keeps_def)
    note t = table_slotted [OF this]
    have "lcf_enabled l' = lcf_enabled l" using k by (simp add: keeps_def slotted_def)
    moreover have "unslotted l' = (None, ZUnset, ZUnset, ZUnset, lcf_shadow l')" "lcf_shadow l' \<in> {- 1, 0, 1}"
      using k ok by (auto simp: keeps_def block_ok_def unslotted_def)
    moreover have "slots_ok l'"
    proof (rule slots_okI)
      fix cmd' f assume c': "cmd' \<in> set ngx_sentinel_commands" "int_slot (cmd_set cmd') = Some f"
      from table_all [OF t c'(1)] have "fst f l' = fst f l" by (simp add: c'(2))
      then show "- 1 \<le> fst f l'" using ok slots_okD c' by (simp add: block_ok_def)
    qed
    ultimately show ?thesis using ok by (simp add: block_ok_def)
  next
    case (Some f)
    from int_slot_set(2) [OF laws Some c(2)] obtain v where v: "l' = snd f (\<lambda>_. v) l" "0 \<le> v"
      "(\<exists>g. cmd_set cmd = FlagSlot g) \<longrightarrow> v \<in> {0, 1}" by blast
    have "unslotted l' = unslotted l" using table_all [OF table_slots_frame c(1)] by (simp add: Some v(1))
    moreover have "lcf_enabled l' \<in> {- 1, 0, 1}"
      using table_all [OF table_enabled c(1)] ok v Some by (auto simp: block_ok_def)
    moreover have "slots_ok l'"
    proof (rule slots_okI)
      fix cmd' g assume c': "cmd' \<in> set ngx_sentinel_commands" "int_slot (cmd_set cmd') = Some g"
      show "- 1 \<le> fst g l'"
      proof (cases "cmd' = cmd")
        case True
        then show ?thesis using table_all [OF table_get_put c(1)] c'(2) Some v by simp
      next
        case False
        from other_slot_apart [OF c(1) c'(1) False Some c'(2)] have "fst g l' = fst g l"
          by (simp add: apart_def v(1))
        then show ?thesis using ok slots_okD c' by (simp add: block_ok_def)
      qed
    qed
    ultimately show ?thesis using ok by (simp add: block_ok_def unslotted_def)
  qed
qed

subsection \<open>The whole file\<close>

abbreviation lcf_at :: "conf_state \<Rightarrow> nat \<Rightarrow> loc_conf" where
  "lcf_at s b \<equiv> blk_lcf (cs_blocks s ! b)"

lemma run_setter_loc:
  assumes "run_setter ngx sl st args b s = Inr s'" "b < length (cs_blocks s)" "i < length (cs_blocks s)"
  shows "length (cs_blocks s') = length (cs_blocks s)" "blk_ctx (cs_blocks s' ! i) = blk_ctx (cs_blocks s ! i)"
    "lcf_at s' i = lcf_at s i \<or> slot_set ngx sl st args (lcf_at s i) = Inr (lcf_at s' i)"
  using assms
  by (cases st; cases "i = b"; auto simp: set_loc_def ngx_sentinel_set_status_def)+

text \<open>A step changes a block by one accepted directive, or leaves it alone.\<close>

lemma conf_step_loc:
  assumes "conf_step ngx sl s s'" "i < length (cs_blocks s)"
  shows "length (cs_blocks s) \<le> length (cs_blocks s')" "blk_ctx (cs_blocks s' ! i) = blk_ctx (cs_blocks s ! i)"
    "lcf_at s' i = lcf_at s i \<or> loc_step ngx sl (lcf_at s i) (lcf_at s' i)"
proof -
  have "length (cs_blocks s) \<le> length (cs_blocks s') \<and> blk_ctx (cs_blocks s' ! i) = blk_ctx (cs_blocks s ! i) \<and>
    (lcf_at s' i = lcf_at s i \<or> loc_step ngx sl (lcf_at s i) (lcf_at s' i))"
    using assms(1)
  proof (cases rule: conf_step.cases)
    case (block ctx)
    then show ?thesis using assms(2) by (simp add: nth_append)
  next
    case (directive cmd b args)
    then show ?thesis using run_setter_loc [OF directive(5,2) assms(2)] by (auto simp: loc_step_def)
  qed
  then show "length (cs_blocks s) \<le> length (cs_blocks s')" "blk_ctx (cs_blocks s' ! i) = blk_ctx (cs_blocks s ! i)"
    "lcf_at s' i = lcf_at s i \<or> loc_step ngx sl (lcf_at s i) (lcf_at s' i)" by blast+
qed

lemma conf_step_ok:
  assumes "slot_laws sl" "conf_step ngx sl s s'" "\<forall>i < length (cs_blocks s). block_ok (lcf_at s i)"
  shows "\<forall>i < length (cs_blocks s'). block_ok (lcf_at s' i)"
proof (intro allI impI)
  fix i assume i: "i < length (cs_blocks s')"
  show "block_ok (lcf_at s' i)"
  proof (cases "i < length (cs_blocks s)")
    case True
    then show ?thesis using conf_step_loc(3) [OF assms(2) True] loc_step_ok [OF assms(1)] assms(3) by auto
  next
    case False
    from assms(2) have "lcf_at s' i = ngx_sentinel_create_loc_conf"
    proof (cases rule: conf_step.cases)
      case (block ctx)
      then show ?thesis using i False by (simp add: nth_append new_block_def)
    next
      case (directive cmd b args)
      then show ?thesis using run_setter_loc(1) [OF directive(5,2,2)] i False by simp
    qed
    then show ?thesis by (simp add: create_block_ok)
  qed
qed

lemma conf_read_ok:
  assumes "conf_read ngx sl s" "slot_laws sl"
  shows "\<forall>i < length (cs_blocks s). block_ok (lcf_at s i)"
  using assms(1) unfolding conf_read_def
proof (induction rule: rtranclp_induct)
  case base
  then show ?case by (simp add: http_start_def new_block_def create_block_ok)
next
  case (step s s')
  then show ?case using conf_step_ok [OF assms(2)] by blast
qed

text \<open>The main configuration is changed by the four zone directives only.\<close>

lemma table_main_setters:
  "list_all (\<lambda>s. case s of MainSet f \<Rightarrow>
     \<forall>ngx args m m'. f ngx args m = Inr m' \<longrightarrow> main_conf_reachable ngx m \<longrightarrow> main_conf_reachable ngx m' | _ \<Rightarrow> True) table_setters"
  unfolding command_table
  by (simp, intro conjI allI impI)
    (erule (1) main_conf_reachable.zone main_conf_reachable.velocity_zone main_conf_reachable.crowdsec_zone
      main_conf_reachable.fcrdns_zone)+

lemma conf_step_main:
  assumes "conf_step ngx sl s s'" "main_conf_reachable ngx (cs_main s)"
  shows "main_conf_reachable ngx (cs_main s')"
  using assms(1)
proof (cases rule: conf_step.cases)
  case (block ctx)
  then show ?thesis using assms(2) by simp
next
  case (directive cmd b args)
  then show ?thesis using table_all [OF table_main_setters directive(1)] assms(2)
    by (cases "cmd_set cmd") (auto simp: set_loc_def)
qed

lemma conf_read_main:
  assumes "conf_read ngx sl s"
  shows "main_conf_reachable ngx (cs_main s)"
  using assms unfolding conf_read_def
proof (induction rule: rtranclp_induct)
  case base
  then show ?case by (simp add: http_start_def main_conf_reachable.create)
next
  case (step s s')
  then show ?case using conf_step_main by blast
qed

subsection \<open>The merge\<close>

text \<open>A slot that a location sets survives its merge, stage by stage.\<close>

definition wins :: "loc_conf \<Rightarrow> loc_conf \<Rightarrow> bool" where
  "wins c c' \<longleftrightarrow>
     list_all (\<lambda>s. case int_slot s of None \<Rightarrow> True | Some f \<Rightarrow> fst f c \<noteq> slot_unset s \<longrightarrow> fst f c' = fst f c) table_setters"

lemma winsD:
  assumes "wins c c'" "cmd \<in> set ngx_sentinel_commands" "int_slot (cmd_set cmd) = Some f" "fst f c \<noteq> slot_unset (cmd_set cmd)"
  shows "fst f c' = fst f c"
  using table_all [OF assms(1) [unfolded wins_def] assms(2)] assms(3,4) by simp

lemma wins_trans: "wins c c' \<Longrightarrow> wins c' c'' \<Longrightarrow> wins c c''"
  by (fastforce simp: wins_def list_all_iff split: option.splits)

lemma slotted_wins: "slotted c' = slotted c \<Longrightarrow> wins c c'"
  using table_slotted [of c' c] by (auto simp: wins_def list_all_iff split: option.splits)

lemma merge_core_wins: "wins c (merge_core prev c)"
  unfolding wins_def command_table
  by (simp add: merge_core_def merge_weights_def merge_value_def weight_slot_def)

lemma merge_fcrdns_wins: "merge_fcrdns m prev c = Inr c' \<Longrightarrow> wins c c'"
  unfolding wins_def command_table
  by (auto simp: merge_fcrdns_def merge_value_def weight_slot_def Let_def)

lemma merge_velocity_wins: "merge_velocity m prev c = Inr c' \<Longrightarrow> wins c c'"
  by (rule slotted_wins) (auto simp: merge_velocity_def slotted_def Let_def)

lemma merge_crowdsec_wins: "merge_crowdsec ps prev (merge_lists prev c) = Inr c' \<Longrightarrow> wins c c'"
  unfolding wins_def command_table
  by (simp add: merge_crowdsec_def merge_lists_def merge_value_def merge_size_value_def weight_slot_def Let_def)

lemma merge_redis_wins: "merge_redis prev c = Inr c' \<Longrightarrow> wins c c'"
  unfolding wins_def command_table by (simp add: merge_redis_def merge_value_def weight_slot_def Let_def)

lemma merge_cs_sink_wins: "merge_cs_sink prev c = Inr c' \<Longrightarrow> wins c c'"
  unfolding wins_def command_table by (simp add: merge_cs_sink_def merge_value_def weight_slot_def Let_def)

lemma merge_tarpit_wins: "merge_tarpit prev c = Inr c' \<Longrightarrow> wins c c'"
  unfolding wins_def command_table by (simp add: merge_tarpit_def merge_value_def weight_slot_def Let_def)

lemma merge_actions_wins: "merge_actions prev c = Inr c' \<Longrightarrow> wins c c'"
  unfolding wins_def command_table
  by (simp add: merge_actions_def merge_value_def merge_size_value_def weight_slot_def Let_def)

lemma merge_zones_wins: "merge_zones m prev c = Inr (m', c') \<Longrightarrow> wins c c'"
  by (rule slotted_wins, erule merge_zones_Inr) (simp add: slotted_def)

lemma merge_wins:
  assumes "ngx_sentinel_merge_loc_conf ngx m prev conf = Inr (m', c)"
  shows "wins conf c"
  using assms merge_core_wins merge_fcrdns_wins merge_velocity_wins merge_crowdsec_wins merge_redis_wins
    merge_cs_sink_wins merge_tarpit_wins merge_actions_wins merge_zones_wins wins_trans
  unfolding ngx_sentinel_merge_loc_conf_def conf_then_Inr by metis

text \<open>What a block that was read brings to the merge, and what the merge makes of it.\<close>

definition weight_values :: "ngx_sentinel_weights \<Rightarrow> int list" where
  "weight_values w =
     [w_errrate w, w_blocked w, w_scanner w, w_bot w, w_header w, w_honeypot w, w_velocity w, w_asn w,
      w_coherence w, w_ja3 w, w_ja4 w, w_ja4t w, w_c2ip w, w_crowdsec w]"

definition pre_merge :: "main_conf \<Rightarrow> loc_conf \<Rightarrow> bool" where
  "pre_merge m l \<longleftrightarrow> ptrs_pre m l \<and> list_all ((\<le>) (- 1)) (weight_values (lcf_weights l)) \<and>
     lcf_enabled l \<in> {- 1, 0, 1} \<and> lcf_shadow l \<in> {- 1, 0, 1}"

definition served_ok :: "ngx_api \<Rightarrow> main_conf \<Rightarrow> loc_conf \<Rightarrow> bool" where
  "served_ok ngx m c \<longleftrightarrow>
     ranges_ok ngx c \<and> ptrs_ok m c \<and> list_all ((\<le>) 0) (weight_values (lcf_weights c)) \<and>
     lcf_enabled c \<in> {0, 1} \<and> lcf_shadow c \<in> {0, 1} \<and>
     (lcf_cs_feed c \<noteq> [] \<or> lcf_redis_host c \<noteq> [] \<longrightarrow> (\<exists>i. lcf_cs_zone c = ZAt i))"

lemma slots_ok_weights:
  assumes "slots_ok l"
  shows "list_all ((\<le>) (- 1)) (weight_values (lcf_weights l))"
proof -
  have "list_all (\<lambda>s. case int_slot s of None \<Rightarrow> True | Some f \<Rightarrow> - 1 \<le> fst f l) table_setters"
    using slots_okD [OF assms] by (auto simp: list_all_iff split: option.split)
  then show ?thesis unfolding command_table by (simp add: weight_slot_def weight_values_def)
qed

lemma block_pre_merge: "block_ok l \<Longrightarrow> pre_merge m l"
  by (simp add: block_ok_def pre_merge_def slots_ok_weights ptrs_pre_def unslotted_def)

lemma served_pre_merge: "served_ok ngx m c \<Longrightarrow> pre_merge m c"
  by (auto simp: served_ok_def pre_merge_def ptrs_pre_def ptrs_ok_def weight_values_def)

lemma merge_value_nonneg: "- 1 \<le> c \<Longrightarrow> - 1 \<le> p \<Longrightarrow> 0 \<le> d \<Longrightarrow> 0 \<le> merge_value c p d"
  by (simp add: merge_value_def NGX_CONF_UNSET_def)

lemma merge_weights_nonneg:
  assumes "list_all ((\<le>) (- 1)) (weight_values c)" "list_all ((\<le>) (- 1)) (weight_values p)"
  shows "list_all ((\<le>) 0) (weight_values (merge_weights c p))"
  using assms by (simp add: weight_values_def merge_weights_def merge_value_nonneg)

lemma merge_served:
  assumes mg: "ngx_sentinel_merge_loc_conf ngx m prev conf = Inr (m', c)" and pre: "pre_merge m prev" "pre_merge m conf"
  shows "served_ok ngx m' c"
proof -
  have v: "lcf_enabled c = merge_value (lcf_enabled conf) (lcf_enabled prev) 0"
    "lcf_shadow c = merge_value (lcf_shadow conf) (lcf_shadow prev) 1"
    "lcf_weights c = merge_weights (lcf_weights conf) (lcf_weights prev)"
    using merge_core_view [OF mg] by (simp_all add: core_view_def merge_core_def)
  have "lcf_enabled c \<in> {0, 1}" "lcf_shadow c \<in> {0, 1}"
    using pre by (auto simp: v pre_merge_def merge_value_def NGX_CONF_UNSET_def)
  then show ?thesis
    using merge_ranges_ok [OF mg] merge_ptrs_ok [OF mg] merge_weights_nonneg pre
    by (simp add: served_ok_def pre_merge_def v)
qed

text \<open>A later merge moves no zone.\<close>

lemma served_mono:
  assumes "ngx_sentinel_merge_loc_conf ngx m prev conf = Inr (m', c)" "served_ok ngx m d"
  shows "served_ok ngx m' d"
proof -
  from assms(1) obtain z where "m' = set_cs_interval (lcf_cs_stale_after c) z m" by (rule merge_loc_conf_main)
  then show ?thesis using assms(2) by (simp add: served_ok_def ptrs_ok_def)
qed

lemma conf_serves_ok:
  assumes "conf_serves ngx sl s ms m" "slot_laws sl"
  shows "conf_read ngx sl s \<and> main_conf_reachable ngx m \<and> (\<forall>c \<in> set ms. served_ok ngx m c)"
  using assms(1)
proof (induction rule: conf_serves.induct)
  case (read s)
  then show ?case using conf_read_main by simp
next
  case (server s ms m b m' c)
  have "\<forall>i < length (cs_blocks s). block_ok (lcf_at s i)" using conf_read_ok server.IH assms(2) by blast
  moreover have "0 < length (cs_blocks s)" using server.hyps(2) by (cases b) auto
  ultimately have "block_ok (lcf_at s 0)" "block_ok (lcf_at s b)" using server.hyps(2) by blast+
  then show ?case
    using merge_served [OF server.hyps(4) block_pre_merge block_pre_merge] served_mono [OF server.hyps(4)]
      main_conf_reachable.merge [OF _ server.hyps(4)] server.IH by auto
next
  case (location s ms m prev b m' c)
  have b: "block_ok (lcf_at s b)" using conf_read_ok location.IH location.hyps(3) assms(2) by blast
  show ?case
    using merge_served [OF location.hyps(5) served_pre_merge block_pre_merge [OF b]] served_mono [OF location.hyps(5)]
      main_conf_reachable.merge [OF _ location.hyps(5)] location by auto
qed

subsection \<open>Settings that were written\<close>

lemma set_slot_persists:
  assumes laws: "slot_laws sl" and cmd: "cmd \<in> set ngx_sentinel_commands" "int_slot (cmd_set cmd) = Some f"
    and steps: "(conf_step ngx sl)\<^sup>*\<^sup>* s s'"
    and "b < length (cs_blocks s)" "fst f (lcf_at s b) \<noteq> slot_unset (cmd_set cmd)"
  shows "b < length (cs_blocks s') \<and> fst f (lcf_at s' b) = fst f (lcf_at s b)"
  using steps
proof (induction rule: rtranclp_induct)
  case base
  then show ?case using assms(5) by simp
next
  case (step s1 s2)
  then have b: "b < length (cs_blocks s1)" and f: "fst f (lcf_at s1 b) = fst f (lcf_at s b)" by auto
  have "fst f (lcf_at s2 b) = fst f (lcf_at s1 b)"
    using conf_step_loc(3) [OF step.hyps(2) b] set_slot_stays [OF laws cmd] f assms(6) by metis
  then show ?case using conf_step_loc(1) [OF step.hyps(2) b] b f by simp
qed

lemma slot_directive:
  assumes laws: "slot_laws sl" and cmd: "cmd \<in> set ngx_sentinel_commands" "int_slot (cmd_set cmd) = Some f"
    and run: "run_setter ngx sl (cmd_set cmd) args b s = Inr s1" and b: "b < length (cs_blocks s)"
  shows "fst f (lcf_at s b) = slot_unset (cmd_set cmd)" "fst f (lcf_at s1 b) \<noteq> slot_unset (cmd_set cmd)"
    "0 \<le> fst f (lcf_at s1 b)" "b < length (cs_blocks s1)"
proof -
  have set: "slot_set ngx sl (cmd_set cmd) args (lcf_at s b) = Inr (lcf_at s1 b)"
    using run b cmd(2) by (cases "cmd_set cmd") (auto simp: set_loc_def)
  show "fst f (lcf_at s b) = slot_unset (cmd_set cmd)" by (rule int_slot_set(1) [OF laws cmd(2) set])
  from int_slot_set(2) [OF laws cmd(2) set] obtain v where v: "lcf_at s1 b = snd f (\<lambda>_. v) (lcf_at s b)"
    "0 \<le> v" "v \<noteq> slot_unset (cmd_set cmd)" by blast
  have "fst f (lcf_at s1 b) = v" using table_all [OF table_get_put cmd(1)] by (simp add: cmd(2) v(1))
  then show "fst f (lcf_at s1 b) \<noteq> slot_unset (cmd_set cmd)" "0 \<le> fst f (lcf_at s1 b)" using v by simp_all
  show "b < length (cs_blocks s1)" using run_setter_loc(1) [OF run b b] b by simp
qed

text \<open>The error of a second occurrence.\<close>

lemma set_slot_duplicate:
  assumes laws: "slot_laws sl" and slot: "int_slot (cmd_set cmd) = Some f"
    and set: "fst f (lcf_at s b) \<noteq> slot_unset (cmd_set cmd)"
  shows "run_setter ngx sl (cmd_set cmd) args b s = Inl CONF_DUPLICATE"
proof -
  have "slot_set ngx sl (cmd_set cmd) args (lcf_at s b) = Inl CONF_DUPLICATE"
    using laws slot set
    by (cases "cmd_set cmd") (auto simp: set_field_def conf_then_def slot_laws_def int_slot_law_def)
  then show ?thesis using slot by (cases "cmd_set cmd") (auto simp: conf_then_def)
qed

subsection \<open>Samples\<close>

text \<open>Slot setters that read a flag or a decimal number.\<close>

definition shim_flag :: "string \<Rightarrow> conf_error + int" where
  "shim_flag s = (if s = ''on'' then Inr 1 else if s = ''off'' then Inr 0 else Inl CONF_ERROR)"

definition shim_num :: "string \<Rightarrow> conf_error + int" where
  "shim_num s = (case shim_atoi s of Some v \<Rightarrow> if 0 \<le> v then Inr v else Inl CONF_ERROR | None \<Rightarrow> Inl CONF_ERROR)"

definition shim_slot :: "int \<Rightarrow> (string \<Rightarrow> conf_error + int) \<Rightarrow> int \<Rightarrow> string \<Rightarrow> conf_error + int" where
  "shim_slot unset f cur s = (if cur \<noteq> unset then Inl CONF_DUPLICATE else f s)"

definition slot_shim :: slot_api where
  "slot_shim =
     \<lparr>flag_slot = shim_slot NGX_CONF_UNSET shim_flag, num_slot = shim_slot NGX_CONF_UNSET shim_num,
      sec_slot = shim_slot NGX_CONF_UNSET shim_num,
      size_slot = shim_slot NGX_CONF_UNSET_SIZE
        (\<lambda>s. case shim_num s of Inr v \<Rightarrow> if v < NGX_CONF_UNSET_SIZE then Inr v else Inl CONF_ERROR | Inl e \<Rightarrow> Inl e),
      str_slot = (\<lambda>cur s. case cur of None \<Rightarrow> Inr (Some s) | Some c \<Rightarrow> Inl CONF_DUPLICATE)\<rparr>"

lemma slot_shim_laws: "slot_laws slot_shim"
  by (auto simp: slot_laws_def int_slot_law_def slot_shim_def shim_slot_def shim_flag_def shim_num_def
      split: if_splits option.splits sum.splits)

definition sample_directive :: ngx_command where
  "sample_directive = Command ''sentinel_block_status'' http_any CONF_TAKE1
     (NumSlot (lcf_block_status, lcf_block_status_update))"

definition sample_read :: conf_state where
  "sample_read = \<lparr>cs_main = ngx_sentinel_create_main_conf,
     cs_blocks = [new_block HTTP_MAIN, new_block HTTP_SRV]\<rparr>"

definition sample_set :: conf_state where
  "sample_set = set_loc 1 (ngx_sentinel_create_loc_conf\<lparr>lcf_block_status := 451\<rparr>) sample_read"

lemma sample_directive_in: "sample_directive \<in> set ngx_sentinel_commands"
  unfolding command_table sample_directive_def by simp

lemma sample_run: "run_setter ngx_shim slot_shim (cmd_set sample_directive) [''451''] 1 sample_read = Inr sample_set"
proof -
  have "shim_num ''451'' = Inr 451" by (simp add: shim_num_def shim_atoi_def byte_of_def)
  then show ?thesis
    by (simp add: sample_directive_def sample_set_def sample_read_def set_field_def conf_then_def slot_shim_def shim_slot_def
        new_block_def set_loc_def ngx_sentinel_create_loc_conf_def NGX_CONF_UNSET_def)
qed

lemma sample_conf_read: "conf_read ngx_shim slot_shim sample_set"
proof -
  have "conf_step ngx_shim slot_shim http_start sample_read"
    using conf_step.block [of HTTP_SRV ngx_shim slot_shim http_start] by (simp add: http_start_def sample_read_def)
  moreover have "conf_step ngx_shim slot_shim sample_read sample_set"
    by (rule conf_step.directive [OF sample_directive_in _ _ _ sample_run])
      (simp_all add: sample_read_def new_block_def sample_directive_def)
  ultimately show ?thesis unfolding conf_read_def by (meson rtranclp.simps)
qed

lemma sample_merge:
  "ngx_sentinel_merge_loc_conf ngx_shim ngx_sentinel_create_main_conf ngx_sentinel_create_loc_conf
     (ngx_sentinel_create_loc_conf\<lparr>lcf_block_status := 451\<rparr>)
   = Inr (ngx_sentinel_create_main_conf, default_loc_conf\<lparr>lcf_block_status := 451\<rparr>)"
  by (simp add: ngx_sentinel_merge_loc_conf_def merge_core_def merge_fcrdns_def merge_velocity_def
      merge_lists_def merge_crowdsec_def merge_redis_def merge_cs_sink_def merge_tarpit_def
      merge_actions_def merge_zones_def conf_then_def conf_check_def resolve_zone_def
      bind_cs_zone_def bind_zone_def merge_null_def merge_list_def merge_value_def
      merge_size_value_def merge_ptr_value_def merge_str_value_def merge_weights_def
      merge_threshold_def ngx_sentinel_create_loc_conf_def ngx_sentinel_create_main_conf_def
      default_loc_conf_def default_weights_def default_threshold_def unset_weights_def ngx_shim_def
      NGX_CONF_UNSET_def NGX_CONF_UNSET_SIZE_def NGX_SENTINEL_SCORE_MAX_def Let_def)

subsection \<open>Properties\<close>

text \<open>
  Claim C34: whatever configuration file nginx accepts, every server and location it serves is sound.
  From the unset configuration, through any sequence of blocks and of directives of the table that
  nginx's rules admit, and any order of the merges, every error-rate and velocity zone has positive
  parameters and every ban zone none; every merged location has its numeric settings in their
  ranges, no negative weight, switches that are off or on, and zone pointers that are null
  or point into the array of their kind, with a CrowdSec zone wherever a feed or Redis needs it.
\<close>

theorem accepted_configuration_is_sound:
  assumes "conf_serves ngx sl s ms m" and "slot_laws sl"
  shows "main_conf_ok m \<and> (\<forall>c \<in> set ms. served_ok ngx m c)"
  using conf_serves_ok [OF assms] main_conf_reachable_ok by blast

theorem accepted_configuration_is_sound_witness:
  "main_conf_ok ngx_sentinel_create_main_conf \<and>
   served_ok ngx_shim ngx_sentinel_create_main_conf (default_loc_conf\<lparr>lcf_block_status := 451\<rparr>)"
proof -
  have "conf_serves ngx_shim slot_shim sample_set [default_loc_conf\<lparr>lcf_block_status := 451\<rparr>]
      ngx_sentinel_create_main_conf"
    using conf_serves.server [OF conf_serves.read [OF sample_conf_read], of 1] sample_merge
    by (simp add: sample_set_def sample_read_def set_loc_def new_block_def)
  from accepted_configuration_is_sound [OF this slot_shim_laws] show ?thesis by simp
qed



text \<open>
  Registration of the variables: when \<open>ngx_http_add_variable\<close> answers for every name, each of the
  module's variables is registered with the getter of its table entry and as not cacheable, and a
  name that is refused stops the start with an error.
\<close>

lemma add_variables_other:
  "n \<notin> var_name ` set vs \<Longrightarrow> snd (ngx_sentinel_add_variables add vs reg) n = reg n"
  by (induction vs arbitrary: reg) auto

lemma add_variables_ok:
  assumes "distinct (map var_name vs)" "\<forall>v \<in> set vs. add (var_name v)"
  shows "fst (ngx_sentinel_add_variables add vs reg) = NGX_OK"
    "v \<in> set vs \<Longrightarrow> snd (ngx_sentinel_add_variables add vs reg) (var_name v) = Some (var_get v, var_nocacheable v)"
  using assms by (induction vs arbitrary: reg) (auto simp: add_variables_other)

lemma add_variables_error:
  "v \<in> set vs \<Longrightarrow> \<not> add (var_name v) \<Longrightarrow> fst (ngx_sentinel_add_variables add vs reg) = NGX_ERROR"
  by (induction vs arbitrary: reg) auto

lemma variables_registered:
  assumes "\<forall>n. add n" "v \<in> set ngx_sentinel_vars"
  shows "fst (ngx_sentinel_add_variables add ngx_sentinel_vars reg) = NGX_OK"
    "snd (ngx_sentinel_add_variables add ngx_sentinel_vars reg) (var_name v) = Some (var_get v, True)"
proof -
  have "list_all var_nocacheable ngx_sentinel_vars" by (simp add: ngx_sentinel_vars_def)
  then have "var_nocacheable v" using assms(2) by (simp add: list_all_iff)
  then show "fst (ngx_sentinel_add_variables add ngx_sentinel_vars reg) = NGX_OK"
    "snd (ngx_sentinel_add_variables add ngx_sentinel_vars reg) (var_name v) = Some (var_get v, True)"
    using add_variables_ok [OF variable_names_distinct] assms by auto
qed

end
