(* ===== verification/Sentinel_Adapter.thy ===== *)
theory Sentinel_Adapter
  imports Sentinel_Redis
begin

text \<open>
  The adapter between hiredis and the nginx event loop (\<^verbatim>\<open>src/sentinel_redis.c\<close>, first part): the
  two event handlers, the five hooks hiredis calls, the attachment of the socket to a connection
  slot. The state is what the adapter touches of nginx: the connection slots with the flags of
  their two events, and the queue of posted events. nginx's own event functions are the parameter
  \<open>event_api\<close>. The step relation \<open>adapter_step\<close> interleaves hiredis's hook calls with nginx's
  dispatch; its invariant is that no event of a freed slot is ever dispatched.
\<close>

datatype direction = READ_EVENT | WRITE_EVENT

record ngx_event =
  ne_active :: bool
  ne_ready :: bool
  ne_posted :: bool
  ne_closed :: bool
  ne_handler :: "direction option"

record ngx_connection =
  cn_fd :: int
  cn_read :: ngx_event
  cn_write :: ngx_event

type_synonym event_id = "nat \<times> direction"

record adapter =
  ad_ac :: bool
  ad_conn :: "nat option"
  ad_slots :: "nat \<Rightarrow> ngx_connection"
  ad_posted :: "event_id list"

text \<open>What nginx provides: registering and removing an event, posting one and deleting a posted
  one.\<close>

record event_api =
  handle_read_event :: "ngx_event \<Rightarrow> ngx_rc \<times> ngx_event"
  handle_write_event :: "ngx_event \<Rightarrow> ngx_rc \<times> ngx_event"
  del_event :: "ngx_event \<Rightarrow> ngx_rc \<times> ngx_event"
  post_event :: "event_id \<Rightarrow> event_id list \<Rightarrow> ngx_event \<Rightarrow> event_id list \<times> ngx_event"
  delete_posted_event :: "event_id \<Rightarrow> event_id list \<Rightarrow> ngx_event \<Rightarrow> event_id list \<times> ngx_event"

text \<open>Its documented behaviour. Registration changes the readiness and registration flags only, and
  a write event that is not ready is registered when it succeeds; an event that is not
  posted is posted at the tail; a posted one is taken out of the queue.\<close>

definition same_post :: "ngx_event \<Rightarrow> ngx_event \<Rightarrow> bool" where
  "same_post ev ev' \<longleftrightarrow> ne_posted ev' = ne_posted ev \<and> ne_closed ev' = ne_closed ev \<and> ne_handler ev' = ne_handler ev"

definition event_laws :: "event_api \<Rightarrow> bool" where
  "event_laws ea \<longleftrightarrow>
     (\<forall>ev. same_post ev (snd (handle_read_event ea ev))) \<and>
     (\<forall>ev. same_post ev (snd (handle_write_event ea ev))) \<and>
     (\<forall>ev. same_post ev (snd (del_event ea ev))) \<and>
     (\<forall>ev. \<not> ne_ready ev \<longrightarrow> fst (handle_write_event ea ev) = NGX_OK \<longrightarrow> ne_active (snd (handle_write_event ea ev))) \<and>
     (\<forall>e q ev. \<not> ne_posted ev \<longrightarrow> post_event ea e q ev = (q @ [e], ev\<lparr>ne_posted := True\<rparr>)) \<and>
     (\<forall>e q ev. delete_posted_event ea e q ev = (filter (\<lambda>x. x \<noteq> e) q, ev\<lparr>ne_posted := False\<rparr>))"

lemma event_lawsD:
  assumes "event_laws ea"
  shows "same_post ev (snd (handle_read_event ea ev))" "same_post ev (snd (handle_write_event ea ev))"
    "same_post ev (snd (del_event ea ev))"
    "\<not> ne_posted ev \<Longrightarrow> post_event ea e q ev = (q @ [e], ev\<lparr>ne_posted := True\<rparr>)"
    "delete_posted_event ea e q ev = (filter (\<lambda>x. x \<noteq> e) q, ev\<lparr>ne_posted := False\<rparr>)"
    "\<not> ne_ready ev \<Longrightarrow> fst (handle_write_event ea ev) = NGX_OK \<Longrightarrow> ne_active (snd (handle_write_event ea ev))"
  using assms unfolding event_laws_def by blast+

fun event_of :: "direction \<Rightarrow> ngx_connection \<Rightarrow> ngx_event" where
  "event_of READ_EVENT c = cn_read c"
| "event_of WRITE_EVENT c = cn_write c"

fun set_event :: "direction \<Rightarrow> ngx_event \<Rightarrow> ngx_connection \<Rightarrow> ngx_connection" where
  "set_event READ_EVENT ev c = c\<lparr>cn_read := ev\<rparr>"
| "set_event WRITE_EVENT ev c = c\<lparr>cn_write := ev\<rparr>"

definition put_event :: "event_id \<Rightarrow> ngx_event \<Rightarrow> adapter \<Rightarrow> adapter" where
  "put_event e ev st = st\<lparr>ad_slots := (ad_slots st)(fst e := set_event (snd e) ev (ad_slots st (fst e)))\<rparr>"

definition get_event :: "event_id \<Rightarrow> adapter \<Rightarrow> ngx_event" where
  "get_event e st = event_of (snd e) (ad_slots st (fst e))"

lemma event_of_set [simp]: "event_of d (set_event d' ev c) = (if d = d' then ev else event_of d c)"
  by (cases d; cases d') simp_all

lemma fd_set [simp]: "cn_fd (set_event d ev c) = cn_fd c"
  by (cases d) simp_all

lemma put_event_simps [simp]:
  "get_event e' (put_event e ev st) = (if e' = e then ev else get_event e' st)"
  "ad_posted (put_event e ev st) = ad_posted st" "ad_conn (put_event e ev st) = ad_conn st"
  "ad_ac (put_event e ev st) = ad_ac st" "cn_fd (ad_slots (put_event e ev st) i) = cn_fd (ad_slots st i)"
  by (cases e; cases e'; auto simp: put_event_def get_event_def)+

lemma get_event_frame [simp]:
  "get_event e (st\<lparr>ad_posted := q\<rparr>) = get_event e st" "get_event e (st\<lparr>ad_ac := b\<rparr>) = get_event e st"
  "get_event e (st\<lparr>ad_conn := c\<rparr>) = get_event e st"
  by (simp_all add: get_event_def)

subsection \<open>Event handlers\<close>

text \<open>What a handler asks of hiredis: \<open>redisAsyncHandleRead\<close> or \<open>redisAsyncHandleWrite\<close>.\<close>

definition sentinel_redis_read_event :: "event_api \<Rightarrow> nat \<Rightarrow> adapter \<Rightarrow> adapter \<times> direction option" where
  "sentinel_redis_read_event ea i st =
     (if \<not> ad_ac st then (st, None)
      else (put_event (i, READ_EVENT) (snd (handle_read_event ea (get_event (i, READ_EVENT) st))) st,
            Some READ_EVENT))"

definition sentinel_redis_write_event :: "nat \<Rightarrow> adapter \<Rightarrow> adapter \<times> direction option" where
  "sentinel_redis_write_event i st = (if \<not> ad_ac st then (st, None) else (st, Some WRITE_EVENT))"

subsection \<open>Hooks\<close>

definition sentinel_redis_add_read :: "event_api \<Rightarrow> adapter \<Rightarrow> adapter" where
  "sentinel_redis_add_read ea st =
     (case ad_conn st of
        None \<Rightarrow> st
      | Some i \<Rightarrow> put_event (i, READ_EVENT) (snd (handle_read_event ea (get_event (i, READ_EVENT) st))) st)"

definition sentinel_redis_del_read :: "event_api \<Rightarrow> adapter \<Rightarrow> adapter" where
  "sentinel_redis_del_read ea st =
     (case ad_conn st of
        None \<Rightarrow> st
      | Some i \<Rightarrow>
          if ne_active (get_event (i, READ_EVENT) st)
          then put_event (i, READ_EVENT) (snd (del_event ea (get_event (i, READ_EVENT) st))) st
          else st)"

definition sentinel_redis_add_write :: "event_api \<Rightarrow> adapter \<Rightarrow> adapter" where
  "sentinel_redis_add_write ea st =
     (case ad_conn st of
        None \<Rightarrow> st
      | Some i \<Rightarrow>
          (let e = (i, WRITE_EVENT); wev = get_event e st
           in if ne_ready wev then
                (if \<not> ne_posted wev
                 then (case post_event ea e (ad_posted st) wev of
                         (q, wev) \<Rightarrow> put_event e wev (st\<lparr>ad_posted := q\<rparr>))
                 else st)
              else put_event e (snd (handle_write_event ea wev)) st))"

definition sentinel_redis_del_write :: "event_api \<Rightarrow> adapter \<Rightarrow> adapter" where
  "sentinel_redis_del_write ea st =
     (case ad_conn st of
        None \<Rightarrow> st
      | Some i \<Rightarrow>
          if ne_active (get_event (i, WRITE_EVENT) st)
          then put_event (i, WRITE_EVENT) (snd (del_event ea (get_event (i, WRITE_EVENT) st))) st
          else st)"

text \<open>Detaching: unregister both events, take both out of the queue, mark the slot closed and give
  it back.\<close>

definition unregister :: "event_api \<Rightarrow> event_id \<Rightarrow> adapter \<Rightarrow> adapter" where
  "unregister ea e st =
     (if ne_active (get_event e st) then put_event e (snd (del_event ea (get_event e st))) st else st)"

definition unpost :: "event_api \<Rightarrow> event_id \<Rightarrow> adapter \<Rightarrow> adapter" where
  "unpost ea e st =
     (if ne_posted (get_event e st)
      then (case delete_posted_event ea e (ad_posted st) (get_event e st) of
              (q, ev) \<Rightarrow> put_event e ev (st\<lparr>ad_posted := q\<rparr>))
      else st)"

definition close_slot :: "nat \<Rightarrow> adapter \<Rightarrow> adapter" where
  "close_slot i st =
     st\<lparr>ad_slots := (ad_slots st)(i := (ad_slots st i)\<lparr>cn_fd := - 1,
          cn_read := (cn_read (ad_slots st i))\<lparr>ne_closed := True\<rparr>,
          cn_write := (cn_write (ad_slots st i))\<lparr>ne_closed := True\<rparr>\<rparr>)\<rparr>"

definition adapter_ev_cleanup :: "event_api \<Rightarrow> adapter \<Rightarrow> adapter" where
  "adapter_ev_cleanup ea st =
     (case ad_conn st of
        None \<Rightarrow> st
      | Some i \<Rightarrow>
          let st = st\<lparr>ad_conn := None\<rparr>;
              st = unregister ea (i, READ_EVENT) st;
              st = unregister ea (i, WRITE_EVENT) st;
              st = unpost ea (i, READ_EVENT) st;
              st = unpost ea (i, WRITE_EVENT) st
          in close_slot i st)"

text \<open>Attaching: \<open>fd\<close> is the socket of the new context and \<open>slot\<close> what \<open>ngx_get_connection\<close>
  answers.\<close>

definition adapter_attach :: "int \<Rightarrow> (nat \<times> ngx_connection) option \<Rightarrow> adapter \<Rightarrow> ngx_rc \<times> adapter" where
  "adapter_attach fd slot st =
     (if fd = - 1 then (NGX_ERROR, st)
      else case slot of
             None \<Rightarrow> (NGX_ERROR, st)
           | Some (i, c) \<Rightarrow>
               let c = c\<lparr>cn_read := (cn_read c)\<lparr>ne_handler := Some READ_EVENT, ne_ready := False\<rparr>,
                         cn_write := (cn_write c)\<lparr>ne_handler := Some WRITE_EVENT, ne_ready := False\<rparr>\<rparr>
               in (NGX_OK, st\<lparr>ad_conn := Some i, ad_slots := (ad_slots st)(i := c)\<rparr>))"

text \<open>The reply to a SET is only logged, and only an error.\<close>

fun sentinel_redis_set_reply :: "redis_reply option \<Rightarrow> sentinel_redis_ctx option \<Rightarrow> string list" where
  "sentinel_redis_set_reply (Some (RError e)) (Some rc) = [''sentinel: redis SET error: '' @ e]"
| "sentinel_redis_set_reply _ _ = []"

subsection \<open>Interleavings\<close>

text \<open>A slot that \<open>ngx_get_connection\<close> hands out: its events are zeroed, it has the socket's
  descriptor, and nothing of it is queued.\<close>

definition fresh_slot :: "int \<Rightarrow> nat \<times> ngx_connection \<Rightarrow> adapter \<Rightarrow> bool" where
  "fresh_slot fd ic st \<longleftrightarrow>
     cn_fd (snd ic) = fd \<and> (\<forall>d. \<not> ne_posted (event_of d (snd ic)) \<and> \<not> ne_closed (event_of d (snd ic))) \<and>
     (\<forall>d. (fst ic, d) \<notin> set (ad_posted st))"

text \<open>One step: \<open>sentinel_redis_connect\<close> attaches a new context, hiredis calls a hook or is freed,
  nginx reports a registered event as ready, or nginx runs the first posted event.\<close>

inductive adapter_step :: "event_api \<Rightarrow> adapter \<Rightarrow> adapter \<Rightarrow> bool" for ea where
  attach: "ad_conn st = None \<Longrightarrow> (case slot of None \<Rightarrow> True | Some ic \<Rightarrow> fresh_slot fd ic st) \<Longrightarrow>
     adapter_attach fd slot st = (rc, st') \<Longrightarrow> adapter_step ea st (st'\<lparr>ad_ac := (rc = NGX_OK)\<rparr>)"
| add_read: "ad_ac st \<Longrightarrow> adapter_step ea st (sentinel_redis_add_read ea st)"
| del_read: "ad_ac st \<Longrightarrow> adapter_step ea st (sentinel_redis_del_read ea st)"
| add_write: "ad_ac st \<Longrightarrow> adapter_step ea st (sentinel_redis_add_write ea st)"
| del_write: "ad_ac st \<Longrightarrow> adapter_step ea st (sentinel_redis_del_write ea st)"
| cleanup: "adapter_step ea st (adapter_ev_cleanup ea (st\<lparr>ad_ac := False\<rparr>))"
| readable: "ne_active (get_event (i, READ_EVENT) st) \<Longrightarrow> ad_conn st = Some i \<Longrightarrow>
     sentinel_redis_read_event ea i
       (put_event (i, READ_EVENT) ((get_event (i, READ_EVENT) st)\<lparr>ne_ready := True\<rparr>) st) = (st', call) \<Longrightarrow>
     adapter_step ea st st'"
| writable: "ne_active (get_event (i, WRITE_EVENT) st) \<Longrightarrow> ad_conn st = Some i \<Longrightarrow>
     sentinel_redis_write_event i
       (put_event (i, WRITE_EVENT) ((get_event (i, WRITE_EVENT) st)\<lparr>ne_ready := True\<rparr>) st) = (st', call) \<Longrightarrow>
     adapter_step ea st st'"
| posted: "ad_posted st = (i, WRITE_EVENT) # q \<Longrightarrow>
     sentinel_redis_write_event i
       (put_event (i, WRITE_EVENT) ((get_event (i, WRITE_EVENT) st)\<lparr>ne_posted := False\<rparr>) (st\<lparr>ad_posted := q\<rparr>))
       = (st', call) \<Longrightarrow>
     adapter_step ea st st'"
| posted_read: "ad_posted st = (i, READ_EVENT) # q \<Longrightarrow>
     sentinel_redis_read_event ea i
       (put_event (i, READ_EVENT) ((get_event (i, READ_EVENT) st)\<lparr>ne_posted := False\<rparr>) (st\<lparr>ad_posted := q\<rparr>))
       = (st', call) \<Longrightarrow>
     adapter_step ea st st'"

inductive adapter_reach :: "event_api \<Rightarrow> adapter \<Rightarrow> bool" for ea where
  start: "ad_conn st = None \<Longrightarrow> ad_posted st = [] \<Longrightarrow> \<not> ad_ac st \<Longrightarrow> adapter_reach ea st"
| more: "adapter_reach ea st \<Longrightarrow> adapter_step ea st st' \<Longrightarrow> adapter_reach ea st'"

text \<open>The invariant: an event is queued at most once, exactly when its flag says so, and only for
  the attached slot, which is open and has the adapter's handlers.\<close>

definition event_ok :: "adapter \<Rightarrow> event_id \<Rightarrow> bool" where
  "event_ok st e \<longleftrightarrow>
     (e \<in> set (ad_posted st) \<longleftrightarrow> ne_posted (get_event e st)) \<and>
     \<not> ne_closed (get_event e st) \<and> ne_handler (get_event e st) = Some (snd e)"

definition adapter_inv :: "adapter \<Rightarrow> bool" where
  "adapter_inv st \<longleftrightarrow>
     distinct (ad_posted st) \<and>
     (\<forall>e \<in> set (ad_posted st). ad_conn st = Some (fst e)) \<and>
     (ad_conn st \<noteq> None \<longrightarrow> ad_ac st) \<and>
     (\<forall>i. ad_conn st = Some i \<longrightarrow> cn_fd (ad_slots st i) \<noteq> - 1 \<and> (\<forall>d. event_ok st (i, d)))"

lemma adapter_invD:
  assumes "adapter_inv st"
  shows "distinct (ad_posted st)" "e \<in> set (ad_posted st) \<Longrightarrow> ad_conn st = Some (fst e)"
    "ad_conn st = Some i \<Longrightarrow> ad_ac st" "ad_conn st = Some i \<Longrightarrow> cn_fd (ad_slots st i) \<noteq> - 1"
    "ad_conn st = Some i \<Longrightarrow> event_ok st (i, d)"
  using assms by (auto simp: adapter_inv_def)

lemma inv_detached: "adapter_inv st \<Longrightarrow> ad_conn st = None \<Longrightarrow> ad_posted st = []"
  by (cases "ad_posted st") (auto simp: adapter_inv_def)

text \<open>Replacing an event by one with the same queue flag keeps the invariant.\<close>

lemma put_event_inv:
  assumes "adapter_inv st" "same_post (get_event e st) ev"
  shows "adapter_inv (put_event e ev st)"
proof -
  have "event_ok (put_event e ev st) e' \<longleftrightarrow> event_ok st e'" for e'
    using assms(2) by (simp add: event_ok_def same_post_def)
  then show ?thesis using assms(1) by (simp add: adapter_inv_def)
qed

lemma hook_inv:
  assumes "event_laws ea" "adapter_inv st"
  shows "adapter_inv (sentinel_redis_add_read ea st)" "adapter_inv (sentinel_redis_del_read ea st)"
    "adapter_inv (sentinel_redis_del_write ea st)"
  using assms(2) put_event_inv [OF assms(2) event_lawsD(1) [OF assms(1)]]
    put_event_inv [OF assms(2) event_lawsD(3) [OF assms(1)]]
  by (simp_all add: sentinel_redis_add_read_def sentinel_redis_del_read_def sentinel_redis_del_write_def
      split: option.split)

lemma post_inv:
  assumes "adapter_inv st" "ad_conn st = Some i" "\<not> ne_posted (get_event (i, d) st)"
  shows "adapter_inv (put_event (i, d) ((get_event (i, d) st)\<lparr>ne_posted := True\<rparr>)
    (st\<lparr>ad_posted := ad_posted st @ [(i, d)]\<rparr>))" (is "adapter_inv ?st")
proof -
  have "event_ok ?st (i, d')" for d'
    using adapter_invD(5) [OF assms(1,2), of d'] by (auto simp: event_ok_def)
  moreover have "(i, d) \<notin> set (ad_posted st)"
    using adapter_invD(5) [OF assms(1,2), of d] assms(3) by (simp add: event_ok_def)
  ultimately show ?thesis using assms(1,2) by (auto simp: adapter_inv_def)
qed

lemma add_write_inv:
  assumes laws: "event_laws ea" and inv: "adapter_inv st"
  shows "adapter_inv (sentinel_redis_add_write ea st)"
proof (cases "ad_conn st")
  case (Some i)
  let ?e = "(i, WRITE_EVENT)"
  consider "\<not> ne_ready (get_event ?e st)" | "ne_ready (get_event ?e st)" "ne_posted (get_event ?e st)"
    | "ne_ready (get_event ?e st)" "\<not> ne_posted (get_event ?e st)" by blast
  then show ?thesis
  proof cases
    case 1
    then have "sentinel_redis_add_write ea st = put_event ?e (snd (handle_write_event ea (get_event ?e st))) st"
      by (simp add: sentinel_redis_add_write_def Some Let_def)
    then show ?thesis using put_event_inv [OF inv event_lawsD(2) [OF laws]] by simp
  next
    case 2
    then show ?thesis using inv by (simp add: sentinel_redis_add_write_def Some Let_def)
  next
    case 3
    then show ?thesis
      using post_inv [OF inv Some 3(2)] event_lawsD(4) [OF laws 3(2)]
      by (simp add: sentinel_redis_add_write_def Some Let_def)
  qed
qed (simp add: sentinel_redis_add_write_def inv)

text \<open>Running a posted event: it leaves the queue and its flag is cleared.\<close>

lemma run_posted_inv:
  assumes "adapter_inv st" "ad_posted st = (i, d) # q"
  shows "adapter_inv (put_event (i, d) ((get_event (i, d) st)\<lparr>ne_posted := False\<rparr>) (st\<lparr>ad_posted := q\<rparr>))"
    (is "adapter_inv ?st")
proof -
  have c: "ad_conn st = Some i" using adapter_invD(2) [OF assms(1), of "(i, d)"] assms(2) by simp
  have "distinct ((i, d) # q)" using adapter_invD(1) [OF assms(1)] assms(2) by simp
  moreover have "event_ok ?st (i, d')" for d'
    using adapter_invD(5) [OF assms(1) c, of d'] assms(2) \<open>distinct ((i, d) # q)\<close> by (auto simp: event_ok_def)
  ultimately show ?thesis
    using adapter_invD(2-4) [OF assms(1)] assms(2) c by (auto simp: adapter_inv_def)
qed

lemma ready_inv:
  assumes "adapter_inv st"
  shows "adapter_inv (put_event e ((get_event e st)\<lparr>ne_ready := True\<rparr>) st)"
  using put_event_inv [OF assms] by (simp add: same_post_def)

lemma handler_inv:
  assumes "event_laws ea" "adapter_inv st"
  shows "sentinel_redis_read_event ea i st = (st', call) \<Longrightarrow> adapter_inv st'"
    "sentinel_redis_write_event i st = (st', call) \<Longrightarrow> adapter_inv st'"
  using assms put_event_inv [OF assms(2) event_lawsD(1) [OF assms(1)]]
  by (auto simp: sentinel_redis_read_event_def sentinel_redis_write_event_def split: if_splits)

text \<open>After the cleanup nothing is queued and no slot is attached.\<close>

lemma unregister_fields:
  assumes "event_laws ea"
  shows "ad_posted (unregister ea e st) = ad_posted st" "ad_conn (unregister ea e st) = ad_conn st"
    "ad_ac (unregister ea e st) = ad_ac st"
    "ne_posted (get_event e' (unregister ea e st)) = ne_posted (get_event e' st)"
  using event_lawsD(3) [OF assms, of "get_event e st"]
  by (auto simp: unregister_def same_post_def)

lemma unpost_fields:
  assumes "event_laws ea"
  shows "ad_conn (unpost ea e st) = ad_conn st" "ad_ac (unpost ea e st) = ad_ac st"
    "ad_posted (unpost ea e st) =
       (if ne_posted (get_event e st) then filter (\<lambda>x. x \<noteq> e) (ad_posted st) else ad_posted st)"
    "e' \<noteq> e \<Longrightarrow> ne_posted (get_event e' (unpost ea e st)) = ne_posted (get_event e' st)"
  using event_lawsD(5) [OF assms, of e "ad_posted st" "get_event e st"]
  by (auto simp: unpost_def)

lemma cleanup_empties:
  assumes laws: "event_laws ea" and inv: "adapter_inv st"
  shows "ad_posted (adapter_ev_cleanup ea (st\<lparr>ad_ac := False\<rparr>)) = []"
    "ad_conn (adapter_ev_cleanup ea (st\<lparr>ad_ac := False\<rparr>)) = None"
    "\<not> ad_ac (adapter_ev_cleanup ea (st\<lparr>ad_ac := False\<rparr>))"
proof -
  show "ad_posted (adapter_ev_cleanup ea (st\<lparr>ad_ac := False\<rparr>)) = []"
  proof (cases "ad_conn st")
    case None
    then show ?thesis using inv_detached [OF inv] by (simp add: adapter_ev_cleanup_def)
  next
    case (Some i)
    let ?q = "ad_posted (adapter_ev_cleanup ea (st\<lparr>ad_ac := False\<rparr>))"
    have "set ?q \<subseteq> set (ad_posted st)" "(i, d) \<notin> set ?q" for d
      using adapter_invD(5) [OF inv Some, of d]
      by (cases d; auto simp: adapter_ev_cleanup_def Some Let_def close_slot_def event_ok_def
          unregister_fields [OF laws] unpost_fields [OF laws])+
    then have "e \<notin> set ?q" for e
      using adapter_invD(2) [OF inv, of e] Some by (cases e) auto
    then show ?thesis by (cases ?q) auto
  qed
  show "ad_conn (adapter_ev_cleanup ea (st\<lparr>ad_ac := False\<rparr>)) = None"
    "\<not> ad_ac (adapter_ev_cleanup ea (st\<lparr>ad_ac := False\<rparr>))"
    by (simp_all add: adapter_ev_cleanup_def close_slot_def Let_def unregister_fields [OF laws]
        unpost_fields [OF laws] split: option.split)
qed

lemma cleanup_inv:
  assumes "event_laws ea" "adapter_inv st"
  shows "adapter_inv (adapter_ev_cleanup ea (st\<lparr>ad_ac := False\<rparr>))"
  using cleanup_empties [OF assms] by (simp add: adapter_inv_def)

lemma attach_inv:
  assumes inv: "adapter_inv st" and "ad_conn st = None"
    and slot: "case slot of None \<Rightarrow> True | Some ic \<Rightarrow> fresh_slot fd ic st"
    and at: "adapter_attach fd slot st = (rc, st')"
  shows "adapter_inv (st'\<lparr>ad_ac := (rc = NGX_OK)\<rparr>)"
proof -
  have q: "ad_posted st = []" using inv assms(2) by (rule inv_detached)
  show ?thesis
  proof (cases "fd = - 1 \<or> slot = None")
    case True
    then have "rc = NGX_ERROR" "st' = st" using at by (auto simp: adapter_attach_def split: if_splits)
    then show ?thesis using q assms(2) by (simp add: adapter_inv_def)
  next
    case False
    then obtain i c where ic: "slot = Some (i, c)" "fd \<noteq> - 1" by auto
    have fresh: "cn_fd c = fd" "\<not> ne_posted (event_of d c)" "\<not> ne_closed (event_of d c)" for d
      using slot ic by (auto simp: fresh_slot_def)
    have ev: "event_of d (c\<lparr>cn_read := (cn_read c)\<lparr>ne_handler := Some READ_EVENT, ne_ready := False\<rparr>,
        cn_write := (cn_write c)\<lparr>ne_handler := Some WRITE_EVENT, ne_ready := False\<rparr>\<rparr>)
      = (event_of d c)\<lparr>ne_handler := Some d, ne_ready := False\<rparr>" for d
      by (cases d) simp_all
    show ?thesis using at ic q fresh
      by (auto simp: adapter_attach_def adapter_inv_def event_ok_def get_event_def ev Let_def)
  qed
qed

lemma adapter_step_inv:
  assumes laws: "event_laws ea" and "adapter_step ea st st'" "adapter_inv st"
  shows "adapter_inv st'"
  using assms(2,3)
proof (cases rule: adapter_step.cases)
  case (attach slot fd rc st'')
  then show ?thesis using attach_inv assms(3) by blast
next
  case cleanup
  then show ?thesis using cleanup_inv [OF laws assms(3)] by simp
next
  case (readable i call)
  then show ?thesis using handler_inv(1) [OF laws ready_inv [OF assms(3)]] by blast
next
  case (writable i call)
  then show ?thesis using handler_inv(2) [OF laws ready_inv [OF assms(3)]] by blast
next
  case (posted i q call)
  then show ?thesis using handler_inv(2) [OF laws run_posted_inv(1) [OF assms(3)]] by blast
next
  case (posted_read i q call)
  then show ?thesis using handler_inv(1) [OF laws run_posted_inv(1) [OF assms(3)]] by blast
qed (use hook_inv [OF laws assms(3)] add_write_inv [OF laws assms(3)] in simp_all)

lemma adapter_reach_inv:
  assumes "adapter_reach ea st" "event_laws ea"
  shows "adapter_inv st"
  using assms
proof (induction rule: adapter_reach.induct)
  case (start st)
  then show ?case by (simp add: adapter_inv_def)
next
  case (more st st')
  then show ?case using adapter_step_inv by blast
qed

subsection \<open>Refinement\<close>

text \<open>The client's view of the adapter is whether it has a context and a connection. The hooks do not
  change it, and attaching and detaching are what \<open>Sentinel_Redis\<close> says.\<close>

definition adapter_view :: "adapter \<Rightarrow> sentinel_redis_ctx \<Rightarrow> bool" where
  "adapter_view st rc \<longleftrightarrow> (rd_ac rc \<longleftrightarrow> ad_ac st) \<and> (rd_conn rc \<longleftrightarrow> ad_conn st \<noteq> None)"

lemma attach_refines:
  assumes "adapter_view st rc" "adapter_attach fd slot st = (r, st')"
    and "ev_attach env \<longleftrightarrow> fd \<noteq> - 1 \<and> slot \<noteq> None"
  shows "\<exists>rc'. sentinel_redis_attach env rc = (r, rc') \<and> adapter_view st' rc'"
  using assms by (cases slot)
    (auto simp: adapter_attach_def sentinel_redis_attach_def adapter_view_def Let_def split: if_splits)

lemma cleanup_refines:
  assumes "event_laws ea" "adapter_view st rc"
  shows "adapter_view (adapter_ev_cleanup ea st) (sentinel_redis_ev_cleanup rc)"
  using assms(2)
  by (auto simp: adapter_ev_cleanup_def sentinel_redis_ev_cleanup_def adapter_view_def close_slot_def Let_def
      unregister_fields [OF assms(1)] unpost_fields [OF assms(1)] split: option.split)

lemma hooks_refine:
  assumes "adapter_view st rc"
  shows "adapter_view (sentinel_redis_add_read ea st) rc" "adapter_view (sentinel_redis_del_read ea st) rc"
    "adapter_view (sentinel_redis_add_write ea st) rc" "adapter_view (sentinel_redis_del_write ea st) rc"
  using assms by (auto simp: adapter_view_def sentinel_redis_add_read_def sentinel_redis_del_read_def
      sentinel_redis_add_write_def sentinel_redis_del_write_def Let_def split: option.split prod.split)

subsection \<open>The write pump\<close>

lemma add_write_pumps:
  assumes "event_laws ea" "ad_conn st = Some i" "fst (handle_write_event ea (get_event (i, WRITE_EVENT) st)) = NGX_OK"
    and "adapter_inv st"
  shows "(i, WRITE_EVENT) \<in> set (ad_posted (sentinel_redis_add_write ea st)) \<or>
    ne_active (get_event (i, WRITE_EVENT) (sentinel_redis_add_write ea st))"
  using assms event_lawsD(4) [OF assms(1), of "get_event (i, WRITE_EVENT) st"]
    event_lawsD(6) [OF assms(1), of "get_event (i, WRITE_EVENT) st"]
    adapter_invD(5) [OF assms(4,2), of WRITE_EVENT]
  by (auto simp: sentinel_redis_add_write_def event_ok_def Let_def)

text \<open>The flag \<open>ready\<close> is nginx's record that the socket took bytes the last time; the adapter never
  clears it. When hiredis cannot drain its buffer it asks for the write event again, which posts
  it at once, so the queue of posted events does not empty while the socket is full.\<close>

definition blocked_write :: "event_api \<Rightarrow> nat \<Rightarrow> adapter \<Rightarrow> adapter" where
  "blocked_write ea i st =
     sentinel_redis_add_write ea
       (fst (sentinel_redis_write_event i
          (put_event (i, WRITE_EVENT) ((get_event (i, WRITE_EVENT) st)\<lparr>ne_posted := False\<rparr>)
             (st\<lparr>ad_posted := tl (ad_posted st)\<rparr>))))"

lemma full_socket_respins:
  assumes "event_laws ea" "ad_conn st = Some i" "ne_ready (get_event (i, WRITE_EVENT) st)"
    and "ad_posted st = [(i, WRITE_EVENT)]"
  shows "ad_posted ((blocked_write ea i ^^ n) st) = [(i, WRITE_EVENT)]"
proof -
  have "ad_conn ((blocked_write ea i ^^ n) st) = Some i \<and>
    ne_ready (get_event (i, WRITE_EVENT) ((blocked_write ea i ^^ n) st)) \<and>
    ad_posted ((blocked_write ea i ^^ n) st) = [(i, WRITE_EVENT)]"
    using assms(2-)
    by (induction n) (auto simp: blocked_write_def sentinel_redis_write_event_def
        sentinel_redis_add_write_def Let_def event_lawsD(4) [OF assms(1)])
  then show ?thesis by blast
qed

subsection \<open>Properties\<close>

text \<open>An event loop that registers whatever it is asked to.\<close>

definition event_shim :: event_api where
  "event_shim =
     \<lparr>handle_read_event = (\<lambda>ev. (NGX_OK, ev\<lparr>ne_active := True\<rparr>)),
      handle_write_event = (\<lambda>ev. (NGX_OK, ev\<lparr>ne_active := True\<rparr>)),
      del_event = (\<lambda>ev. (NGX_OK, ev\<lparr>ne_active := False\<rparr>)),
      post_event = (\<lambda>e q ev. (q @ [e], ev\<lparr>ne_posted := True\<rparr>)),
      delete_posted_event = (\<lambda>e q ev. (filter (\<lambda>x. x \<noteq> e) q, ev\<lparr>ne_posted := False\<rparr>))\<rparr>"

lemma event_shim_laws: "event_laws event_shim"
  by (simp add: event_laws_def event_shim_def same_post_def)

definition idle_event :: ngx_event where
  "idle_event = \<lparr>ne_active = False, ne_ready = False, ne_posted = False, ne_closed = False, ne_handler = None\<rparr>"

definition idle_conn :: "int \<Rightarrow> ngx_connection" where
  "idle_conn fd = \<lparr>cn_fd = fd, cn_read = idle_event, cn_write = idle_event\<rparr>"

definition idle_adapter :: adapter where
  "idle_adapter = \<lparr>ad_ac = False, ad_conn = None, ad_slots = (\<lambda>_. idle_conn (- 1)), ad_posted = []\<rparr>"

definition attached_adapter :: adapter where
  "attached_adapter = snd (adapter_attach 7 (Some (3, idle_conn 7)) idle_adapter)\<lparr>ad_ac := True\<rparr>"

lemma attached_reach: "adapter_reach event_shim attached_adapter"
proof -
  have at: "adapter_attach 7 (Some (3, idle_conn 7)) idle_adapter =
      (NGX_OK, snd (adapter_attach 7 (Some (3, idle_conn 7)) idle_adapter))"
    by (simp add: adapter_attach_def Let_def)
  have "event_of d (idle_conn 7) = idle_event" for d by (cases d) (simp_all add: idle_conn_def)
  then have fresh: "fresh_slot 7 (3, idle_conn 7) idle_adapter" "ad_conn idle_adapter = None"
    by (simp_all add: fresh_slot_def idle_event_def idle_adapter_def) (simp add: idle_conn_def)
  have "adapter_step event_shim idle_adapter attached_adapter"
    using adapter_step.attach [OF _ _ at, of event_shim] fresh by (simp add: attached_adapter_def)
  moreover have "adapter_reach event_shim idle_adapter"
    by (rule adapter_reach.start) (simp_all add: idle_adapter_def)
  ultimately show ?thesis by (rule adapter_reach.more [rotated])
qed



end
