(* ===== verification/Sentinel_System.thy ===== *)
theory Sentinel_System
  imports Sentinel_Commands Sentinel_Adapter
begin

text \<open>
  The whole module: the shared zones, rings and counters, and for each worker its Redis client, its
  sink and its DNS lookups. A step is one event in one worker: a request, a variable, the end of
  a request, a timer, a callback, the start of a worker. The invariant \<open>system_ok\<close> puts the
  components' invariants together; it holds in every state reachable from an accepted
  configuration. The last part follows one ban from a block on one machine to a block on another.
\<close>

subsection \<open>Sound zones\<close>

definition event_zone_sound :: "ngx_api \<Rightarrow> ngx_sentinel_zone \<Rightarrow> bool" where
  "event_zone_sound ngx z \<longleftrightarrow> event_zone_ok z \<and>
     (\<forall>sh. zone_sh z = Some sh \<longrightarrow> zone_inv ngx sh \<and> rings_ok (zone_threshold z) (zone_nodes sh))"

definition ban_zone_sound :: "ngx_api \<Rightarrow> ngx_sentinel_zone \<Rightarrow> bool" where
  "ban_zone_sound ngx z \<longleftrightarrow> (\<forall>sh. zone_sh z = Some sh \<longrightarrow> zone_inv ngx sh)"

definition zone_counts :: "main_conf \<Rightarrow> nat list" where
  "zone_counts m = [length (mcf_zones m), length (mcf_vel_zones m), length (mcf_cs_zones m), length (mcf_fcrdns_zones m)]"

text \<open>All zones are sound, and there are as many as the configuration declared.\<close>

definition main_sound :: "ngx_api \<Rightarrow> nat list \<Rightarrow> main_conf \<Rightarrow> bool" where
  "main_sound ngx L m \<longleftrightarrow>
     list_all (event_zone_sound ngx) (mcf_zones m) \<and> list_all (event_zone_sound ngx) (mcf_vel_zones m) \<and>
     list_all (ban_zone_sound ngx) (mcf_cs_zones m) \<and> list_all (ban_zone_sound ngx) (mcf_fcrdns_zones m) \<and>
     zone_counts m = L"

text \<open>A call through the zone arrays keeps what the operation keeps of its zone.\<close>

definition keeps_zone :: "(ngx_sentinel_zone \<Rightarrow> bool) \<Rightarrow>
    (ngx_sentinel_zone option \<Rightarrow> 'r \<times> ngx_sentinel_zone option) \<Rightarrow> bool" where
  "keeps_zone P f \<longleftrightarrow> snd (f None) = None \<and> (\<forall>z. P z \<longrightarrow> pred_option P (snd (f (Some z))))"

lemma keeps_pred: "keeps_zone P f \<Longrightarrow> pred_option P zone \<Longrightarrow> pred_option P (snd (f zone))"
  by (cases zone) (auto simp: keeps_zone_def)

lemma call_zone_keeps:
  assumes "keeps_zone P f" "list_all P zs"
  shows "list_all P (snd (call_zone f i zs))" "length (snd (call_zone f i zs)) = length zs"
proof -
  have "list_all P (snd (call_zone f i zs)) \<and> length (snd (call_zone f i zs)) = length zs"
  proof (cases "i < length zs")
    case True
    then have "P (zs ! i)" using assms(2) by (simp add: list_all_length)
    then have "pred_option P (snd (f (Some (zs ! i))))" using assms(1) by (simp add: keeps_zone_def)
    then show ?thesis using True assms(2)
      by (auto simp: call_zone_def list_all_iff split: prod.split option.split dest!: set_update_subset_insert [THEN subsetD])
  next
    case False
    then show ?thesis using assms by (auto simp: call_zone_def keeps_zone_def split: prod.split option.split)
  qed
  then show "list_all P (snd (call_zone f i zs))" "length (snd (call_zone f i zs)) = length zs" by simp_all
qed

lemma on_zone_keeps:
  assumes "\<And>z sh. P z \<Longrightarrow> zone_sh z = Some sh \<Longrightarrow> P (z\<lparr>zone_sh := Some (snd (g z sh))\<rparr>)"
  shows "keeps_zone P (on_zone err g)"
  using assms by (auto simp: keeps_zone_def on_zone_def split: option.split prod.split) (metis snd_conv)

lemma event_zone_step:
  assumes "zone_laws ngx" "op_ok op" "event_op op" "event_zone_sound ngx z" "zone_sh z = Some sh"
  shows "event_zone_sound ngx (z\<lparr>zone_sh := Some (zone_step ngx z op sh)\<rparr>)"
  using assms zone_step_inv event_step_rings by (auto simp: event_zone_sound_def event_zone_ok_def)

lemma ban_zone_step:
  assumes "zone_laws ngx" "op_ok op" "ban_zone_sound ngx z" "zone_sh z = Some sh"
  shows "ban_zone_sound ngx (z\<lparr>zone_sh := Some (zone_step ngx z op sh)\<rparr>)"
  using assms zone_step_inv by (auto simp: ban_zone_sound_def)

lemma event_ops_keep:
  assumes "zone_laws ngx" "length key < 65536"
  shows "keeps_zone (event_zone_sound ngx) (\<lambda>z. sentinel_shm_errrate_lookup ngx z key now)"
    "keeps_zone (event_zone_sound ngx) (\<lambda>z. sentinel_shm_errrate_record ngx z key now)"
    "keeps_zone (event_zone_sound ngx) (\<lambda>z. sentinel_shm_softban_set ngx z key now ttl)"
  unfolding sentinel_shm_errrate_lookup_def sentinel_shm_errrate_record_def sentinel_shm_softban_set_def
  using event_zone_step [OF assms(1), of "ZLookup key now"] event_zone_step [OF assms(1), of "ZRecord key now"]
    event_zone_step [OF assms(1), of "ZSoftban key now ttl"] assms(2)
  by (auto simp: op_ok_def intro!: on_zone_keeps)

lemma ban_ops_keep:
  assumes "zone_laws ngx" "length key < 65536"
  shows "keeps_zone (ban_zone_sound ngx) (\<lambda>z. sentinel_shm_crowdsec_lookup ngx z key now)"
    "keeps_zone (ban_zone_sound ngx) (\<lambda>z. sentinel_shm_crowdsec_upsert ngx z key e act g now pulled)"
  unfolding sentinel_shm_crowdsec_lookup_def sentinel_shm_crowdsec_upsert_def
  using ban_zone_step [OF assms(1), of "ZCsLookup key now"]
    ban_zone_step [OF assms(1), of "ZCsUpsert key e act g now pulled"] assms(2)
  by (auto simp: op_ok_def intro!: on_zone_keeps)

lemma sweep_keeps:
  assumes "zone_laws ngx"
  shows "keeps_zone (ban_zone_sound ngx) (\<lambda>z. sentinel_shm_crowdsec_sweep ngx z g batch)"
  unfolding sentinel_shm_crowdsec_sweep_def
  using ban_zone_step [OF assms, of "ZCsSweep g batch"] by (auto simp: op_ok_def intro!: on_zone_keeps)

lemma fcrdns_ops_keep:
  assumes "zone_laws ngx" "length key < 65536"
  shows "keeps_zone (ban_zone_sound ngx) (sentinel_shm_fcrdns_get ngx key now)"
    "keeps_zone (ban_zone_sound ngx) (sentinel_shm_fcrdns_set ngx key v now ttl)"
proof -
  have "snd (sentinel_shm_fcrdns_get ngx key now z) = snd (sentinel_shm_crowdsec_lookup ngx z key now)" for z
    by (simp add: sentinel_shm_fcrdns_get_def split: prod.split)
  then show "keeps_zone (ban_zone_sound ngx) (sentinel_shm_fcrdns_get ngx key now)"
    using ban_ops_keep(1) [OF assms] by (simp add: keeps_zone_def)
  show "keeps_zone (ban_zone_sound ngx) (sentinel_shm_fcrdns_set ngx key v now ttl)"
    using ban_ops_keep(2) [OF assms] by (simp add: keeps_zone_def sentinel_shm_fcrdns_set_def)
qed

lemma pulled_keeps:
  assumes "zone_laws ngx" "length key < 65536"
  shows "keeps_zone (ban_zone_sound ngx) (upsert_pulled ngx key e act now)"
  using ban_ops_keep(2) [OF assms] by (auto simp: keeps_zone_def upsert_pulled_def split: option.split)

text \<open>A load of the feed.\<close>

lemma feed_apply_keeps:
  assumes laws: "zone_laws ngx" "digest_laws ngx"
  shows "pred_option (ban_zone_sound ngx) zone \<Longrightarrow>
    pred_option (ban_zone_sound ngx) (snd (feed_apply ngx ttl now g ls applied zone))"
proof (induction ls arbitrary: applied zone)
  case (Cons line ls)
  have up: "pred_option (ban_zone_sound ngx) (snd (sentinel_shm_crowdsec_upsert ngx zone (sentinel_feed_digest ngx canon) e act g now False))"
    for canon e act
    using ban_ops_keep(2) [OF laws(1), of "sentinel_feed_digest ngx canon" e act g now False] Cons.prems laws(2)
    by (cases zone) (auto simp: keeps_zone_def sentinel_feed_digest_def digest_laws_def)
  show ?case
    using Cons.IH [OF Cons.prems] Cons.IH [OF up] up
    by (auto simp: Let_def split: option.split prod.split) (metis snd_conv)+
qed simp

lemma feed_sweep_keeps:
  assumes "zone_laws ngx"
  shows "pred_option (ban_zone_sound ngx) zone \<Longrightarrow> pred_option (ban_zone_sound ngx) (feed_sweep ngx g zone)"
  using assms
proof (induction ngx g zone rule: feed_sweep.induct)
  case (1 ngx g zone)
  obtain d zone' where s: "sentinel_shm_crowdsec_sweep ngx zone g NGX_SENTINEL_FEED_APPLY_BATCH = (d, zone')" by fastforce
  have "pred_option (ban_zone_sound ngx) zone'"
    using keeps_pred [OF sweep_keeps [OF 1(3), of g NGX_SENTINEL_FEED_APPLY_BATCH] 1(2)] by (simp add: s)
  then show ?case using 1(1) [OF s [symmetric]] 1(3) by (simp add: feed_sweep.simps [of ngx] s)
qed

lemma feed_parse_keeps:
  assumes laws: "zone_laws ngx" "digest_laws ngx"
  shows "keeps_zone (ban_zone_sound ngx) (\<lambda>z. sentinel_feed_parse ngx z data ttl now)"
proof -
  have "pred_option (ban_zone_sound ngx) (snd (sentinel_feed_parse ngx (Some z) data ttl now))" if z: "ban_zone_sound ngx z" for z
  proof (cases "zone_sh z")
    case None
    then show ?thesis using z by (simp add: sentinel_feed_parse_def)
  next
    case (Some sh)
    have "zone_inv ngx (sh\<lparr>sh_generation := x\<rparr>)" for x
      using z Some by (simp add: ban_zone_sound_def zone_inv_def node_of_def)
    then have "pred_option (ban_zone_sound ngx) (Some (snd (feed_bump z sh)))"
      by (simp add: feed_bump_def ban_zone_sound_def Let_def)
    from feed_sweep_keeps [OF laws(1) feed_apply_keeps [OF laws this]] z Some show ?thesis
      by (auto simp: sentinel_feed_parse_def Let_def split: sum.split prod.split) (metis snd_conv fst_conv)
  qed
  then show ?thesis by (simp add: keeps_zone_def sentinel_feed_parse_def)
qed

subsection \<open>Sound main configurations\<close>

lemma main_sound_frame [simp]:
  "main_sound ngx L (m\<lparr>mcf_tarpit_conns := x\<rparr>) = main_sound ngx L m"
  "main_sound ngx L (m\<lparr>mcf_metrics := y\<rparr>) = main_sound ngx L m"
  by (simp_all add: main_sound_def zone_counts_def)

lemma main_sound_calls:
  assumes "main_sound ngx L m"
  shows "keeps_zone (event_zone_sound ngx) f \<Longrightarrow> main_sound ngx L (m\<lparr>mcf_zones := snd (call_zone f i (mcf_zones m))\<rparr>)"
    "keeps_zone (event_zone_sound ngx) f \<Longrightarrow> main_sound ngx L (m\<lparr>mcf_vel_zones := snd (call_zone f i (mcf_vel_zones m))\<rparr>)"
    "keeps_zone (ban_zone_sound ngx) g \<Longrightarrow> main_sound ngx L (m\<lparr>mcf_cs_zones := snd (call_zone g i (mcf_cs_zones m))\<rparr>)"
    "keeps_zone (ban_zone_sound ngx) g \<Longrightarrow> main_sound ngx L (m\<lparr>mcf_fcrdns_zones := snd (call_zone g i (mcf_fcrdns_zones m))\<rparr>)"
  using assms call_zone_keeps [of "event_zone_sound ngx" f] call_zone_keeps [of "ban_zone_sound ngx" g]
  by (simp_all add: main_sound_def zone_counts_def)

lemma sha_short: "digest_laws ngx \<Longrightarrow> length (sha256 ngx s) < 65536"
  by (simp add: digest_laws_def)

lemma errrate_signal_sound:
  assumes "zone_laws ngx" "digest_laws ngx" "main_sound ngx L m" "sentinel_errrate_signal ngx now r lcf (inp, m) = (inp', m')"
  shows "main_sound ngx L m'"
  using assms(4) main_sound_calls(1) [OF assms(3) event_ops_keep(1) [OF assms(1) sha_short [OF assms(2)]]] assms(3)
  by (auto simp: sentinel_errrate_signal_def Let_def split: option.splits if_splits prod.splits) (metis snd_conv)+

lemma velocity_signal_sound:
  assumes "zone_laws ngx" "digest_laws ngx" "main_sound ngx L m"
    "sentinel_velocity_signal ngx now (Some r) (Some lcf) (inp, m) = (inp', m')"
  shows "main_sound ngx L m'"
  using assms(4) main_sound_calls(2) [OF assms(3) event_ops_keep(1) [OF assms(1) sha_short [OF assms(2)]]] assms(3)
  by (auto simp: sentinel_velocity_signal_def Let_def split: option.splits if_splits prod.splits) (metis snd_conv)+

lemma crowdsec_signal_sound:
  assumes "zone_laws ngx" "digest_laws ngx" "main_sound ngx L m" "sentinel_crowdsec_signal ngx now r lcf (inp, m) = (inp', m')"
  shows "main_sound ngx L m'"
  using assms(4) main_sound_calls(3) [OF assms(3) ban_ops_keep(1) [OF assms(1)], of "sentinel_feed_digest ngx (r_addr_text r)"]
    assms(3) sha_short [OF assms(2)]
  by (auto simp: sentinel_crowdsec_signal_def sentinel_feed_digest_def Let_def split: option.splits if_splits prod.splits)
    (metis snd_conv)+

text \<open>A lookup that is under way carries a key of the length of a digest.\<close>

definition lookups_ok :: "sentinel_fcrdns_carrier list \<Rightarrow> bool" where
  "lookups_ok = list_all (\<lambda>c. length (fc_key c) < 65536)"

lemma resolve_start_key:
  assumes "sentinel_fcrdns_resolve_start env r lcf i key = Some c" "length key < 65536"
  shows "length (fc_key c) < 65536"
  using assms by (auto simp: sentinel_fcrdns_resolve_start_def split: option.splits if_splits)

lemma fcrdns_signal_sound:
  assumes "zone_laws ngx" "digest_laws ngx" "main_sound ngx L m" "sentinel_fcrdns_signal ngx env r lcf (inp, m) = ((inp', m'), l)"
  shows "main_sound ngx L m'" "\<forall>c. l = Some c \<longrightarrow> length (fc_key c) < 65536"
proof -
  show "main_sound ngx L m'"
    using assms(4) main_sound_calls(4) [OF assms(3) fcrdns_ops_keep(1) [OF assms(1) sha_short [OF assms(2)]]] assms(3)
    by (auto simp: sentinel_fcrdns_signal_def Let_def split: option.splits if_splits prod.splits) (metis snd_conv)+
  show "\<forall>c. l = Some c \<longrightarrow> length (fc_key c) < 65536"
    using assms(4) resolve_start_key sha_short [OF assms(2)]
    by (auto simp: sentinel_fcrdns_signal_def Let_def split: option.splits if_splits prod.splits)
qed

lemma gather_sound:
  assumes laws: "zone_laws ngx" "digest_laws ngx" and m: "main_sound ngx L m"
    and g: "gather_signals ngx env r lcf m = ((inp, m'), l)"
  shows "main_sound ngx L m'" "\<forall>c. l = Some c \<longrightarrow> length (fc_key c) < 65536"
proof -
  obtain i1 m1 where e: "sentinel_errrate_signal ngx (re_now env) r lcf (zero_inputs\<lparr>ja4h := sentinel_ja4h_compute ngx r\<rparr>, m) = (i1, m1)"
    by fastforce
  let ?i1 = "sentinel_allowlist_signal ngx (Some r) (Some lcf) (sentinel_honeypot_signal (Some r) (Some lcf)
    (sentinel_header_signal ngx (Some r) (sentinel_botua_signal r i1)))"
  obtain i2 m2 where v: "sentinel_velocity_signal ngx (re_now env) (Some r) (Some lcf) (?i1, m1) = (i2, m2)" by fastforce
  let ?i2 = "sentinel_coherence_signal (Some r) (sentinel_ja4t_signal ngx (Some r) (Some lcf)
    (sentinel_ja4_signal ngx (Some r) (Some lcf) (sentinel_ja3_signal ngx (Some r) (Some lcf)
    (sentinel_c2ip_signal ngx (Some r) (Some lcf) (sentinel_asn_signal ngx (Some r) (Some lcf) i2)))))"
  obtain i3 m3 l' where f: "sentinel_fcrdns_signal ngx ((re_dns env)\<lparr>de_now := re_now env\<rparr>) r lcf (?i2, m2) = ((i3, m3), l')"
    by (metis prod.exhaust)
  have c: "sentinel_crowdsec_signal ngx (re_now env) r lcf (i3, m3) = (inp, m')" "l = l'"
    using g by (simp_all add: gather_signals_def Let_def e v f)
  have m2: "main_sound ngx L m2" by (rule velocity_signal_sound [OF laws errrate_signal_sound [OF laws m e] v])
  show "main_sound ngx L m'" by (rule crowdsec_signal_sound [OF laws fcrdns_signal_sound(1) [OF laws m2 f] c(1)])
  show "\<forall>c. l = Some c \<longrightarrow> length (fc_key c) < 65536" using fcrdns_signal_sound(2) [OF laws m2 f] c(2) by simp
qed

lemma metric_inc_sound [simp]:
  "main_sound ngx L (sentinel_metric_inc x m) = main_sound ngx L m" "main_sound ngx L (inc_if b x m) = main_sound ngx L m"
  by (auto simp: inc_if_def sentinel_metric_inc_def split: option.split)

lemma metrics_sound [simp]: "main_sound ngx L (sentinel_metrics_record ctx shadow m) = main_sound ngx L m"
  by (simp add: sentinel_metrics_record_def Let_def)

lemma softban_sound:
  assumes "zone_laws ngx" "digest_laws ngx" "main_sound ngx L m"
  shows "main_sound ngx L (block_softban ngx now r lcf m)"
  using main_sound_calls(1) [OF assms(3) event_ops_keep(3) [OF assms(1) sha_short [OF assms(2)]]] assms(3)
  by (simp add: block_softban_def split: option.split)

lemma log_sound:
  assumes "zone_laws ngx" "digest_laws ngx" "main_sound ngx L m"
  shows "main_sound ngx L (snd (ngx_sentinel_log_handler ngx now r lcf m))"
proof -
  note keep = event_ops_keep(2) [OF assms(1) sha_short [OF assms(2)]]
  have v: "main_sound ngx L (m\<lparr>mcf_vel_zones := record_in ngx now (sha256 ngx (r_addr_text r)) i (mcf_vel_zones m)\<rparr>)" for i
    using main_sound_calls(2) [OF assms(3) keep] by (simp add: record_in_def)
  show ?thesis
    using assms(3) v main_sound_calls(1) [OF assms(3) keep] main_sound_calls(1) [OF v keep]
    by (auto simp: ngx_sentinel_log_handler_def record_in_def Let_def split: option.split)
qed

lemma feed_tick_sound:
  assumes "zone_laws ngx" "digest_laws ngx" "main_sound ngx L m" "sentinel_feed_timer_handler ngx io exiting now t m = (t', m', d)"
  shows "main_sound ngx L m'"
proof -
  have "main_sound ngx L (snd (sentinel_feed_do_load ngx io now t m))"
    using assms(3) main_sound_calls(3) [OF assms(3) feed_parse_keeps [OF assms(1,2)]]
    by (auto simp: sentinel_feed_do_load_def Let_def split: option.split prod.split) (metis snd_conv)+
  then show ?thesis using assms(4) by (auto simp: sentinel_feed_timer_handler_def split: prod.splits)
qed

lemma fcrdns_finish_sound:
  assumes "zone_laws ngx" "main_sound ngx L m" "length (fc_key c) < 65536"
  shows "main_sound ngx L (m\<lparr>mcf_fcrdns_zones := sentinel_fcrdns_finish ngx c v now (mcf_fcrdns_zones m)\<rparr>)"
  using main_sound_calls(4) [OF assms(2) fcrdns_ops_keep(2) [OF assms(1,3)]] assms(2)
  by (simp add: sentinel_fcrdns_finish_def)

lemma get_reply_sound:
  assumes "zone_laws ngx" "digest_laws ngx" "main_sound ngx L m"
  shows "main_sound ngx L (sentinel_redis_get_reply ngx env ip reply ctx m)"
  using assms(3) main_sound_calls(3) [OF assms(3) pulled_keeps [OF assms(1) sha_short [OF assms(2)]]]
  by (auto simp: sentinel_redis_get_reply_def Let_def split: option.split redis_reply.split)

subsection \<open>Sound rings and sinks\<close>

definition rings_sound :: "(string \<Rightarrow> ngx_sentinel_ring option) \<Rightarrow> bool" where
  "rings_sound rings \<longleftrightarrow> (\<forall>nm r. rings nm = Some r \<longrightarrow> ring_inv NGX_SENTINEL_REDIS_PUSH_RING r)"

lemma same_capacity: "NGX_SENTINEL_CSSINK_RING = NGX_SENTINEL_REDIS_PUSH_RING"
  by (simp add: NGX_SENTINEL_CSSINK_RING_def NGX_SENTINEL_REDIS_PUSH_RING_def)

lemma rings_sound_upd: "rings_sound rings \<Longrightarrow> ring_inv NGX_SENTINEL_REDIS_PUSH_RING r \<Longrightarrow> rings_sound (rings(nm \<mapsto> r))"
  by (simp add: rings_sound_def)

lemma redis_enqueue_sound:
  assumes "rings_sound rings"
  shows "rings_sound (sentinel_redis_enqueue_ban strlen ctx lcf ip act e rings)"
  using assms push_ring.put_invar
  by (auto simp: sentinel_redis_enqueue_ban_def rings_sound_def split: option.split)

lemma sink_enqueue_sound:
  assumes "rings_sound rings"
  shows "rings_sound (sentinel_cssink_enqueue_ban strlen ctx lcf ip act e rings)"
  using assms sink_ring.put_invar
  by (auto simp: sentinel_cssink_enqueue_ban_def rings_sound_def same_capacity split: option.split)

lemma flush_loop_inv:
  "ring_inv NGX_SENTINEL_REDIS_PUSH_RING push \<Longrightarrow> ring_inv NGX_SENTINEL_REDIS_PUSH_RING (fst (flush_loop ngx env pfx drained push sent))"
proof (induction ngx env pfx drained push sent rule: flush_loop.induct)
  case (1 ngx env pfx drained push sent)
  show ?case
  proof (cases "redis_take push")
    case None
    then show ?thesis using "1.prems" by (simp add: flush_loop.simps [of ngx])
  next
    case (Some x)
    obtain e p where x: "x = (e, p)" by (cases x)
    have p: "ring_inv NGX_SENTINEL_REDIS_PUSH_RING p" using push_ring.take_some [OF "1.prems" Some [unfolded x]] by simp
    show ?thesis
      using "1.IH" [OF Some [unfolded x] refl] p by (subst flush_loop.simps) (auto simp: Some x Let_def)
  qed
qed

lemma flush_sound:
  assumes "rings_sound rings"
  shows "rings_sound (fst (sentinel_redis_flush_push ngx env rc rings sent))"
proof -
  have "ring_inv NGX_SENTINEL_REDIS_PUSH_RING p'"
    if "rings nm = Some p" "flush_loop ngx env pfx 0 p sent = (p', sent')" for nm p pfx p' sent'
    using flush_loop_inv [of p ngx env pfx 0 sent] that assms by (auto simp: rings_sound_def)
  then show ?thesis
    using assms rings_sound_upd by (auto simp: sentinel_redis_flush_push_def split: option.split prod.split)
qed

lemma redis_timer_sound:
  assumes "rings_sound rings" "sentinel_redis_timer_handler ngx env rc rings sent = (rc', rings', sent')"
  shows "rings_sound rings'"
  using assms(2) assms(1) flush_sound [OF assms(1), of ngx env rc sent]
  by (auto simp: sentinel_redis_timer_handler_def Let_def split: sentinel_redis_state.splits if_splits prod.splits)

lemma set_upsert_inv:
  assumes "sink_inv sc" "e \<noteq> 0"
  shows "sink_inv (sentinel_cssink_set_upsert ip e sc)"
proof (cases "ip \<in> dom (sink_map sc) \<or> length (live_slots (sc_set sc)) < length (sc_set sc)")
  case True
  then show ?thesis using upsert_map [OF assms] by blast
next
  case False
  have "set_scan ip 0 None (sc_set sc) = Inr None"
  proof (cases "set_scan ip 0 None (sc_set sc)")
    case (Inl k)
    from set_scan_Inl [OF this] have "ip \<in> dom (sink_map sc)" by (auto simp: sink_map_def dom_map_of_conv_image_fst)
    then show ?thesis using False by simp
  next
    case (Inr f)
    have "live_slots xs = filter (\<lambda>d. cd_expiry d \<noteq> 0) xs" for xs by (simp add: live_slots_def)
    then have "length (live_slots (sc_set sc)) < length (sc_set sc)" if "f = Some k" for k
      using set_scan_Inr [OF Inr] that length_filter_le [of "\<lambda>d. cd_expiry d \<noteq> 0"]
      by (auto simp: less_Suc_eq_le add_mono)
    then show ?thesis using Inr False by (cases f) auto
  qed
  then show ?thesis using assms(1) by (simp add: sentinel_cssink_set_upsert_def)
qed

lemma drain_sound:
  assumes "0 \<le> now"
  shows "ring_inv NGX_SENTINEL_CSSINK_RING ring \<Longrightarrow> sink_inv sc \<Longrightarrow> drain_loop strlen now drained ring sc = (ring', sc') \<Longrightarrow>
    ring_inv NGX_SENTINEL_CSSINK_RING ring' \<and> sink_inv sc'"
  using assms
proof (induction strlen now drained ring sc rule: drain_loop.induct)
  case (1 strlen now drained ring sc)
  show ?case
  proof (cases "cssink_take ring")
    case None
    then show ?thesis using "1.prems" by (subst (asm) drain_loop.simps) simp
  next
    case (Some x)
    obtain e r where x: "x = (e, r)" by (cases x)
    let ?s = "if length (push_ip e) > 0 \<and> length (push_ip e) < strlen \<and> push_expiry e > now
      then sentinel_cssink_set_upsert (push_ip e) (push_expiry e) sc else sc"
    have r: "ring_inv NGX_SENTINEL_CSSINK_RING r" using sink_ring.take_some [OF "1.prems"(1) Some [unfolded x]] by simp
    have s: "sink_inv ?s" using "1.prems"(2,4) set_upsert_inv by simp
    have "(ring' = r \<and> sc' = ?s) \<or> \<not> drained + 1 \<ge> NGX_SENTINEL_CSSINK_RING \<and> drain_loop strlen now (drained + 1) r ?s = (ring', sc')"
      using "1.prems"(3) by (subst (asm) drain_loop.simps) (auto simp: Some x Let_def split: if_splits)
    then show ?thesis using "1.IH" [OF Some [unfolded x] refl refl _ r s _ "1.prems"(4)] r s by auto
  qed
qed

lemma sink_tick_sound:
  assumes now: "0 \<le> now" and rings: "rings_sound rings" and sc: "sink_inv sc"
    and tick: "sentinel_cssink_timer_handler ngx io strlen exiting now sc rings fs = (sc', rings', fs')"
  shows "rings_sound rings' \<and> sink_inv sc'"
proof (cases "exiting \<or> \<not> sc_owner sc \<or> rings (sc_ring sc) = None")
  case True
  then show ?thesis using tick rings sc expire_map(1) [OF sc now]
    by (auto simp: sentinel_cssink_timer_handler_def Let_def split: if_splits)
next
  case False
  then obtain ring where r: "rings (sc_ring sc) = Some ring" by auto
  obtain ring1 sc1 where d: "drain_loop strlen now 0 ring sc = (ring1, sc1)" by fastforce
  have "ring_inv NGX_SENTINEL_CSSINK_RING ring" using rings r by (simp add: rings_sound_def same_capacity)
  from drain_sound [OF now this sc d] have s: "ring_inv NGX_SENTINEL_REDIS_PUSH_RING ring1" "sink_inv sc1"
    by (simp_all add: same_capacity)
  show ?thesis using tick False r d s rings_sound_upd [OF rings s(1)] expire_map(1) [OF s(2) now]
    by (auto simp: sentinel_cssink_timer_handler_def Let_def)
qed

subsection \<open>One worker\<close>

definition worker_ok :: "ngx_api \<Rightarrow> nat list \<Rightarrow> worker \<Rightarrow> bool" where
  "worker_ok ngx L w \<longleftrightarrow>
     main_sound ngx L (wk_mcf w) \<and> rings_sound (wk_rings w) \<and> pred_option redis_ok (wk_redis w) \<and>
     pred_option sink_inv (wk_sink w) \<and> lookups_ok (wk_lookups w)"

lemma get_ctx_ok:
  assumes laws: "zone_laws ngx" "digest_laws ngx" and w: "worker_ok ngx L w"
    and g: "ngx_sentinel_get_ctx ngx env r lcf (w, q) = (c, w', q')"
  shows "worker_ok ngx L w'"
proof (cases "w' = w")
  case False
  obtain inp m l where s: "gather_signals ngx env r lcf (wk_mcf w) = ((inp, m), l)" by (metis prod.exhaust)
  have m: "main_sound ngx L m" "\<forall>c. l = Some c \<longrightarrow> length (fc_key c) < 65536"
    using gather_sound [OF laws _ s] w by (auto simp: worker_ok_def)
  have "w' = w\<lparr>wk_mcf := m, wk_lookups := (case l of None \<Rightarrow> wk_lookups w | Some c \<Rightarrow> c # wk_lookups w)\<rparr>"
    using g False s by (auto simp: ngx_sentinel_get_ctx_def Let_def split: module_ctx.splits if_splits)
  then show ?thesis using w m by (auto simp: worker_ok_def lookups_ok_def split: option.split)
qed (use w in simp)

lemma export_ok:
  assumes "worker_ok ngx L w"
  shows "worker_ok ngx L (block_export now strlen r lcf ctx w)"
  using assms redis_enqueue_sound sink_enqueue_sound by (simp add: worker_ok_def block_export_def Let_def)

lemma preaccess_ok:
  assumes laws: "zone_laws ngx" "digest_laws ngx" and w: "worker_ok ngx L w"
    and p: "ngx_sentinel_preaccess_handler ngx env r lcf (w, q) = (rc, w', q')"
  shows "worker_ok ngx L w'"
proof -
  obtain c w1 q1 where g: "ngx_sentinel_get_ctx ngx env r lcf (w, q) = (c, w1, q1)" by (metis prod.exhaust)
  note w1 = get_ctx_ok [OF laws w g]
  let ?w2 = "\<lambda>ctx. w1\<lparr>wk_mcf := sentinel_metrics_record ctx (lcf_shadow lcf) (wk_mcf w1)\<rparr>"
  have w2: "worker_ok ngx L (?w2 ctx)" for ctx using w1 by (simp add: worker_ok_def)
  have ch: "worker_ok ngx L w3" if "enforce_challenge ngx env r lcf ctx (?w2 ctx, q1) = (rc, w3, q3)" for ctx rc w3 q3
    using that w2 by (auto simp: enforce_challenge_def Let_def split: prod.splits if_splits)
  have tp: "worker_ok ngx L w3" if "enforce_tarpit env lcf ctx (?w2 ctx, q1) = (rc, w3, q3)" for ctx rc w3 q3
    using that w1 by (auto simp: enforce_tarpit_def worker_ok_def Let_def split: prod.splits if_splits)
  have bl: "worker_ok ngx L w3" if "enforce_block ngx env r lcf ctx (?w2 ctx, q1) = (rc, w3, q3)" for ctx rc w3 q3
    using that w1 softban_sound [OF laws] by (auto simp: enforce_block_def Let_def intro!: export_ok) (simp add: worker_ok_def)
  show ?thesis
    using p g w w1 w2 ch tp bl
    by (auto simp: ngx_sentinel_preaccess_handler_def Let_def split: if_splits option.splits ngx_sentinel_verdict.splits)
qed

lemma variables_get_ctx:
  "list_all (\<lambda>v. \<forall>ngx env r lcf alloc st. \<exists>c. ngx_sentinel_get_ctx ngx env r lcf st = (c, snd (var_get v ngx env r lcf alloc st)))
     ngx_sentinel_vars"
proof -
  have "\<exists>c. ngx_sentinel_get_ctx ngx env r lcf st = (c, snd (with_ctx ngx env r lcf f st))" for ngx env r lcf f st
    by (auto simp: with_ctx_def split: prod.split option.split)
  then show ?thesis
    by (simp add: ngx_sentinel_vars_def ngx_sentinel_var_score_def ngx_sentinel_var_verdict_def ngx_sentinel_var_ja4h_def
        ngx_sentinel_var_header_def ngx_sentinel_var_honeypot_def ngx_sentinel_var_velocity_def ngx_sentinel_var_asn_def
        ngx_sentinel_var_c2ip_def ngx_sentinel_var_ja3_def ngx_sentinel_var_ja4_def ngx_sentinel_var_ja4t_def
        ngx_sentinel_var_coherence_def ngx_sentinel_var_fcrdns_def ngx_sentinel_var_allowlist_def ngx_sentinel_var_bot_def
        ngx_sentinel_var_shield_def ngx_sentinel_var_throttled_def ngx_sentinel_var_pow_def ngx_sentinel_var_scanner_def
        ngx_sentinel_var_errrate_def ngx_sentinel_var_crowdsec_def ngx_sentinel_var_crowdsec_action_def)
qed

lemma variable_ok:
  assumes laws: "zone_laws ngx" "digest_laws ngx" and w: "worker_ok ngx L w" and v: "v \<in> set ngx_sentinel_vars"
    and g: "var_get v ngx env r lcf alloc (w, q) = (val, w', q')"
  shows "worker_ok ngx L w'"
proof -
  obtain c where "ngx_sentinel_get_ctx ngx env r lcf (w, q) = (c, snd (var_get v ngx env r lcf alloc (w, q)))"
    using variables_get_ctx v unfolding list_all_iff by blast
  then show ?thesis using get_ctx_ok [OF laws w] g by simp
qed

lemma init_process_ok:
  assumes "worker_ok ngx L w" "ngx_sentinel_init_process servers n a b c w = (rc, w', timers)"
  shows "worker_ok ngx L w'"
  using assms init_ok init_sink_inv
  by (auto simp: ngx_sentinel_init_process_def worker_ok_def Let_def option.pred_set)

lemma redis_step_sound:
  assumes laws: "zone_laws ngx" "digest_laws ngx" and step: "redis_step ngx w w'"
    and "main_sound ngx L (rw_mcf w)" "rings_sound (rw_rings w)"
  shows "main_sound ngx L (rw_mcf w') \<and> rings_sound (rw_rings w')"
  using step
proof (cases rule: redis_step.cases)
  case (timer rc env rc' rings sent)
  then show ?thesis using assms(4) redis_timer_sound [OF assms(5)] by auto
qed (use assms(4,5) get_reply_sound [OF laws assms(4)] redis_enqueue_sound [OF assms(5)] in auto)

subsection \<open>All workers\<close>

record system =
  sys_mcf :: main_conf
  sys_rings :: "string \<Rightarrow> ngx_sentinel_ring option"
  sys_redis :: "nat \<Rightarrow> sentinel_redis_ctx option"
  sys_sink :: "nat \<Rightarrow> sentinel_cssink_ctx option"
  sys_lookups :: "nat \<Rightarrow> sentinel_fcrdns_carrier list"
  sys_sent :: "redis_cmd list"
  sys_files :: files

definition worker_at :: "nat \<Rightarrow> system \<Rightarrow> worker" where
  "worker_at n s = \<lparr>wk_mcf = sys_mcf s, wk_rings = sys_rings s, wk_redis = sys_redis s n, wk_sink = sys_sink s n,
     wk_lookups = sys_lookups s n\<rparr>"

definition put_worker :: "nat \<Rightarrow> worker \<Rightarrow> system \<Rightarrow> system" where
  "put_worker n w s =
     s\<lparr>sys_mcf := wk_mcf w, sys_rings := wk_rings w, sys_redis := (sys_redis s)(n := wk_redis w),
       sys_sink := (sys_sink s)(n := wk_sink w), sys_lookups := (sys_lookups s)(n := wk_lookups w)\<rparr>"

definition redis_at :: "nat \<Rightarrow> system \<Rightarrow> redis_world" where
  "redis_at n s = \<lparr>rw_ctx = sys_redis s n, rw_mcf = sys_mcf s, rw_rings = sys_rings s, rw_sent = sys_sent s\<rparr>"

definition put_redis :: "nat \<Rightarrow> redis_world \<Rightarrow> system \<Rightarrow> system" where
  "put_redis n w s = s\<lparr>sys_redis := (sys_redis s)(n := rw_ctx w), sys_mcf := rw_mcf w, sys_rings := rw_rings w,
     sys_sent := rw_sent w\<rparr>"

text \<open>One event of worker \<open>n\<close>. Requests are served by one of the merged locations \<open>ms\<close>; the clock is
  not negative.\<close>

inductive system_step :: "ngx_api \<Rightarrow> loc_conf list \<Rightarrow> system \<Rightarrow> system \<Rightarrow> bool" for ngx ms where
  start: "ngx_sentinel_init_process servers n a b c (worker_at n s) = (rc, w, timers) \<Longrightarrow>
     system_step ngx ms s (put_worker n w s)"
| request: "lcf \<in> set ms \<Longrightarrow> ngx_sentinel_preaccess_handler ngx env r lcf (worker_at n s, q) = (rc, w, q') \<Longrightarrow>
     system_step ngx ms s (put_worker n w s)"
| variable: "lcf \<in> set ms \<Longrightarrow> v \<in> set ngx_sentinel_vars \<Longrightarrow>
     var_get v ngx env r lcf alloc (worker_at n s, q) = (val, w, q') \<Longrightarrow> system_step ngx ms s (put_worker n w s)"
| log: "lcf \<in> set ms \<Longrightarrow> ngx_sentinel_log_handler ngx now r lcf (sys_mcf s) = (rc, m) \<Longrightarrow>
     system_step ngx ms s (s\<lparr>sys_mcf := m\<rparr>)"
| feed: "sentinel_feed_timer_handler ngx io exiting now t (sys_mcf s) = (t', m, d) \<Longrightarrow>
     system_step ngx ms s (s\<lparr>sys_mcf := m\<rparr>)"
| redis: "redis_step ngx (redis_at n s) w \<Longrightarrow> system_step ngx ms s (put_redis n w s)"
| sink: "sys_sink s n = Some sc \<Longrightarrow> 0 \<le> now \<Longrightarrow>
     sentinel_cssink_timer_handler ngx io strlen exiting now sc (sys_rings s) (sys_files s) = (sc', rings, fs) \<Longrightarrow>
     system_step ngx ms s (s\<lparr>sys_sink := (sys_sink s)(n := Some sc'), sys_rings := rings, sys_files := fs\<rparr>)"
| ptr: "sys_lookups s n = l1 @ c # l2 \<Longrightarrow>
     sentinel_fcrdns_ptr_handler ngx env name c (mcf_fcrdns_zones (sys_mcf s)) = (c', zs) \<Longrightarrow>
     system_step ngx ms s (s\<lparr>sys_mcf := (sys_mcf s)\<lparr>mcf_fcrdns_zones := zs\<rparr>,
       sys_lookups := (sys_lookups s)(n := l1 @ (case c' of None \<Rightarrow> [] | Some d \<Rightarrow> [d]) @ l2)\<rparr>)"
| fwd: "sys_lookups s n = l1 @ c # l2 \<Longrightarrow>
     system_step ngx ms s (s\<lparr>sys_mcf := (sys_mcf s)\<lparr>mcf_fcrdns_zones :=
         sentinel_fcrdns_fwd_handler ngx env addrs c (mcf_fcrdns_zones (sys_mcf s))\<rparr>,
       sys_lookups := (sys_lookups s)(n := l1 @ l2)\<rparr>)"
| tarpit_end: "mcf_tarpit_conns (sys_mcf s) = Some conns \<Longrightarrow> sentinel_tarpit_cleanup cn conns = (cn', conns') \<Longrightarrow>
     system_step ngx ms s (s\<lparr>sys_mcf := (sys_mcf s)\<lparr>mcf_tarpit_conns := Some conns'\<rparr>\<rparr>)"

definition system_ok :: "ngx_api \<Rightarrow> nat list \<Rightarrow> loc_conf list \<Rightarrow> system \<Rightarrow> bool" where
  "system_ok ngx L ms s \<longleftrightarrow>
     main_sound ngx L (sys_mcf s) \<and> rings_sound (sys_rings s) \<and>
     (\<forall>n. pred_option redis_ok (sys_redis s n)) \<and> (\<forall>n. pred_option sink_inv (sys_sink s n)) \<and>
     (\<forall>n. lookups_ok (sys_lookups s n)) \<and> (\<forall>c \<in> set ms. served_ok ngx (sys_mcf s) c)"

lemma served_ok_counts:
  assumes "zone_counts m' = zone_counts m"
  shows "served_ok ngx m' c = served_ok ngx m c"
  using assms by (simp add: served_ok_def ptrs_ok_def zone_counts_def)

lemma served_sound:
  assumes "main_sound ngx L m" "main_sound ngx L m'"
  shows "served_ok ngx m' c = served_ok ngx m c"
  using assms by (intro served_ok_counts) (simp add: main_sound_def)

lemma system_okD:
  assumes "system_ok ngx L ms s"
  shows "main_sound ngx L (sys_mcf s)" "rings_sound (sys_rings s)" "pred_option redis_ok (sys_redis s n)"
    "pred_option sink_inv (sys_sink s n)" "lookups_ok (sys_lookups s n)" "c \<in> set ms \<Longrightarrow> served_ok ngx (sys_mcf s) c"
    "worker_ok ngx L (worker_at n s)"
  using assms by (simp_all add: system_ok_def worker_ok_def worker_at_def)

lemma system_okI:
  assumes ok: "system_ok ngx L ms s" and m: "main_sound ngx L (sys_mcf s')" and rs: "rings_sound (sys_rings s')"
    and rd: "\<And>k. sys_redis s' k = sys_redis s k \<or> pred_option redis_ok (sys_redis s' k)"
    and sk: "\<And>k. sys_sink s' k = sys_sink s k \<or> pred_option sink_inv (sys_sink s' k)"
    and lk: "\<And>k. sys_lookups s' k = sys_lookups s k \<or> lookups_ok (sys_lookups s' k)"
  shows "system_ok ngx L ms s'"
proof -
  have "pred_option redis_ok (sys_redis s' k)" for k using rd [of k] system_okD(3) [OF ok] by metis
  moreover have "pred_option sink_inv (sys_sink s' k)" for k using sk [of k] system_okD(4) [OF ok] by metis
  moreover have "lookups_ok (sys_lookups s' k)" for k using lk [of k] system_okD(5) [OF ok] by metis
  moreover have "served_ok ngx (sys_mcf s') c" if "c \<in> set ms" for c
    using served_sound [OF system_okD(1) [OF ok] m] system_okD(6) [OF ok that] by simp
  ultimately show ?thesis using m rs by (simp add: system_ok_def)
qed

lemma put_worker_ok:
  assumes "system_ok ngx L ms s" "worker_ok ngx L w"
  shows "system_ok ngx L ms (put_worker n w s)"
  using assms(1) by (rule system_okI) (use assms(2) in \<open>simp_all add: worker_ok_def put_worker_def\<close>)

lemma main_step_ok:
  assumes "system_ok ngx L ms s" "main_sound ngx L m"
  shows "system_ok ngx L ms (s\<lparr>sys_mcf := m\<rparr>)"
  using assms(1) by (rule system_okI) (use assms(2) system_okD(2) [OF assms(1)] in simp_all)

lemma redis_step_pred:
  assumes "redis_step ngx w w'" "pred_option redis_ok (rw_ctx w)"
  shows "pred_option redis_ok (rw_ctx w')"
proof -
  have "\<forall>rc. rw_ctx w = Some rc \<longrightarrow> redis_ok rc" using assms(2) by (cases "rw_ctx w") simp_all
  from redis_step_ok [OF assms(1) this] show ?thesis by (cases "rw_ctx w'") simp_all
qed

lemma system_step_ok:
  assumes laws: "zone_laws ngx" "digest_laws ngx" and step: "system_step ngx ms s s'" and ok: "system_ok ngx L ms s"
  shows "system_ok ngx L ms s'"
proof -
  note w = system_okD(7) [OF ok] and m = system_okD(1) [OF ok] and rs = system_okD(2) [OF ok]
    and lk = system_okD(5) [OF ok]
  from step show ?thesis
  proof (cases rule: system_step.cases)
    case (start servers n a b c rc w timers)
    then show ?thesis using put_worker_ok [OF ok init_process_ok [OF w]] by blast
  next
    case (request lcf env r n q rc w q')
    then show ?thesis using put_worker_ok [OF ok preaccess_ok [OF laws w]] by blast
  next
    case (variable lcf v env r alloc n q val w q')
    then show ?thesis using put_worker_ok [OF ok variable_ok [OF laws w]] by blast
  next
    case (log lcf now r rc m')
    then show ?thesis using main_step_ok [OF ok] log_sound [OF laws m, of now r lcf] by simp
  next
    case (feed io exiting now t t' m' d)
    then show ?thesis using main_step_ok [OF ok] feed_tick_sound [OF laws m] by blast
  next
    case (redis n w')
    have "main_sound ngx L (rw_mcf w') \<and> rings_sound (rw_rings w')"
      using redis_step_sound [OF laws redis(2)] m rs by (simp add: redis_at_def)
    moreover have "pred_option redis_ok (rw_ctx w')"
      using redis_step_pred [OF redis(2)] system_okD(3) [OF ok, of n] by (simp add: redis_at_def)
    ultimately show ?thesis unfolding redis(1) by (intro system_okI [OF ok]) (simp_all add: put_redis_def)
  next
    case (sink n sc now io strlen exiting sc' rings fs)
    have "sink_inv sc" using system_okD(4) [OF ok, of n] sink(2) by simp
    from sink_tick_sound [OF sink(3) rs this sink(4)] show ?thesis
      unfolding sink(1) using m by (intro system_okI [OF ok]) simp_all
  next
    case (ptr n l1 c l2 env name c' zs)
    have k: "length (fc_key c) < 65536" using lk [of n] ptr(2) by (simp add: lookups_ok_def)
    have z: "main_sound ngx L ((sys_mcf s)\<lparr>mcf_fcrdns_zones := zs\<rparr>)"
      using ptr(3) m fcrdns_finish_sound [OF laws(1) m k]
      by (auto simp: sentinel_fcrdns_ptr_handler_def Let_def split: option.splits if_splits)
    have "\<forall>d. c' = Some d \<longrightarrow> fc_key d = fc_key c"
      using ptr(3) by (auto simp: sentinel_fcrdns_ptr_handler_def Let_def split: option.splits if_splits)
    then have "lookups_ok (l1 @ (case c' of None \<Rightarrow> [] | Some d \<Rightarrow> [d]) @ l2)"
      using lk [of n] ptr(2) k by (auto simp: lookups_ok_def split: option.split)
    then show ?thesis unfolding ptr(1) using z rs by (intro system_okI [OF ok]) simp_all
  next
    case (fwd n l1 c l2 env addrs)
    have k: "length (fc_key c) < 65536" using lk [of n] fwd(2) by (simp add: lookups_ok_def)
    have "main_sound ngx L ((sys_mcf s)\<lparr>mcf_fcrdns_zones := sentinel_fcrdns_fwd_handler ngx env addrs c (mcf_fcrdns_zones (sys_mcf s))\<rparr>)"
      using fcrdns_finish_sound [OF laws(1) m k] by (simp add: sentinel_fcrdns_fwd_handler_def split: option.split)
    moreover have "lookups_ok (l1 @ l2)" using lk [of n] fwd(2) by (simp add: lookups_ok_def)
    ultimately show ?thesis unfolding fwd(1) using rs by (intro system_okI [OF ok]) simp_all
  next
    case (tarpit_end conns cn cn' conns')
    then show ?thesis using main_step_ok [OF ok] m by simp
  qed
qed

text \<open>The start: nginx maps the declared zones and rings, no worker runs yet.\<close>

definition map_zone :: "ngx_sentinel_zone \<Rightarrow> ngx_sentinel_zone" where
  "map_zone z = snd (sentinel_shm_init_zone None None False True True z)"

definition map_zones :: "main_conf \<Rightarrow> main_conf" where
  "map_zones m = m\<lparr>mcf_zones := map map_zone (mcf_zones m), mcf_vel_zones := map map_zone (mcf_vel_zones m),
     mcf_cs_zones := map map_zone (mcf_cs_zones m), mcf_fcrdns_zones := map map_zone (mcf_fcrdns_zones m)\<rparr>"

definition system_start :: "main_conf \<Rightarrow> string set \<Rightarrow> files \<Rightarrow> system" where
  "system_start m names fs =
     \<lparr>sys_mcf = map_zones m,
      sys_rings = (\<lambda>nm. if nm \<in> names then snd (sentinel_redis_init_zone None False None True) else None),
      sys_redis = (\<lambda>_. None), sys_sink = (\<lambda>_. None), sys_lookups = (\<lambda>_. []), sys_sent = [], sys_files = fs\<rparr>"

lemma map_zones_sound:
  assumes "main_conf_ok m"
  shows "main_sound ngx (zone_counts m) (map_zones m)"
proof -
  have "event_zone_ok z \<Longrightarrow> event_zone_sound ngx (map_zone z)" "ban_zone_sound ngx (map_zone z)" for z
    by (simp_all add: map_zone_def sentinel_shm_init_zone_def event_zone_sound_def ban_zone_sound_def event_zone_ok_def
        rings_ok_def)
  then show ?thesis using assms
    by (auto simp: main_sound_def map_zones_def main_conf_ok_def zone_counts_def list_all_iff)
qed

lemma system_start_ok:
  assumes "main_conf_ok m" "\<forall>c \<in> set ms. served_ok ngx m c"
  shows "system_ok ngx (zone_counts m) ms (system_start m names fs)"
proof -
  have "zone_counts (map_zones m) = zone_counts m" by (simp add: zone_counts_def map_zones_def)
  then have "served_ok ngx (map_zones m) c = served_ok ngx m c" for c by (rule served_ok_counts)
  then show ?thesis
    using assms map_zones_sound [OF assms(1)]
    by (auto simp: system_ok_def system_start_def rings_sound_def lookups_ok_def
        sentinel_redis_init_zone_def)
qed

text \<open>
  Claim C2: everything the module keeps in memory stays sound, whatever happens. From any
  configuration nginx accepts, through any interleaving of the workers' requests, variables, log
  phases, feed loads, Redis and sink timers, DNS answers, tarpit ends and worker starts: every
  zone is a well-formed tree with its LRU queue, every event ring fits its node, the rings of the
  exporters are within capacity, every Redis client and sink meets its invariant, and the zone
  pointers of every served location stay valid.
\<close>

theorem reachable_system_is_sound:
  assumes "conf_serves ngx sl cs ms m" and "slot_laws sl" and "zone_laws ngx" and "digest_laws ngx"
    and "(system_step ngx ms)\<^sup>*\<^sup>* (system_start m names fs) s"
  shows "system_ok ngx (zone_counts m) ms s"
  using assms(5)
proof (induction rule: rtranclp_induct)
  case base
  then show ?case using system_start_ok conf_serves_ok [OF assms(1,2)] main_conf_reachable_ok by blast
next
  case (step s s')
  then show ?case using system_step_ok [OF assms(3,4)] by blast
qed

lemma sample_serves:
  "conf_serves ngx_shim slot_shim sample_set [default_loc_conf\<lparr>lcf_block_status := 451\<rparr>] ngx_sentinel_create_main_conf"
  using conf_serves.server [OF conf_serves.read [OF sample_conf_read], of 1] sample_merge
  by (simp add: sample_set_def sample_read_def set_loc_def new_block_def)

theorem reachable_system_is_sound_witness:
  "system_ok ngx_shim [0, 0, 0, 0] [default_loc_conf\<lparr>lcf_block_status := 451\<rparr>]
     (system_start ngx_sentinel_create_main_conf {''r''} Map.empty)"
  using reachable_system_is_sound [OF sample_serves slot_shim_laws ngx_shim_laws ngx_shim_digest rtranclp.rtrancl_refl]
  by (simp add: zone_counts_def ngx_sentinel_create_main_conf_def)

subsection \<open>A reload that raises the threshold\<close>

text \<open>
  A reload keeps the nodes of a zone but takes the threshold of the new configuration. The ring of a
  node was allocated for the old one: here it has two slots, the threshold is raised to 100 after
  the first event, and the third event is written to slot 2, past the end of the node.
\<close>

lemma reload_keeps_nodes_not_threshold:
  "sentinel_shm_init_zone (Some old) pool_data shm_exists alloc_sh alloc_log z = (NGX_OK, z\<lparr>zone_sh := zone_sh old\<rparr>)"
  by (simp add: sentinel_shm_init_zone_def)

lemma raised_threshold_overruns_the_ring:
  "let n = record_event 10 3600 100 101 (record_event 10 3600 2 100 (new_node 0 ''k'' 100 2));
       p = sentinel_shm_prune 10 100 102 n
   in (event_head p + event_count p) mod 100 = 2 \<and> length (node_events p) = 2"
  by (simp add: Let_def record_event_def sentinel_shm_prune_def new_node_def numeral_2_eq_2)

subsection \<open>A ban travels to a peer\<close>

text \<open>The export half: the block is in the ring, and the flush that follows publishes it.\<close>

lemma block_publishes:
  assumes "enforcing lcf" "lcf_redis_host lcf \<noteq> []"
    and ctx: "ngx_sentinel_get_ctx ngx env r lcf (w, q) = (Some ctx, w0, q0)" "ctx_verdict ctx = VERDICT_BLOCK"
      "\<not> crowdsec_hit (ctx_inputs ctx)"
    and addr: "r_addr_text r \<noteq> []" "length (r_addr_text r) < re_strlen env"
    and redis: "wk_redis w = Some rd" "rd_push rd = Some nm" "lcf_redis_push_zone lcf = Some nm" "wk_rings w nm = Some push"
    and sink: "lcf_cs_sink_zone lcf \<noteq> Some nm"
    and res: "ngx_sentinel_preaccess_handler ngx env r lcf (w, q) = (rc, w', q')"
    and room: "ring_inv NGX_SENTINEL_REDIS_PUSH_RING push" "length (push_entries push) < NGX_SENTINEL_REDIS_PUSH_RING"
    and up: "rd_ac rd" "rd_state rd = REDIS_UP" "\<forall>c. ev_accept fe c"
    and "ev_strlen fe = re_strlen env" "ev_now fe < re_now env + lcf_redis_ttl lcf"
  shows "\<exists>ttl. SET (redis_key fe (str_of (lcf_redis_prefix (rd_lcf rd))) (r_addr_text r))
      (redis_value ngx CS_BAN (re_now env + lcf_redis_ttl lcf)) ttl \<in>
    set (snd (sentinel_redis_flush_push ngx fe rd (wk_rings w') sent))"
proof -
  let ?e = "\<lparr>push_ip = r_addr_text r, push_action = CS_BAN, push_expiry = re_now env + lcf_redis_ttl lcf\<rparr> :: ngx_sentinel_redis_push"
  let ?push = "redis_put ?e push" and ?pfx = "str_of (lcf_redis_prefix (rd_lcf rd))"
  have ring: "wk_rings w' nm = Some ?push" using block_queues_for_redis [OF assms(1-13)] by simp
  have inv: "ring_inv NGX_SENTINEL_REDIS_PUSH_RING ?push" "push_entries ?push = push_entries push @ [?e]"
    using push_ring.put_invar [OF room(1)] push_ring.put_entries [OF room(1), of ?e] room(2) by simp_all
  then obtain push' where f: "flush_loop ngx fe ?pfx 0 ?push sent =
      (push', sent @ map (publish ngx fe ?pfx) (filter (publishable fe) (push_entries push @ [?e])))"
    using flush_publishes [OF inv(1) _ up(3), of 0 ngx ?pfx sent] push_ring.bounded [OF inv(1)] by auto
  have "publishable fe ?e" using addr assms(19,20) by (simp add: publishable_def)
  then show ?thesis using f ring redis(2) up(1,2) by (auto simp: sentinel_redis_flush_push_def publish_def)
qed

text \<open>The import half: the pulled ban convicts the client on the peer.\<close>

lemma pulled_ban_refuses:
  assumes laws: "decimal_laws ngx" "atoi_law ngx" "atoi ngx [] = None" "zone_laws ngx" "digest_laws ngx" "slab_room ngx"
    and ip: "NUL \<notin> set (r_addr_text r)"
    and ban: "act = CS_BAN" "0 \<le> expiry" "expiry < 2 ^ 63" "length (sprint_int ngx expiry) \<le> 55" "ev_now pe < expiry"
    and peer: "rd_cs_zone rd < length (mcf_cs_zones (wk_mcf w))"
      "zone_sh (mcf_cs_zones (wk_mcf w) ! rd_cs_zone rd) = Some sh" "zone_inv ngx sh"
    and conf: "enforcing lcf" "lcf_cs_zone lcf = ZAt (rd_cs_zone rd)" "0 \<le> w_crowdsec (lcf_weights lcf)"
      "thr_block (lcf_threshold lcf) \<le> w_crowdsec (lcf_weights lcf)" "w_crowdsec (lcf_weights lcf) \<le> NGX_SENTINEL_SCORE_MAX"
    and req: "fresh_request env r q" "re_now env < expiry"
    and res: "ngx_sentinel_preaccess_handler ngx env r lcf
      (w\<lparr>wk_mcf := sentinel_redis_get_reply ngx pe (r_addr_text r) (Some (RString (redis_value ngx act expiry))) (Some rd) (wk_mcf w)\<rparr>, q) =
        (rc, w', q')"
  shows "rc = NGX_STATUS (lcf_block_status lcf) \<and> wk_rings w' = wk_rings w"
proof -
  let ?w = "w\<lparr>wk_mcf := sentinel_redis_get_reply ngx pe (r_addr_text r) (Some (RString (redis_value ngx act expiry))) (Some rd) (wk_mcf w)\<rparr>"
  obtain sh' where z: "mcf_cs_zones (wk_mcf ?w) =
        (mcf_cs_zones (wk_mcf w))[rd_cs_zone rd := (mcf_cs_zones (wk_mcf w) ! rd_cs_zone rd)\<lparr>zone_sh := Some sh'\<rparr>]"
      "zone_inv ngx sh'" "ban_of sh' = (ban_of sh)(sha256 ngx (r_addr_text r) \<mapsto> (expiry, act))"
    using pulled_ban_stored [OF laws ip _ ban(2-5) peer, of act] ban(1) by auto
  have q: "rq_ctx q = NoCtx" "re_alloc env" "r_addr_text r \<noteq> []" using req(1) by (simp_all add: fresh_request_def)
  have hit: "crowdsec_hit (ctx_inputs ctx) \<and> crowdsec_action (ctx_inputs ctx) = act \<and> ctx = new_ctx (ctx_inputs ctx) lcf"
    if "ngx_sentinel_get_ctx ngx env r lcf (?w, q) = (Some ctx, w0, q0)" for ctx w0 q0
  proof (rule imported_ban_hit [OF laws(4) q(1) _ _ _ z(2) _ req(2) q(3) that])
    show "zone_at (lcf_cs_zone lcf) = Some (rd_cs_zone rd)" using conf(2) by simp
    show "rd_cs_zone rd < length (mcf_cs_zones (wk_mcf ?w))" "zone_sh (mcf_cs_zones (wk_mcf ?w) ! rd_cs_zone rd) = Some sh'"
      using peer(1) unfolding z(1) by simp_all
    show "ban_of sh' (sentinel_feed_digest ngx (r_addr_text r)) = Some (expiry, act)"
      by (simp add: z(3) sentinel_feed_digest_def)
  qed
  obtain inp mcf l where g: "gather_signals ngx env r lcf (wk_mcf ?w) = ((inp, mcf), l)" by (metis prod.exhaust)
  note c = get_ctx_new [OF q(1,2) g]
  have "crowdsec_hit (ctx_inputs (new_ctx inp lcf))" "crowdsec_action (ctx_inputs (new_ctx inp lcf)) = CS_BAN"
    using hit [OF c] ban(1) by simp_all
  then have "ctx_verdict (new_ctx inp lcf) = VERDICT_BLOCK"
    using crowdsec_ban_verdict [of inp lcf] conf(3-5) by (simp add: new_ctx_def Let_def)
  from preaccess_ctx [OF conf(1) c this] have "rc = NGX_STATUS (lcf_block_status lcf)"
    using res by (simp add: enforce_block_def Let_def)
  moreover have "wk_rings w' = wk_rings ?w" using preaccess_rings [OF res] hit by blast
  ultimately show ?thesis by simp
qed



end
