(* ===== verification/Sentinel_Fuzz.thy ===== *)
theory Sentinel_Fuzz
  imports Sentinel_Feed Sentinel_Ja4h "HOL-Library.Monad_Syntax"
begin

unbundle bit_operations_syntax

text \<open>
  The libFuzzer targets under \<^verbatim>\<open>fuzz/\<close>. \<^verbatim>\<open>fuzz_feed.c\<close> has its own copy of the feed parser over stubs of
  the nginx functions. It is modelled byte by byte: the input is a buffer, a pointer an index into
  it, and a read outside the buffer makes the whole run \<open>None\<close>, which is what the sanitizer would
  report. The lemmas show that no input gets there and that the copy gives the verdict of the
  model of \<^verbatim>\<open>sentinel_feed.c\<close>, so that theory's recursion over lines is what the pointer code does.
  The other two targets build a request from the input and call the code of the module.
\<close>

subsection \<open>Checked memory\<close>

definition rd :: "string \<Rightarrow> nat \<Rightarrow> char option" where
  "rd m i = (if i < length m then Some (m ! i) else None)"

definition memcpy_at :: "string \<Rightarrow> nat \<Rightarrow> nat \<Rightarrow> string option" where
  "memcpy_at m p n = (if p + n \<le> length m then Some (take n (drop p m)) else None)"

fun memchr_at :: "string \<Rightarrow> char \<Rightarrow> nat \<Rightarrow> nat \<Rightarrow> nat option option" where
  "memchr_at m c p 0 = Some None"
| "memchr_at m c p (Suc n) =
     do { x \<leftarrow> rd m p; if x = c then Some (Some p) else memchr_at m c (Suc p) n }"

text \<open>\<open>strncmp(m + p, lit, n) == 0\<close> for a literal.\<close>

fun strncmp_at :: "string \<Rightarrow> nat \<Rightarrow> string \<Rightarrow> nat \<Rightarrow> bool option" where
  "strncmp_at m p lit 0 = Some True"
| "strncmp_at m p lit (Suc n) =
     do { x \<leftarrow> rd m p;
          let y = (case lit of [] \<Rightarrow> NUL | y # _ \<Rightarrow> y)
          in if x \<noteq> y then Some False else if x = NUL then Some True else strncmp_at m (Suc p) (tl lit) n }"

text \<open>The loop \<open>while (p < end && *p != c) p++\<close>.\<close>

function scan_to :: "string \<Rightarrow> char \<Rightarrow> nat \<Rightarrow> nat \<Rightarrow> nat option" where
  "scan_to m c p e =
     (if p < e then do { x \<leftarrow> rd m p; if x \<noteq> c then scan_to m c (Suc p) e else Some p } else Some p)"
  by auto
termination by (relation "measure (\<lambda>(m, c, p, e). e - p)") auto

declare scan_to.simps [simp del]

subsection \<open>The stubs of fuzz_feed.c\<close>

definition digit_of :: "char \<Rightarrow> nat option" where
  "digit_of c = (let n = of_char c :: nat in if n < 48 \<or> n > 57 then None else Some (n - 48))"

fun atoi_loop :: "string \<Rightarrow> nat \<Rightarrow> nat \<Rightarrow> nat \<Rightarrow> int option option" where
  "atoi_loop m p 0 val = Some (Some (int val))"
| "atoi_loop m p (Suc len) val =
     do { c \<leftarrow> rd m p;
          case digit_of c of
            None \<Rightarrow> Some None
          | Some d \<Rightarrow>
              let val = val * 10 + d
              in if val > 0x7fffffff then Some None else atoi_loop m (Suc p) len val }"

definition ngx_atoi_fuzz :: "string \<Rightarrow> nat \<Rightarrow> nat \<Rightarrow> int option option" where
  "ngx_atoi_fuzz m p len = (if len = 0 then Some None else atoi_loop m p len 0)"

text \<open>The C library: \<open>inet_addr\<close>, \<open>inet_pton\<close> and \<open>inet_ntop\<close> on terminated strings.\<close>

record libc =
  lc_inet_addr :: "string \<Rightarrow> 32 word"
  lc_inet_pton6 :: "string \<Rightarrow> string option"
  lc_inet_ntop4 :: "32 word \<Rightarrow> string option"
  lc_inet_ntop6 :: "string \<Rightarrow> string option"

definition INADDR_NONE :: "32 word" where "INADDR_NONE = 0xffffffff"

definition c_text :: "string \<Rightarrow> string" where
  "c_text s = takeWhile (\<lambda>c. c \<noteq> NUL) s"

definition ngx_inet_addr_fuzz :: "libc \<Rightarrow> string \<Rightarrow> nat \<Rightarrow> nat \<Rightarrow> 32 word option" where
  "ngx_inet_addr_fuzz lc m p len =
     (if len = 0 \<or> len \<ge> 16 then Some INADDR_NONE
      else do { tmp \<leftarrow> memcpy_at m p len; Some (lc_inet_addr lc (c_text (tmp @ [NUL]))) })"

text \<open>\<open>INET6_ADDRSTRLEN + 1\<close> is 47.\<close>

definition ngx_inet6_addr_fuzz :: "libc \<Rightarrow> string \<Rightarrow> nat \<Rightarrow> nat \<Rightarrow> string option option" where
  "ngx_inet6_addr_fuzz lc m p len =
     (if len = 0 \<or> len \<ge> 47 then Some None
      else do { tmp \<leftarrow> memcpy_at m p len; Some (lc_inet_pton6 lc (c_text (tmp @ [NUL]))) })"

definition ngx_inet_ntop_fuzz :: "libc \<Rightarrow> 32 word \<Rightarrow> string" where
  "ngx_inet_ntop_fuzz lc addr = (case lc_inet_ntop4 lc addr of None \<Rightarrow> [] | Some text \<Rightarrow> c_text text)"

definition ngx_inet6_ntop_fuzz :: "libc \<Rightarrow> string \<Rightarrow> string" where
  "ngx_inet6_ntop_fuzz lc addr = (case lc_inet_ntop6 lc addr of None \<Rightarrow> [] | Some text \<Rightarrow> c_text text)"

fun crc_bits :: "nat \<Rightarrow> 32 word \<Rightarrow> 32 word \<Rightarrow> 32 word" where
  "crc_bits 0 b crc = crc"
| "crc_bits (Suc k) b crc =
     (let bit = (crc XOR b) AND 1;
          crc = drop_bit 1 crc;
          crc = (if bit \<noteq> 0 then crc XOR 0xedb88320 else crc)
      in crc_bits k (drop_bit 1 b) crc)"

fun crc_loop :: "string \<Rightarrow> nat \<Rightarrow> nat \<Rightarrow> 32 word \<Rightarrow> 32 word option" where
  "crc_loop m p 0 crc = Some crc"
| "crc_loop m p (Suc len) crc =
     do { c \<leftarrow> rd m p; crc_loop m (Suc p) len (crc_bits 8 (of_nat (of_char c)) crc) }"

definition ngx_crc32_long_fuzz :: "string \<Rightarrow> nat \<Rightarrow> nat \<Rightarrow> 32 word option" where
  "ngx_crc32_long_fuzz m p len = do { crc \<leftarrow> crc_loop m p len 0xffffffff; Some (crc XOR 0xffffffff) }"

text \<open>The zone stub keeps only the generation; \<open>fz_sh\<close> is \<open>None\<close> for a null context.\<close>

record fuzz_zone =
  fz_sh :: "64 word option"
  fz_shpool :: bool

definition sentinel_shm_crowdsec_upsert_fuzz :: "fuzz_zone \<Rightarrow> string \<Rightarrow> int \<Rightarrow> cs_action_tier \<Rightarrow> 64 word \<Rightarrow> int \<Rightarrow> ngx_rc" where
  "sentinel_shm_crowdsec_upsert_fuzz zone key expiry act generation now = NGX_OK"

definition sentinel_shm_crowdsec_sweep_fuzz :: "fuzz_zone \<Rightarrow> 64 word \<Rightarrow> nat \<Rightarrow> nat" where
  "sentinel_shm_crowdsec_sweep_fuzz zone generation batch = 0"

definition SHA256_fuzz :: "string \<Rightarrow> string" where
  "SHA256_fuzz d = replicate 32 NUL"

subsection \<open>The copied parser\<close>

definition sentinel_feed_digest_fuzz :: "string \<Rightarrow> string" where
  "sentinel_feed_digest_fuzz text = SHA256_fuzz text"

definition sentinel_feed_action_fuzz :: "string \<Rightarrow> nat \<Rightarrow> nat \<Rightarrow> cs_action_tier option" where
  "sentinel_feed_action_fuzz m p len =
     do { ban \<leftarrow> (if len = 3 then strncmp_at m p ''ban'' 3 else Some False);
          if ban then Some CS_BAN
          else do {
            captcha \<leftarrow> (if len = 7 then strncmp_at m p ''captcha'' 7 else Some False);
            if captcha then Some CS_CAPTCHA
            else do {
              throttle \<leftarrow> (if len = 8 then strncmp_at m p ''throttle'' 8 else Some False);
              Some (if throttle then CS_THROTTLE else CS_NONE) } } }"

definition sentinel_feed_canon_ip_fuzz :: "libc \<Rightarrow> string \<Rightarrow> nat \<Rightarrow> nat \<Rightarrow> string option" where
  "sentinel_feed_canon_ip_fuzz lc m p len =
     (if len = 0 \<or> len \<ge> 64 then Some []
      else do {
        slash \<leftarrow> memchr_at m CHR ''/'' p len;
        if slash \<noteq> None then Some []
        else do {
          copy \<leftarrow> memcpy_at m p len;
          let tmp = copy @ [NUL]
          in do {
            inaddr \<leftarrow> ngx_inet_addr_fuzz lc tmp 0 len;
            if inaddr \<noteq> INADDR_NONE then Some (ngx_inet_ntop_fuzz lc inaddr)
            else do {
              v6 \<leftarrow> ngx_inet6_addr_fuzz lc tmp 0 len;
              Some (case v6 of None \<Rightarrow> [] | Some a \<Rightarrow> ngx_inet6_ntop_fuzz lc a) } } } })"

function crc_scan :: "string \<Rightarrow> nat \<Rightarrow> nat \<Rightarrow> 32 word \<Rightarrow> 32 word option option" where
  "crc_scan m p e file_crc =
     (if p < e
      then do {
        c \<leftarrow> rd m p;
        case hex_value c of
          None \<Rightarrow> Some None
        | Some v \<Rightarrow> crc_scan m (Suc p) e (push_bit 4 file_crc OR v) }
      else Some (Some file_crc))"
  by auto
termination by (relation "measure (\<lambda>(m, p, e, f). e - p)") auto

declare crc_scan.simps [simp del]

definition sentinel_feed_check_trailer_fuzz :: "string \<Rightarrow> nat \<Rightarrow> nat \<Rightarrow> nat \<Rightarrow> 32 word \<Rightarrow> ngx_rc option" where
  "sentinel_feed_check_trailer_fuzz m trailer tlen cnt crc =
     (if tlen < 9 then Some NGX_DECLINED
      else do {
        eof \<leftarrow> strncmp_at m trailer ''%%EOF '' 6;
        if \<not> eof then Some NGX_DECLINED
        else
          let cstart = trailer + 6; e = trailer + tlen
          in do {
            p \<leftarrow> scan_to m CHR '' '' cstart e;
            if p = cstart \<or> p \<ge> e then Some NGX_DECLINED
            else do {
              n \<leftarrow> ngx_atoi_fuzz m cstart (p - cstart);
              case n of
                None \<Rightarrow> Some NGX_DECLINED
              | Some n \<Rightarrow>
                  if n \<noteq> int cnt then Some NGX_DECLINED
                  else if p + 1 \<ge> e then Some NGX_DECLINED
                  else do {
                    file_crc \<leftarrow> crc_scan m (p + 1) e 0;
                    Some (if file_crc = Some crc then NGX_OK else NGX_DECLINED) } } } })"

lemma memchr_at_range: "memchr_at m c p n = Some (Some e) \<Longrightarrow> p \<le> e \<and> e < p + n"
  by (induction m c p n rule: memchr_at.induct)
    (force split: if_splits simp: bind_eq_Some_conv)+

text \<open>The search for the trailer.\<close>

function locate_at :: "string \<Rightarrow> nat \<Rightarrow> nat \<Rightarrow> nat option option" where
  "locate_at m q e =
     (if q < e
      then do {
        nl \<leftarrow> memchr_at m NL q (e - q);
        let ll = (case nl of Some i \<Rightarrow> i - q | None \<Rightarrow> e - q)
        in do {
          eof \<leftarrow> (if ll \<ge> 6 then strncmp_at m q ''%%EOF '' 6 else Some False);
          if eof then Some (Some q)
          else case nl of None \<Rightarrow> Some None | Some i \<Rightarrow> locate_at m (i + 1) e } }
      else Some None)"
  by auto
termination by (relation "measure (\<lambda>(m, q, e). e - q)") (auto dest: memchr_at_range)

declare locate_at.simps [simp del]

text \<open>The length of a line without its carriage return; \<open>None\<close> for a line that both passes skip.\<close>

definition line_body :: "string \<Rightarrow> nat \<Rightarrow> nat \<Rightarrow> nat option option" where
  "line_body m line ll =
     (if ll = 0 then Some None
      else do {
        c \<leftarrow> rd m line;
        if c = CHR ''#'' then Some None
        else do {
          l \<leftarrow> rd m (line + ll - 1);
          let ll = (if l = CR then ll - 1 else ll)
          in Some (if ll = 0 then None else Some ll) } })"

text \<open>The three fields of a line; \<open>None\<close> for a malformed one.\<close>

definition decision_at :: "libc \<Rightarrow> string \<Rightarrow> nat \<Rightarrow> nat \<Rightarrow> (string \<times> cs_action_tier \<times> int) option option" where
  "decision_at lc m line ll =
     do { f1end \<leftarrow> scan_to m CHR '' '' line (line + ll);
          if f1end \<ge> line + ll then Some None
          else
            let f2 = f1end + 1
            in do {
              f2end \<leftarrow> scan_to m CHR '' '' f2 (line + ll);
              if f2end \<ge> line + ll then Some None
              else
                let f3 = f2end + 1; f3end = line + ll
                in if f3 \<ge> f3end then Some None
                   else do {
                     canon \<leftarrow> sentinel_feed_canon_ip_fuzz lc m line (f1end - line);
                     if length canon = 0 then Some None
                     else do {
                       act \<leftarrow> sentinel_feed_action_fuzz m f2 (f2end - f2);
                       if act = CS_NONE then Some None
                       else do {
                         expiry \<leftarrow> ngx_atoi_fuzz m f3 (f3end - f3);
                         Some (map_option (\<lambda>expiry. (canon, act, expiry)) expiry) } } } } }"

function count_pass :: "libc \<Rightarrow> string \<Rightarrow> nat \<Rightarrow> nat \<Rightarrow> nat \<times> nat \<Rightarrow> (nat \<times> nat) option" where
  "count_pass lc m p trailer (cnt, malformed) =
     (if p < trailer
      then do {
        nl \<leftarrow> memchr_at m NL p (trailer - p);
        let ll = (case nl of Some i \<Rightarrow> i - p | None \<Rightarrow> trailer - p);
            next_line = (case nl of Some i \<Rightarrow> i + 1 | None \<Rightarrow> trailer)
        in do {
          body \<leftarrow> line_body m p ll;
          case body of
            None \<Rightarrow> count_pass lc m next_line trailer (cnt, malformed)
          | Some ll \<Rightarrow>
              do {
                d \<leftarrow> decision_at lc m p ll;
                count_pass lc m next_line trailer (case d of None \<Rightarrow> (cnt, malformed + 1) | Some _ \<Rightarrow> (cnt + 1, malformed)) } } }
      else Some (cnt, malformed))"
  by pat_completeness auto
termination
  by (relation "measure (\<lambda>(lc, m, p, trailer, st). trailer - p)") (auto dest: memchr_at_range split: option.splits)

declare count_pass.simps [simp del]

text \<open>The apply pass; \<open>Some applied\<close> is its counter.\<close>

function apply_pass :: "libc \<Rightarrow> fuzz_zone \<Rightarrow> 64 word \<Rightarrow> int \<Rightarrow> int \<Rightarrow> string \<Rightarrow> nat \<Rightarrow> nat \<Rightarrow> nat \<Rightarrow> nat option" where
  "apply_pass lc zone generation default_ttl now m p trailer applied =
     (if p < trailer
      then do {
        nl \<leftarrow> memchr_at m NL p (trailer - p);
        let ll = (case nl of Some i \<Rightarrow> i - p | None \<Rightarrow> trailer - p);
            next_line = (case nl of Some i \<Rightarrow> i + 1 | None \<Rightarrow> trailer)
        in do {
          body \<leftarrow> line_body m p ll;
          case body of
            None \<Rightarrow> apply_pass lc zone generation default_ttl now m next_line trailer applied
          | Some ll \<Rightarrow>
              do {
                d \<leftarrow> decision_at lc m p ll;
                case d of
                  None \<Rightarrow> apply_pass lc zone generation default_ttl now m next_line trailer applied
                | Some (canon, act, expiry_val) \<Rightarrow>
                    let exp = (if expiry_val = 0 then now + default_ttl else expiry_val)
                    in if exp \<le> now then apply_pass lc zone generation default_ttl now m next_line trailer applied
                       else if sentinel_shm_crowdsec_upsert_fuzz zone (sentinel_feed_digest_fuzz canon) exp act generation now \<noteq> NGX_OK
                       then Some applied
                       else apply_pass lc zone generation default_ttl now m next_line trailer (applied + 1) } } }
      else Some applied)"
  by auto
termination
  by (relation "measure (\<lambda>(lc, zone, g, ttl, now, m, p, trailer, n). trailer - p)") (auto dest: memchr_at_range split: option.splits)

declare apply_pass.simps [simp del]

text \<open>The check of the trailer line: up to its newline, without a carriage return.\<close>

definition trailer_rc :: "string \<Rightarrow> nat \<Rightarrow> nat \<Rightarrow> nat \<Rightarrow> 32 word \<Rightarrow> ngx_rc option" where
  "trailer_rc m trailer len cnt crc =
     do { te \<leftarrow> memchr_at m NL trailer (len - trailer);
          let tlen = (case te of Some i \<Rightarrow> i - trailer | None \<Rightarrow> len - trailer)
          in do {
            cr \<leftarrow> (if tlen > 0 then map_option (\<lambda>c. c = CR) (rd m (trailer + tlen - 1)) else Some False);
            sentinel_feed_check_trailer_fuzz m trailer (if cr then tlen - 1 else tlen) cnt crc } }"

text \<open>The sweep loop ends in its first round, because the stub sweeps nothing.\<close>

definition sentinel_feed_parse_fuzz :: "libc \<Rightarrow> fuzz_zone option \<Rightarrow> string \<Rightarrow> nat \<Rightarrow> int \<Rightarrow> int \<Rightarrow>
    (ngx_rc \<times> fuzz_zone option) option" where
  "sentinel_feed_parse_fuzz lc zone m len default_ttl now =
     (case zone of
        None \<Rightarrow> Some (NGX_ERROR, zone)
      | Some z \<Rightarrow>
          (case fz_sh z of
             None \<Rightarrow> Some (NGX_ERROR, zone)
           | Some g \<Rightarrow>
               if \<not> fz_shpool z then Some (NGX_ERROR, zone)
               else if len = 0 then Some (NGX_DECLINED, zone)
               else do {
                 nl \<leftarrow> memchr_at m NL 0 len;
                 let hl = (case nl of Some i \<Rightarrow> i | None \<Rightarrow> len); want = length NGX_SENTINEL_FEED_HEADER
                 in do {
                   ok \<leftarrow> (if hl \<noteq> want then Some False else strncmp_at m 0 NGX_SENTINEL_FEED_HEADER want);
                   if \<not> ok then Some (NGX_DECLINED, zone)
                   else
                     (case nl of
                        None \<Rightarrow> Some (NGX_DECLINED, zone)
                      | Some i \<Rightarrow>
                          let body_start = i + 1
                          in do {
                            found \<leftarrow> locate_at m body_start len;
                            case found of
                              None \<Rightarrow> Some (NGX_DECLINED, zone)
                            | Some trailer \<Rightarrow>
                                do {
                                  crc \<leftarrow> ngx_crc32_long_fuzz m body_start (trailer - body_start);
                                  (cnt, malformed) \<leftarrow> count_pass lc m body_start trailer (0, 0);
                                  rc \<leftarrow> trailer_rc m trailer len cnt crc;
                                  if rc \<noteq> NGX_OK then Some (NGX_DECLINED, zone)
                                  else if malformed > 0 \<and> malformed * NGX_SENTINEL_FEED_MALFORMED_DENOM > cnt + malformed
                                  then Some (NGX_DECLINED, zone)
                                  else
                                    let z = z\<lparr>fz_sh := Some (g + 1)\<rparr>
                                    in do {
                                      applied \<leftarrow> apply_pass lc z (g + 1) default_ttl now m body_start trailer 0;
                                      Some (NGX_OK, Some z) } } }) } }))"

text \<open>One run of the target. \<open>st\<close> is its static zone, \<open>None\<close> before the first run; \<open>alloc\<close> is the answer
  of \<open>malloc\<close>. The input is copied into a buffer with a terminator.\<close>

definition LLVMFuzzerTestOneInput_feed :: "libc \<Rightarrow> bool \<Rightarrow> string \<Rightarrow> fuzz_zone option \<Rightarrow> fuzz_zone option option" where
  "LLVMFuzzerTestOneInput_feed lc alloc data st =
     (let zone = (case st of None \<Rightarrow> \<lparr>fz_sh = Some 0, fz_shpool = True\<rparr> | Some z \<Rightarrow> z)
      in if \<not> alloc then Some (Some zone)
         else do {
           (rc, z) \<leftarrow> sentinel_feed_parse_fuzz lc (Some zone) (data @ [NUL]) (length data) 3600 1700000000;
           Some z })"

subsection \<open>Reads inside the buffer\<close>

text \<open>The bytes from \<open>p\<close> up to \<open>e\<close>.\<close>

abbreviation slice :: "string \<Rightarrow> nat \<Rightarrow> nat \<Rightarrow> string" where
  "slice m p e \<equiv> take (e - p) (drop p m)"

lemma slice_step: "p < e \<Longrightarrow> e \<le> length m \<Longrightarrow> slice m p e = m ! p # slice m (Suc p) e"
  by (simp add: Cons_nth_drop_Suc [symmetric] take_Cons' Suc_diff_Suc flip: Suc_diff_Suc)

lemma rd_in [simp]: "i < length m \<Longrightarrow> rd m i = Some (m ! i)"
  by (simp add: rd_def)

lemma memcpy_in [simp]: "p + n \<le> length m \<Longrightarrow> memcpy_at m p n = Some (take n (drop p m))"
  by (simp add: memcpy_at_def)

lemma drop_step: "p < length m \<Longrightarrow> drop p m = m ! p # drop (Suc p) m"
  by (simp add: Cons_nth_drop_Suc)

lemma memchr_in: "p + n \<le> length m \<Longrightarrow> memchr_at m c p n = Some (map_option ((+) p) (memchr c (take n (drop p m))))"
proof (induction n arbitrary: p)
  case (Suc n)
  then show ?case using Suc.IH [of "Suc p"] drop_step [of p m] by (auto simp: option.map_comp comp_def intro!: option.map_cong)
qed simp

lemma strncmp_in: "p + n \<le> length m \<Longrightarrow> strncmp_at m p lit n = Some (strncmp_eq n (drop p m) lit)"
proof (induction n arbitrary: p lit)
  case (Suc n)
  then show ?case using Suc.IH [of "Suc p" "tl lit"] drop_step [of p m] by (cases lit) (auto simp: Let_def)
qed simp

lemma strncmp_eq_take: "n \<le> k \<Longrightarrow> strncmp_eq n (take k s) lit = strncmp_eq n s lit"
proof (induction n s lit arbitrary: k rule: strncmp_eq.induct)
  case (4 n x a y b)
  then show ?case by (cases k) auto
next
  case (3 n x a)
  then show ?case by (cases k) auto
qed auto

lemma scan_in: "p \<le> e \<Longrightarrow> e \<le> length m \<Longrightarrow>
    scan_to m c p e = Some (case memchr c (slice m p e) of None \<Rightarrow> e | Some i \<Rightarrow> p + i)"
proof (induction m c p e rule: scan_to.induct)
  case (1 m c p e)
  show ?case
  proof (cases "p < e")
    case True
    then have s: "slice m p e = m ! p # slice m (Suc p) e" using "1.prems" by (intro slice_step) auto
    show ?thesis using True "1.IH" [OF True] "1.prems"
      by (subst scan_to.simps) (auto simp: s simp del: memchr_None split: option.splits)
  qed (use "1.prems" in \<open>simp add: scan_to.simps\<close>)
qed

fun atoi_text :: "nat \<Rightarrow> string \<Rightarrow> int option" where
  "atoi_text val [] = Some (int val)"
| "atoi_text val (c # s) =
     (case digit_of c of
        None \<Rightarrow> None
      | Some d \<Rightarrow> let val = val * 10 + d in if val > 0x7fffffff then None else atoi_text val s)"

lemma atoi_loop_in: "p + n \<le> length m \<Longrightarrow> atoi_loop m p n val = Some (atoi_text val (take n (drop p m)))"
proof (induction n arbitrary: p val)
  case (Suc n)
  then show ?case using drop_step [of p m] by (auto simp: Let_def split: option.split)
qed simp

lemma crc_loop_in: "p + n \<le> length m \<Longrightarrow>
    crc_loop m p n crc = Some (fold (\<lambda>c. crc_bits 8 (of_nat (of_char c))) (take n (drop p m)) crc)"
proof (induction n arbitrary: p crc)
  case (Suc n)
  then show ?case using drop_step [of p m] by (simp del: crc_bits.simps)
qed simp

lemma crc_scan_in: "p \<le> e \<Longrightarrow> e \<le> length m \<Longrightarrow> crc_scan m p e f = Some (trailer_crc (slice m p e) f)"
proof (induction m p e f rule: crc_scan.induct)
  case (1 m p e f)
  show ?case
  proof (cases "p < e")
    case True
    then have s: "slice m p e = m ! p # slice m (Suc p) e" using "1.prems" by (intro slice_step) auto
    show ?thesis using True "1.IH" [OF True] "1.prems" by (subst crc_scan.simps) (auto simp: s split: option.split)
  qed (use "1.prems" in \<open>simp add: crc_scan.simps\<close>)
qed

subsection \<open>The stubs as an interface\<close>

text \<open>The nginx functions as the target stubs them; the rest of the interface is not used by the parser.\<close>

definition fuzz_api :: "libc \<Rightarrow> ngx_api" where
  "fuzz_api lc = ngx_shim\<lparr>
     sha256 := SHA256_fuzz,
     crc32_long := (\<lambda>s. fold (\<lambda>c. crc_bits 8 (of_nat (of_char c))) s 0xffffffff XOR 0xffffffff),
     atoi := (\<lambda>s. if s = [] then None else atoi_text 0 s),
     inet_addr := (\<lambda>s. let a = lc_inet_addr lc (c_text s) in if length s \<ge> 16 \<or> a = INADDR_NONE then None else Some a),
     inet6_addr := (\<lambda>s. if length s \<ge> 47 then None else lc_inet_pton6 lc (c_text s)),
     inet_ntop := ngx_inet_ntop_fuzz lc, inet6_ntop := ngx_inet6_ntop_fuzz lc\<rparr>"

lemma fuzz_api_simps [simp]:
  "sha256 (fuzz_api lc) = SHA256_fuzz"
  "crc32_long (fuzz_api lc) s = fold (\<lambda>c. crc_bits 8 (of_nat (of_char c))) s 0xffffffff XOR 0xffffffff"
  "atoi (fuzz_api lc) s = (if s = [] then None else atoi_text 0 s)"
  "inet_addr (fuzz_api lc) s =
     (let a = lc_inet_addr lc (c_text s) in if length s \<ge> 16 \<or> a = INADDR_NONE then None else Some a)"
  "inet6_addr (fuzz_api lc) s = (if length s \<ge> 47 then None else lc_inet_pton6 lc (c_text s))"
  "inet_ntop (fuzz_api lc) = ngx_inet_ntop_fuzz lc" "inet6_ntop (fuzz_api lc) = ngx_inet6_ntop_fuzz lc"
  by (simp_all add: fuzz_api_def)

lemma atoi_in: "p + n \<le> length m \<Longrightarrow> ngx_atoi_fuzz m p n = Some (atoi (fuzz_api lc) (take n (drop p m)))"
  by (auto simp: ngx_atoi_fuzz_def atoi_loop_in)

lemma crc_in: "p + n \<le> length m \<Longrightarrow> ngx_crc32_long_fuzz m p n = Some (crc32_long (fuzz_api lc) (take n (drop p m)))"
  by (simp add: ngx_crc32_long_fuzz_def crc_loop_in)

lemma c_text_terminated [simp]: "c_text (s @ [NUL]) = c_text s"
  by (induction s) (auto simp: c_text_def)

lemma canon_in:
  assumes "p + n \<le> length m"
  shows "sentinel_feed_canon_ip_fuzz lc m p n = Some (sentinel_feed_canon_ip (fuzz_api lc) (take n (drop p m)))"
proof -
  have "length (take n (drop p m)) = n" using assms by simp
  then show ?thesis
    using assms
    by (auto simp: sentinel_feed_canon_ip_fuzz_def sentinel_feed_canon_ip_def memchr_in Let_def ngx_inet_addr_fuzz_def
        ngx_inet6_addr_fuzz_def simp del: memchr_None split: option.split)
qed

lemma action_in:
  assumes "p + n \<le> length m"
  shows "sentinel_feed_action_fuzz m p n = Some (sentinel_feed_action (take n (drop p m)))"
proof -
  have "length (take n (drop p m)) = n" using assms by simp
  then show ?thesis
    using assms by (auto simp: sentinel_feed_action_fuzz_def sentinel_feed_action_def strncmp_in strncmp_eq_take)
qed

subsection \<open>The parser against the model of sentinel_feed.c\<close>

lemma slice_slice: "p \<le> a \<Longrightarrow> b \<le> e \<Longrightarrow> slice (slice m p e) (a - p) (b - p) = slice m a b"
  by (simp add: drop_take take_take drop_drop min_def)

text \<open>What the scan for a separator found, as the parts of the slice.\<close>

lemma slice_cut:
  assumes "memchr c (slice m p e) = Some i" "e \<le> length m"
  shows "take i (slice m p e) = slice m p (p + i)" "drop (Suc i) (slice m p e) = slice m (Suc (p + i)) e" "p + i < e"
proof -
  have i: "i < e - p" using memchr_less [OF assms(1)] by simp
  then show "take i (slice m p e) = slice m p (p + i)" "p + i < e" by (simp_all add: min_def)
  show "drop (Suc i) (slice m p e) = slice m (Suc (p + i)) e" by (simp add: drop_take add.commute)
qed

lemma trailer_in:
  assumes "t + n \<le> length m"
  shows "sentinel_feed_check_trailer_fuzz m t n cnt crc =
    Some (sentinel_feed_check_trailer (fuzz_api lc) (take n (drop t m)) cnt crc)"
proof (cases "n < 9")
  case False
  let ?s = "slice m (t + 6) (t + n)"
  have s: "drop 6 (take n (drop t m)) = ?s" by (simp add: drop_take add.commute)
  have e: "strncmp_at m t ''%%EOF '' 6 = Some (strncmp_eq 6 (take n (drop t m)) ''%%EOF '')"
    using False assms by (simp add: strncmp_in strncmp_eq_take)
  have l: "length (take n (drop t m)) = n" using assms by simp
  note d = sentinel_feed_check_trailer_fuzz_def sentinel_feed_check_trailer_def
  show ?thesis
  proof (cases "memchr CHR '' '' ?s")
    case None
    then show ?thesis using False assms l unfolding d e s by (simp add: scan_in Let_def del: memchr_None)
  next
    case (Some i)
    note cut = slice_cut [OF Some assms]
    have a: "ngx_atoi_fuzz m (t + 6) i = Some (atoi (fuzz_api lc) (take i ?s))"
      using atoi_in [of "t + 6" i m lc] cut(1,3) assms by simp
    have "slice m (Suc (t + 6 + i)) (t + n) = [] \<longleftrightarrow> t + n \<le> Suc (t + 6 + i)" using assms cut(3) by auto
    then show ?thesis
      using Some False assms l cut(2,3) a crc_scan_in [of "Suc (t + 6 + i)" "t + n" m 0] unfolding d e s
      by (auto simp: scan_in Let_def simp del: fuzz_api_simps split: option.split)
  qed
qed (use assms in \<open>simp add: sentinel_feed_check_trailer_fuzz_def sentinel_feed_check_trailer_def\<close>)

lemma line_body_in:
  assumes "p + ll \<le> length m" "line = take ll (drop p m)"
  shows "line_body m p ll = Some (if feed_ignored line then None else Some (length (strip_cr line)))"
proof (cases ll)
  case (Suc k)
  have l: "length line = Suc k" "hd line = m ! p" "last line = m ! (p + k)"
    using Suc assms by (auto simp: hd_drop_conv_nth last_conv_nth)
  have n: "length (strip_cr line) = (if m ! (p + k) = CR then k else Suc k)" using l by (simp add: strip_cr_def)
  have "feed_ignored line \<longleftrightarrow> m ! p = CHR ''#'' \<or> length (strip_cr line) = 0" using l by (simp add: feed_ignored_def)
  then show ?thesis using Suc assms(1) n by (cases "k = 0") (auto simp: line_body_def Let_def)
qed (use assms in \<open>simp add: line_body_def feed_ignored_def\<close>)

lemma strip_cr_prefix: "strip_cr s = take (length (strip_cr s)) s"
  by (simp add: strip_cr_def butlast_conv_take)

lemma decision_in:
  assumes "p + ll \<le> length m" "take ll (drop p m) = strip_cr line"
  shows "decision_at lc m p ll = Some (feed_decision (fuzz_api lc) line)"
proof -
  let ?s = "slice m p (p + ll)" and ?e = "p + ll"
  have s: "strip_cr line = ?s" using assms by simp
  note d = decision_at_def feed_decision_def feed_fields_def
  show ?thesis
  proof (cases "memchr CHR '' '' ?s")
    case None
    then show ?thesis using assms(1) unfolding d s by (simp add: scan_in del: memchr_None)
  next
    case i: (Some i)
    note ci = slice_cut [OF i assms(1)]
    let ?s2 = "slice m (Suc (p + i)) ?e"
    show ?thesis
    proof (cases "memchr CHR '' '' ?s2")
      case None
      then show ?thesis using assms(1) i ci(2,3) unfolding d s by (simp add: scan_in Let_def del: memchr_None)
    next
      case j: (Some j)
      note cj = slice_cut [OF j assms(1)]
      let ?f3 = "slice m (Suc (Suc (p + i) + j)) ?e"
      have "?f3 = [] \<longleftrightarrow> ?e \<le> Suc (Suc (p + i) + j)" using assms(1) by auto
      moreover have "sentinel_feed_canon_ip_fuzz lc m p i = Some (sentinel_feed_canon_ip (fuzz_api lc) (take i ?s))"
        using canon_in [of p i m lc] ci assms(1) by simp
      moreover have "sentinel_feed_action_fuzz m (Suc (p + i)) j = Some (sentinel_feed_action (take j ?s2))"
        using action_in [of "Suc (p + i)" j m] cj assms(1) by simp
      moreover have "Suc (Suc (p + i) + j) \<le> ?e \<Longrightarrow>
          ngx_atoi_fuzz m (Suc (Suc (p + i) + j)) (?e - Suc (Suc (p + i) + j)) = Some (atoi (fuzz_api lc) ?f3)"
        using atoi_in [of "Suc (Suc (p + i) + j)" "?e - Suc (Suc (p + i) + j)" m lc] assms(1) by simp
      ultimately show ?thesis
        using assms(1) i j ci(2,3) cj(2,3) unfolding d s
        by (auto simp: scan_in Let_def simp del: fuzz_api_simps split: option.split)
    qed
  qed
qed

text \<open>One line of the body: its end, what both passes read of it, and the rest.\<close>

lemma body_step:
  assumes "p < t" "t \<le> length m"
  obtains line rest nl where "memchr_at m NL p (t - p) = Some nl"
    "feed_lines (slice m p t) = line # feed_lines (slice m rest t)" "p < rest" "rest \<le> t"
    "(case nl of Some i \<Rightarrow> i + 1 | None \<Rightarrow> t) = rest"
    "line_body m p (case nl of Some i \<Rightarrow> i - p | None \<Rightarrow> t - p) =
      Some (if feed_ignored line then None else Some (length (strip_cr line)))"
    "decision_at lc m p (length (strip_cr line)) = Some (feed_decision (fuzz_api lc) line)"
proof -
  define q where "q = slice m p t"
  have q: "q \<noteq> []" using assms by (auto simp: q_def)
  have m: "memchr_at m NL p (t - p) = Some (map_option ((+) p) (memchr NL q))"
    using assms by (simp add: memchr_in q_def)
  have line: "p + length (strip_cr line) \<le> length m" "take (length (strip_cr line)) (drop p m) = strip_cr line"
    if "p + ll \<le> length m" "line = take ll (drop p m)" for ll line
  proof -
    have "length (strip_cr line) \<le> ll" using that by (simp add: strip_cr_def)
    then show "p + length (strip_cr line) \<le> length m" "take (length (strip_cr line)) (drop p m) = strip_cr line"
      using that strip_cr_prefix [of line] by (simp_all add: take_take min_def)
  qed
  show thesis
  proof (cases "memchr NL q")
    case None
    then have "feed_lines q = q # feed_lines []"
      using q by (simp add: feed_lines.simps [of q] feed_lines.simps [of "[]"] cut_line_def del: memchr_None)
    then show thesis
      using that [of None q t] m None assms line_body_in [of p "t - p" m q] decision_in [OF line [of "t - p" q]]
      by (simp add: q_def del: memchr_None)
  next
    case (Some i)
    note c = slice_cut [OF Some [unfolded q_def] assms(2)]
    then have "feed_lines q = slice m p (p + i) # feed_lines (slice m (Suc (p + i)) t)"
      using q Some by (subst feed_lines.simps) (simp add: cut_line_def flip: q_def)
    then show thesis
      using that [of "Some (p + i)" "take i (drop p m)" "Suc (p + i)"] m Some assms(2) c(3)
        line_body_in [of p i m] decision_in [OF line [of i]]
      by (simp add: q_def)
  qed
qed

lemma count_in:
  "p \<le> t \<Longrightarrow> t \<le> length m \<Longrightarrow> count_pass lc m p t st = Some (feed_count (fuzz_api lc) (feed_lines (slice m p t)) st)"
proof (induction "t - p" arbitrary: p st rule: less_induct)
  case less
  obtain cnt malformed where st: "st = (cnt, malformed)" by fastforce
  show ?case
  proof (cases "p < t")
    case True
    from True less.prems(2) show ?thesis
    proof (rule body_step [where lc = lc])
      fix line rest nl
      assume b: "memchr_at m NL p (t - p) = Some nl"
        "feed_lines (slice m p t) = line # feed_lines (slice m rest t)" "p < rest" "rest \<le> t"
        "(case nl of Some i \<Rightarrow> i + 1 | None \<Rightarrow> t) = rest"
        "line_body m p (case nl of Some i \<Rightarrow> i - p | None \<Rightarrow> t - p) =
          Some (if feed_ignored line then None else Some (length (strip_cr line)))"
        "decision_at lc m p (length (strip_cr line)) = Some (feed_decision (fuzz_api lc) line)"
      have ih: "count_pass lc m rest t st' = Some (feed_count (fuzz_api lc) (feed_lines (slice m rest t)) st')" for st'
        using less.hyps [of rest] b(3,4) True less.prems(2) by simp
      show ?thesis
        using True b(7) ih by (simp add: st count_pass.simps [of lc m p] Let_def b(1,2,5,6) split: option.split)
    qed
  qed (use less.prems in \<open>simp add: st count_pass.simps [of lc m t] feed_lines.simps [of "[]"]\<close>)
qed

lemma apply_in:
  "p \<le> t \<Longrightarrow> t \<le> length m \<Longrightarrow> \<exists>k. apply_pass lc z g ttl now m p t n = Some k"
proof (induction "t - p" arbitrary: p n rule: less_induct)
  case less
  show ?case
  proof (cases "p < t")
    case True
    from True less.prems(2) show ?thesis
    proof (rule body_step [where lc = lc])
      fix line rest nl
      assume b: "memchr_at m NL p (t - p) = Some nl" "p < rest" "rest \<le> t"
        "(case nl of Some i \<Rightarrow> i + 1 | None \<Rightarrow> t) = rest"
        "line_body m p (case nl of Some i \<Rightarrow> i - p | None \<Rightarrow> t - p) =
          Some (if feed_ignored line then None else Some (length (strip_cr line)))"
        "decision_at lc m p (length (strip_cr line)) = Some (feed_decision (fuzz_api lc) line)"
      have ih: "\<exists>k. apply_pass lc z g ttl now m rest t n' = Some k" for n'
        using less.hyps [of rest] b(2,3) True less.prems(2) by simp
      show ?thesis
        using True b(6) ih by (simp add: apply_pass.simps [of lc z g ttl now m p] Let_def b(1,4,5) split: option.split)
    qed
  qed (simp add: apply_pass.simps [of lc z g ttl now m p])
qed

text \<open>The end of the trailer line and its check.\<close>

lemma trailer_line_in:
  assumes "t \<le> len" "len \<le> length m"
  shows "trailer_rc m t len cnt crc =
    Some (sentinel_feed_check_trailer (fuzz_api lc) (strip_cr (fst (cut_line (slice m t len)))) cnt crc)"
proof -
  define n where "n = length (fst (cut_line (slice m t len)))"
  have line: "fst (cut_line (slice m t len)) = take n (drop t m)" "t + n \<le> len"
    using assms memchr_less by (fastforce simp: n_def cut_line_def take_take min_def split: option.split)+
  have te: "memchr_at m NL t (len - t) = Some nl \<Longrightarrow> (case nl of Some i \<Rightarrow> i - t | None \<Rightarrow> len - t) = n" for nl
    using assms memchr_less [of NL "slice m t len"] memchr_in [of t "len - t" m NL]
    by (auto simp: n_def cut_line_def simp del: memchr_None split: option.splits)
  obtain nl where nl: "memchr_at m NL t (len - t) = Some nl" using assms memchr_in [of t "len - t" m NL] by simp
  have l: "last (take n (drop t m)) = m ! (t + n - 1)" if "n > 0"
    using that line(2) assms(2) by (simp add: last_conv_nth)
  define cr where "cr \<longleftrightarrow> n > 0 \<and> last (take n (drop t m)) = CR"
  have c: "(if n > 0 then map_option (\<lambda>c. c = CR) (rd m (t + n - 1)) else Some False) = Some cr"
    using line(2) assms(2) l by (simp add: cr_def)
  have s: "strip_cr (take n (drop t m)) = take (if cr then n - 1 else n) (drop t m)"
    using line(2) assms(2) butlast_take [of n "drop t m"] by (cases "n = 0") (simp_all add: strip_cr_def cr_def)
  have "t + (if cr then n - 1 else n) \<le> length m" using line(2) assms(2) by auto
  from trailer_in [OF this, of cnt crc lc] show ?thesis
    unfolding trailer_rc_def nl line(1) s by (simp only: Option.bind.simps Let_def te [OF nl] c)
qed

lemma locate_in:
  "p \<le> e \<Longrightarrow> e \<le> length m \<Longrightarrow>
     locate_at m p e = Some (map_option (\<lambda>(body, t). p + length body) (locate_trailer (slice m p e)))"
proof (induction "e - p" arbitrary: p rule: less_induct)
  case less
  show ?case
  proof (cases "p < e")
    case True
    define q where "q = slice m p e"
    have q: "q \<noteq> []" "length q = e - p" using True less.prems by (auto simp: q_def)
    have m: "memchr_at m NL p (e - p) = Some (map_option ((+) p) (memchr NL q))"
      using less.prems by (simp add: memchr_in q_def)
    have eof: "(if 6 \<le> n then strncmp_at m p ''%%EOF '' 6 else Some False) = Some (6 \<le> n \<and> strncmp_eq 6 q ''%%EOF '')"
      if "p + n \<le> e" for n
      using that less.prems by (auto simp: strncmp_in strncmp_eq_take q_def)
    show ?thesis
    proof (cases "memchr NL q")
      case None
      have "locate_trailer q = (if 6 \<le> length q \<and> strncmp_eq 6 q ''%%EOF '' then Some ([], q) else None)"
        using None q by (subst locate_trailer.simps) (simp add: cut_line_def del: memchr_None)
      then show ?thesis
        using True m None eof [of "e - p"] q less.prems unfolding q_def [symmetric]
        by (simp add: locate_at.simps [of m p] Let_def del: memchr_None)
    next
      case (Some i)
      note c = slice_cut [OF Some [unfolded q_def] less.prems(2)]
      have i: "length (take i q) = i" using memchr_less [OF Some] by simp
      have ih: "locate_at m (Suc (p + i)) e =
          Some (map_option (\<lambda>(body, t). Suc (p + i) + length body) (locate_trailer (drop (Suc i) q)))"
        using less.hyps [of "Suc (p + i)"] c(2,3) less.prems(2) True by (simp add: q_def)
      have "locate_trailer q = (if 6 \<le> i \<and> strncmp_eq 6 q ''%%EOF '' then Some ([], q)
          else map_option (\<lambda>(body, t). (take i q @ [NL] @ body, t)) (locate_trailer (drop (Suc i) q)))"
        using Some q i by (subst locate_trailer.simps) (simp add: cut_line_def)
      then show ?thesis
        using True m Some eof [of i] c(3) ih i unfolding q_def [symmetric]
        by (auto simp: locate_at.simps [of m p] Let_def option.map_comp comp_def split_beta intro!: option.map_cong)
    qed
  qed (use less.prems in \<open>simp add: locate_at.simps [of m e] locate_trailer.simps [of "[]"]\<close>)
qed

text \<open>A parse of the first \<open>len\<close> bytes of a buffer.\<close>

lemma parse_in:
  assumes z: "fz_sh z = Some g" "fz_shpool z" and len: "len \<le> length m"
  shows "sentinel_feed_parse_fuzz lc (Some z) m len ttl now =
    Some (case feed_validate (fuzz_api lc) (take len m) of
            Inl rc \<Rightarrow> (rc, Some z)
          | Inr body \<Rightarrow> (NGX_OK, Some (z\<lparr>fz_sh := Some (g + 1)\<rparr>)))"
proof (cases "memchr NL (take len m)")
  case None
  have "memchr_at m NL 0 len = Some None" using memchr_in [of 0 len m NL] len None by simp
  then show ?thesis using z len None
    by (auto simp: sentinel_feed_parse_fuzz_def feed_validate_def cut_line_def strncmp_in strncmp_eq_take Let_def simp del: memchr_None)
next
  case (Some i)
  define b where "b = Suc i"
  have i: "i < len" using memchr_less [OF Some] len by simp
  have nl: "memchr_at m NL 0 len = Some (Some i)" using memchr_in [of 0 len m NL] len Some by simp
  have cut: "cut_line (take len m) = (take i m, Some (slice m b len))"
    using Some i by (simp add: cut_line_def drop_take b_def min_def)
  have ne: "len \<noteq> 0" "m \<noteq> []" "take len m \<noteq> []" using i len by auto
  have il: "length (take i m) = i" using i len by simp
  let ?H = NGX_SENTINEL_FEED_HEADER
  note d = sentinel_feed_parse_fuzz_def feed_validate_def
  show ?thesis
  proof (cases "i = length ?H \<and> strncmp_eq (length ?H) (take len m) ?H")
    case False
    then have "(if i \<noteq> length ?H then Some False else strncmp_at m 0 ?H (length ?H)) = Some False"
      using i len by (auto simp: strncmp_in strncmp_eq_take)
    then show ?thesis using z False il ne by (auto simp: d nl cut Let_def)
  next
    case head: True
    then have h: "strncmp_at m 0 ?H (length ?H) = Some True" using i len by (simp add: strncmp_in strncmp_eq_take)
    have b: "Suc (length ?H) = b" using head by (simp add: b_def)
    have bl: "b \<le> len" using i by (simp add: b_def)
    show ?thesis
    proof (cases "locate_trailer (slice m b len)")
      case None
      then show ?thesis using z ne il head locate_in [OF bl len] by (simp add: d nl cut h b Let_def)
    next
      case (Some x)
      obtain body tail where x: "x = (body, tail)" by fastforce
      have bt: "slice m b len = body @ tail" using locate_trailer_Some Some x by blast
      define t where "t = b + length body"
      have t: "t \<le> len" "b \<le> t" "b + (t - b) \<le> length m" "t \<le> length m"
        using arg_cong [OF bt, of length] bl len by (simp_all add: t_def)
      have "min (length body) (len - b) = length body" using t by (simp add: t_def)
      then have bd: "slice m b t = body" using arg_cong [OF bt, of "take (length body)"] by (simp add: t_def take_take)
      have tl: "slice m t len = tail"
        using arg_cong [OF bt, of "drop (length body)"] by (simp add: t_def drop_take add.commute)
      have loc: "locate_at m b len = Some (Some t)" using locate_in [OF bl len] Some x by (simp add: t_def)
      obtain cnt malformed where c: "feed_count (fuzz_api lc) (feed_lines body) (0, 0) = (cnt, malformed)" by fastforce
      obtain n where ap: "apply_pass lc (z\<lparr>fz_sh := Some (g + 1)\<rparr>) (g + 1) ttl now m b t 0 = Some n"
        using apply_in [OF t(2,4)] by blast
      note steps = crc_in [OF t(3), of lc, unfolded bd] count_in [OF t(2,4), of lc "(0, 0)", unfolded bd c]
        trailer_line_in [OF t(1) len, where lc = lc, unfolded tl]
      show ?thesis
        using z ne il head
        by (simp add: d nl cut h b loc Some x steps c ap Let_def del: fuzz_api_simps split del: if_split) (simp add: Let_def ap)
    qed
  qed
qed

text \<open>The check value of the CRC-32 of the trailer.\<close>

lemma crc_check_value: "ngx_crc32_long_fuzz ''123456789'' 0 9 = Some 0xcbf43926"
  by code_simp

subsection \<open>The target fuzz_ja4h_canon.c\<close>

definition FUZZ_MAX_HDRS :: nat where "FUZZ_MAX_HDRS = 80"

definition zero_request :: ngx_http_request where
  "zero_request =
     \<lparr>r_uri = [], r_method = HTTP_OTHER, r_http_version = 0, r_headers = [], r_host = None, r_content_length = None,
      r_transfer_encoding = None, r_user_agent = None, r_accept = None, r_accept_language = None, r_accept_encoding = None,
      r_cookie = [], r_args = [], r_addr_text = [], r_sockaddr = None, r_err_status = 0, r_out_status = 0\<rparr>"

definition fuzz_methods :: "http_method list" where
  "fuzz_methods = [HTTP_GET, HTTP_POST, HTTP_PUT, HTTP_DELETE, HTTP_HEAD, HTTP_OPTIONS, HTTP_PATCH, HTTP_OTHER]"

definition fuzz_versions :: "nat list" where
  "fuzz_versions = [NGX_HTTP_VERSION_11 - 1, NGX_HTTP_VERSION_11, NGX_HTTP_VERSION_20]"

text \<open>The loop that cuts length-prefixed header names off the input: the headers and the rest.\<close>

fun inject :: "nat \<Rightarrow> string \<Rightarrow> ngx_table_elt list \<times> string" where
  "inject 0 p = ([], p)"
| "inject (Suc n) [] = ([], [])"
| "inject (Suc n) (c # p) =
     (let nlen = of_char c;
          nlen = (if nlen = 0 then 1 else nlen);
          nlen = (if length p < nlen then length p else nlen)
      in if nlen = 0 then ([], p)
         else
           case inject n (drop nlen p) of
             (hdrs, rest) \<Rightarrow> (\<lparr>hdr_hash = 1, hdr_key = take nlen p, hdr_value = []\<rparr> # hdrs, rest))"

definition fuzz_request :: "string \<Rightarrow> ngx_http_request option" where
  "fuzz_request data =
     (if length data < 4 then None
      else
        let nhdr = of_char (data ! 2) mod FUZZ_MAX_HDRS;
            al_len = of_char (data ! 3);
            (hdrs, p) = inject nhdr (drop 4 data);
            al = (if al_len > 0 \<and> p \<noteq> [] then Some (take (if al_len > length p then length p else al_len) p) else None)
        in Some (zero_request\<lparr>r_method := fuzz_methods ! (of_char (data ! 0) mod 8),
                   r_http_version := fuzz_versions ! (of_char (data ! 1) mod 3),
                   r_headers := hdrs, r_accept_language := al\<rparr>))"

definition LLVMFuzzerTestOneInput_ja4h :: "ngx_api \<Rightarrow> string \<Rightarrow> string option" where
  "LLVMFuzzerTestOneInput_ja4h ngx data = map_option (sentinel_ja4h_compute ngx) (fuzz_request data)"

subsection \<open>The target fuzz_botua.c\<close>

definition LLVMFuzzerTestOneInput_botua :: "string \<Rightarrow> ngx_sentinel_inputs" where
  "LLVMFuzzerTestOneInput_botua data =
     sentinel_botua_signal (zero_request\<lparr>r_user_agent := (if length data = 0 then None else Some data)\<rparr>) zero_inputs"

subsection \<open>What the JA4H target reaches\<close>

text \<open>The requests the target is meant to build, and an input for each.\<close>

record ja4h_shape =
  js_method :: http_method
  js_version :: nat
  js_names :: "string list"
  js_lang :: "string option"

definition shape_ok :: "ja4h_shape \<Rightarrow> bool" where
  "shape_ok s \<longleftrightarrow> js_version s \<in> set fuzz_versions \<and> length (js_names s) < FUZZ_MAX_HDRS \<and>
     list_all (\<lambda>n. n \<noteq> [] \<and> length n < 256) (js_names s) \<and>
     pred_option (\<lambda>l. l \<noteq> [] \<and> length l < 256) (js_lang s)"

fun index_of :: "'a \<Rightarrow> 'a list \<Rightarrow> nat" where
  "index_of x [] = 0"
| "index_of x (y # ys) = (if x = y then 0 else Suc (index_of x ys))"

definition shape_input :: "ja4h_shape \<Rightarrow> string" where
  "shape_input s =
     [char_of (index_of (js_method s) fuzz_methods), char_of (index_of (js_version s) fuzz_versions),
      char_of (length (js_names s)), char_of (case js_lang s of None \<Rightarrow> 0 | Some l \<Rightarrow> length l)] @
     concat (map (\<lambda>n. char_of (length n) # n) (js_names s)) @ (case js_lang s of None \<Rightarrow> [] | Some l \<Rightarrow> l)"

lemma index_nth: "x \<in> set xs \<Longrightarrow> index_of x xs < length xs \<and> xs ! index_of x xs = x"
  by (induction xs) auto

lemma inject_names:
  "list_all (\<lambda>n. n \<noteq> [] \<and> length n < 256) ns \<Longrightarrow>
     inject (length ns) (concat (map (\<lambda>n. char_of (length n) # n) ns) @ rest) =
       (map (\<lambda>n. \<lparr>hdr_hash = 1, hdr_key = n, hdr_value = []\<rparr>) ns, rest)"
  by (induction ns) (simp_all add: Let_def)

lemma request_of_input:
  assumes "shape_ok s"
  shows "fuzz_request (shape_input s) =
    Some (zero_request\<lparr>r_method := js_method s, r_http_version := js_version s,
      r_headers := map (\<lambda>n. \<lparr>hdr_hash = 1, hdr_key = n, hdr_value = []\<rparr>) (js_names s), r_accept_language := js_lang s\<rparr>)"
proof -
  have m: "js_method s \<in> set fuzz_methods" by (cases "js_method s") (simp_all add: fuzz_methods_def)
  have i: "index_of (js_method s) fuzz_methods < 8" "index_of (js_version s) fuzz_versions < 3"
    using index_nth [OF m] assms index_nth [of "js_version s" fuzz_versions]
    by (simp_all add: shape_ok_def fuzz_methods_def fuzz_versions_def)
  have n: "length (js_names s) mod 256 mod FUZZ_MAX_HDRS = length (js_names s)"
    using assms by (simp add: shape_ok_def FUZZ_MAX_HDRS_def)
  show ?thesis
    using assms i n index_nth [OF m] index_nth [of "js_version s" fuzz_versions] inject_names [of "js_names s"]
    by (auto simp: fuzz_request_def shape_input_def shape_ok_def Let_def split: option.splits)
qed

subsection \<open>The copy and the module differ in the numbers\<close>

text \<open>
  The stub of \<open>ngx_atoi\<close> stops at \<open>2\<^sup>3\<^sup>1 - 1\<close>, that of nginx at the width of its integers: an
  expiry after January 2038 is a decision for the module and a malformed line for the target.
\<close>

lemma far_expiry_is_malformed:
  assumes "atoi_law ngx" "sprint_int ngx 4102444800 = ''4102444800''"
  shows "atoi ngx ''4102444800'' = Some 4102444800 \<and> ngx_atoi_fuzz ''4102444800'' 0 10 = Some None"
proof
  have "atoi ngx (sprint_int ngx 4102444800) = Some 4102444800" using assms(1) unfolding atoi_law_def by simp
  then show "atoi ngx ''4102444800'' = Some 4102444800" unfolding assms(2) .
  show "ngx_atoi_fuzz ''4102444800'' 0 10 = Some None"
    by (simp add: ngx_atoi_fuzz_def atoi_loop_in digit_of_def Let_def)
qed

subsection \<open>A sample feed\<close>

definition sample_libc :: libc where
  "sample_libc = \<lparr>lc_inet_addr = (\<lambda>s. if s = ''192.0.2.1'' then 0xc0000201 else INADDR_NONE), lc_inet_pton6 = (\<lambda>s. None),
     lc_inet_ntop4 = (\<lambda>a. if a = 0xc0000201 then Some ''192.0.2.1'' else None), lc_inet_ntop6 = (\<lambda>a. None)\<rparr>"

definition sample_line :: string where "sample_line = ''192.0.2.1 ban 0''"

definition sample_trailer :: string where "sample_trailer = ''%%EOF 1 575bf4ca'' @ [NL]"

definition sample_feed :: string where
  "sample_feed = NGX_SENTINEL_FEED_HEADER @ [NL] @ (sample_line @ [NL]) @ sample_trailer"

lemma cut_first: "NL \<notin> set l \<Longrightarrow> cut_line (l @ NL # r) = (l, Some r)"
  by (simp add: cut_line_def memchr_append_notin)

lemma sample_lines: "NL \<notin> set sample_line" "NL \<notin> set NGX_SENTINEL_FEED_HEADER" "NL \<notin> set ''%%EOF 1 575bf4ca''"
  by (simp_all add: sample_line_def NL_def NGX_SENTINEL_FEED_HEADER_def)

lemma target_crc: "crc32_long (fuzz_api sample_libc) (sample_line @ [NL]) = 0x575bf4ca"
  unfolding fuzz_api_simps by code_simp

lemma sample_decision: "feed_decision (fuzz_api sample_libc) sample_line = Some (''192.0.2.1'', CS_BAN, 0)"
  by (simp add: feed_decision_def sample_line_def strip_cr_def CR_def feed_fields_def sentinel_feed_canon_ip_def sample_libc_def
      c_text_def NUL_def INADDR_NONE_def ngx_inet_ntop_fuzz_def sentinel_feed_action_def digit_of_def Let_def)

lemma sample_eof: "strncmp_eq 6 ''%%EOF 1 575bf4ca'' ''%%EOF ''" "strncmp_eq 6 sample_trailer ''%%EOF ''"
  unfolding sample_trailer_def by code_simp+

lemma sample_check: "sentinel_feed_check_trailer (fuzz_api sample_libc) (strip_cr ''%%EOF 1 575bf4ca'') 1 0x575bf4ca = NGX_OK"
  by (simp add: sentinel_feed_check_trailer_def strip_cr_def CR_def hex_value_def digit_of_def Let_def
      sample_eof)

lemma sample_validate: "feed_validate (fuzz_api sample_libc) sample_feed = Inr (sample_line @ [NL])"
proof -
  have t: "locate_trailer sample_trailer = Some ([], sample_trailer)"
    using cut_first [OF sample_lines(3), of "[]"] sample_eof(2)
    by (subst locate_trailer.simps) (simp add: sample_trailer_def)
  have n: "\<not> strncmp_eq 6 (sample_line @ s) ''%%EOF ''" for s by (simp add: sample_line_def eval_nat_numeral)
  have l: "locate_trailer ((sample_line @ [NL]) @ sample_trailer) = Some (sample_line @ [NL], sample_trailer)"
    using cut_first [OF sample_lines(1), of sample_trailer] t n
    by (subst locate_trailer.simps) (simp add: sample_line_def)
  have f: "feed_lines (sample_line @ [NL]) = [sample_line]"
    using cut_first [OF sample_lines(1), of "[]"] by (simp add: feed_lines.simps [of "sample_line @ [NL]"] feed_lines.simps [of "[]"])
  have i: "\<not> feed_ignored sample_line" by (simp add: feed_ignored_def sample_line_def strip_cr_def CR_def)
  have c: "cut_line sample_feed = (NGX_SENTINEL_FEED_HEADER, Some ((sample_line @ [NL]) @ sample_trailer))"
    using cut_first [OF sample_lines(2)] by (simp add: sample_feed_def)
  have d: "fst (cut_line sample_trailer) = ''%%EOF 1 575bf4ca''"
    using cut_first [OF sample_lines(3), of "[]"] by (simp add: sample_trailer_def)
  have h: "strncmp_eq (length NGX_SENTINEL_FEED_HEADER) sample_feed NGX_SENTINEL_FEED_HEADER"
    unfolding sample_feed_def by (rule strncmp_eq_append) (simp_all add: NUL_def NGX_SENTINEL_FEED_HEADER_def)
  have "sample_feed \<noteq> []" by (simp add: sample_feed_def)
  then show ?thesis
    using h i sample_check by (simp add: feed_validate_def c d l f target_crc sample_decision Let_def del: fuzz_api_simps append.simps append_assoc)
qed

subsection \<open>Properties\<close>

lemma validate_error: "feed_validate ngx data = Inl rc \<Longrightarrow> rc = NGX_DECLINED"
  by (auto simp: feed_validate_def Let_def split: if_splits option.splits prod.splits)

lemma parse_code:
  assumes "zone_sh z = Some sh"
  shows "fst (sentinel_feed_parse ngx (Some z) data ttl now) = (case feed_validate ngx data of Inl rc \<Rightarrow> rc | Inr body \<Rightarrow> NGX_OK)"
  using assms by (simp add: sentinel_feed_parse_def Let_def split: sum.split prod.split)

text \<open>
  Claim C15: the feed parser reads only the bytes it is given, and the pointer code computes what the
  line-by-line model says. For every buffer and every length within it, the copied parser with its
  checked reads ends without a fault; it returns the code that the model of the module's parser
  returns for those bytes over the same primitives, and bumps the generation exactly when the feed
  is accepted. No terminator after the bytes is needed.
\<close>

theorem feed_parser_stays_in_its_buffer:
  assumes "fz_sh z = Some g" and "fz_shpool z" and "len \<le> length m" and "zone_sh z' = Some sh"
  shows "let rc = fst (sentinel_feed_parse (fuzz_api lc) (Some z') (take len m) ttl now)
    in sentinel_feed_parse_fuzz lc (Some z) m len ttl now =
      Some (rc, Some (if rc = NGX_OK then z\<lparr>fz_sh := Some (g + 1)\<rparr> else z))"
proof (cases "feed_validate (fuzz_api lc) (take len m)")
  case (Inl rc)
  then show ?thesis using parse_in [OF assms(1-3), of lc ttl now] validate_error [OF Inl] by (simp add: parse_code [OF assms(4)])
next
  case (Inr body)
  then show ?thesis using parse_in [OF assms(1-3), of lc ttl now] by (simp add: parse_code [OF assms(4)])
qed

theorem feed_parser_stays_in_its_buffer_witness:
  "fst (sentinel_feed_parse (fuzz_api sample_libc) (Some sample_zone) sample_feed 3600 0) = NGX_OK \<and>
   sentinel_feed_parse_fuzz sample_libc (Some \<lparr>fz_sh = Some 0, fz_shpool = True\<rparr>) sample_feed (length sample_feed) 3600 0 =
     Some (NGX_OK, Some \<lparr>fz_sh = Some 1, fz_shpool = True\<rparr>)"
proof -
  have "sentinel_feed_parse_fuzz sample_libc (Some \<lparr>fz_sh = Some 0, fz_shpool = True\<rparr>) sample_feed (length sample_feed) 3600 0 =
      Some (NGX_OK, Some \<lparr>fz_sh = Some 1, fz_shpool = True\<rparr>)"
    using parse_in [of "\<lparr>fz_sh = Some 0, fz_shpool = True\<rparr>" 0 "length sample_feed" sample_feed] sample_validate by simp
  moreover have "zone_sh sample_zone = Some fresh_shctx" by simp
  note p = feed_parser_stays_in_its_buffer [OF _ _ order_refl this, of "\<lparr>fz_sh = Some 0, fz_shpool = True\<rparr>" 0 sample_libc sample_feed 3600 0]
  ultimately show ?thesis using p unfolding Let_def take_all [OF order_refl] by (metis fuzz_zone.select_convs option.inject prod.inject)
qed

end
