(* ===== verification/Spec2Isabelle.thy ===== *)
theory Spec2Isabelle
  imports Sentinel_System Sentinel_Fuzz
begin

text \<open>
  Verification of \<^verbatim>\<open>nginx-http-sentinel-module\<close>, an nginx module that scores every request and
  lets it pass, challenges, slows down, tarpits or blocks it. The model is a shallow embedding of
  the C sources under \<^verbatim>\<open>src/src/\<close> and \<^verbatim>\<open>src/fuzz/\<close>.

  \<^bold>\<open>The program.\<close> In the preaccess phase \<^verbatim>\<open>ngx_sentinel_get_ctx\<close> gathers fifteen signals about the
  request (error rate and velocity of the client from shared-memory zones, header and User-Agent
  heuristics, fingerprint and address lists, a DNS check of crawlers, CrowdSec decisions), adds
  up their weights and maps the score to a verdict; the preaccess handler enforces it. A block
  leaves a soft ban in the client's zone and is queued in two shared rings, from which worker
  timers publish it to Redis and write it to a decisions file. Feeds and Redis peers fill the ban
  table from the other side. The log handler records error responses.

  \<^bold>\<open>Theories, in the order of their imports.\<close>
  \<^item> \<^verbatim>\<open>Sentinel_Prelude\<close>: nginx return codes, C string functions, shared list and option lemmas.
  \<^item> \<^verbatim>\<open>Sentinel_Types\<close>: the structs and enums of \<^verbatim>\<open>sentinel.h\<close> as records and datatypes, and the record
    \<open>ngx_api\<close> of the functions of nginx core and OpenSSL that the module calls.
  \<^item> \<^verbatim>\<open>Sentinel_Nginx\<close>: the laws assumed of those functions (red-black tree, slab, comparison, sort,
    digest, decimal conversion) and \<open>ngx_shim\<close>, an implementation that satisfies them.
  \<^item> \<^verbatim>\<open>Sentinel_Conf\<close>: directive handlers, creation and merging of configurations
    (\<^verbatim>\<open>ngx_http_sentinel_module.c\<close>); valid ranges, valid zone pointers, enforcement only by opt-in.
  \<^item> \<^verbatim>\<open>Sentinel_Score\<close>: \<^verbatim>\<open>sentinel_score.c\<close>; equal to a reference sum, monotone in the evidence.
  \<^item> \<^verbatim>\<open>Sentinel_Shm\<close>, \<^verbatim>\<open>Sentinel_Zone\<close>, \<^verbatim>\<open>Sentinel_Table\<close>: \<^verbatim>\<open>sentinel_shm.c\<close>. A zone is a slab of nodes, a
    search tree and an LRU queue; the operations refine functions on a list of nodes, the locale
    \<open>ban_store\<close> states what a store of bans promises and is interpreted on the zone.
  \<^item> \<^verbatim>\<open>Sentinel_Signals\<close>, \<^verbatim>\<open>Sentinel_Ja4h\<close>: the request signals and the JA4H fingerprint.
  \<^item> \<^verbatim>\<open>Sentinel_Feed\<close>: \<^verbatim>\<open>sentinel_feed.c\<close>; an accepted feed is the content of the table, a feed that
    fails a check changes nothing, a printed feed is read back.
  \<^item> \<^verbatim>\<open>Sentinel_Ring\<close>: the two shared rings as instances of the locale \<open>bounded_fifo\<close>.
  \<^item> \<^verbatim>\<open>Sentinel_Redis\<close>, \<^verbatim>\<open>Sentinel_Cssink\<close>: \<^verbatim>\<open>sentinel_redis.c\<close> (a step relation of the client) and
    \<^verbatim>\<open>sentinel_cssink.c\<close> (the decisions file).
  \<^item> \<^verbatim>\<open>Sentinel_Pow\<close>: \<^verbatim>\<open>sentinel_pow.c\<close>; soundness of cookie and difficulty.
  \<^item> \<^verbatim>\<open>Sentinel_Tarpit\<close>: \<^verbatim>\<open>sentinel_tarpit.c\<close>; the lifetime of a held connection and, for interleaved
    workers, the accounting of slots.
  \<^item> \<^verbatim>\<open>Sentinel_Fcrdns\<close>: \<^verbatim>\<open>sentinel_fcrdns.c\<close>; the chain of the two lookups and the verdict cache.
  \<^item> \<^verbatim>\<open>Sentinel_Metrics\<close>: \<^verbatim>\<open>sentinel_metrics.c\<close>.
  \<^item> \<^verbatim>\<open>Sentinel_Module\<close>: context, variables, preaccess and log handler, start-up
    (\<^verbatim>\<open>ngx_http_sentinel_module.c\<close>), and the properties that span components: a blocked client stays
    blocked, a burst of errors is refused, an imported ban is never exported, a local one always.
  \<^item> \<^verbatim>\<open>Sentinel_Adapter\<close>: the hooks of \<^verbatim>\<open>sentinel_redis.c\<close> between hiredis and nginx's event loop, as a step
    relation; no handler runs for a freed connection.
  \<^item> \<^verbatim>\<open>Sentinel_Commands\<close>: the command and variable tables of \<^verbatim>\<open>ngx_http_sentinel_module.c\<close>, and the reading
    and merging of a configuration with them; whatever nginx accepts is sound, and a written
    setting is served.
  \<^item> \<^verbatim>\<open>Sentinel_System\<close>: all workers with their shared memory. A step is one event in one worker; the
    invariants of the components hold together in every reachable state, and a block on one
    machine is published, pulled and enforced on another.
  \<^item> \<^verbatim>\<open>Sentinel_Fuzz\<close>: the libFuzzer targets of \<^verbatim>\<open>src/fuzz/\<close>. The copied feed parser is modelled on a buffer
    with checked reads: it never leaves the buffer and agrees with \<^verbatim>\<open>Sentinel_Feed\<close>, which therefore
    describes the pointer code.

  \<^bold>\<open>Conventions.\<close> A definition has the name of the C function it translates; helper definitions are
  its loops and branches. State is passed explicitly. Shared memory that is only accessed under
  its mutex is a value; the operations are the critical sections, and where the code releases the
  mutex in between (feed loads, tarpit reservations) the interleavings are modelled. What nginx,
  the resolver, hiredis and the file system answer in one event is a record of arguments, so that
  every failure path is a branch. Atomic counters, ring positions, generations, node sizes, the
  cursor and the LCG are words of their C width; times, scores and configured numbers are \<open>int\<close>
  or \<open>nat\<close>, whose ranges the merge checks bound, and the score saturates before it can overflow.

  \<^bold>\<open>Recursion.\<close> Loops over data are structural; \<open>drain_loop\<close>, the Redis flush, the leading-zero
  count and the scans over buffers have termination proofs. No definition uses fuel; \<open>timer_ticks\<close> takes the number of ticks,
  and the lifetime property gives the number (\<open>tick_bound\<close>) after which the connection is closed.

  \<^bold>\<open>Assumptions.\<close> The laws of \<^verbatim>\<open>Sentinel_Nginx\<close>, that the slab has room (\<open>slab_room\<close>) where a property says
  that a ban is stored, and that a digest has 32 bytes. Each property with a hypothesis has a
  witness in which it holds for a concrete implementation.

  \<^bold>\<open>Not modelled.\<close> Log lines; the HTML text of the challenge page (it is represented by the two
  values it embeds); the internals of nginx, OpenSSL, hiredis and the C library; tests and scripts.
  A reload is modelled for a zone, a ring and the tarpit slots, not as a step of the whole system,
  because it breaks the invariant: \<open>raised_threshold_overruns_the_ring\<close> has the case. The bytes of a
  tarpit context that are read as a request context are a parameter (\<open>re_layout\<close>).
\<close>

end
